(* ===== verification/Prelude.thy ===== *)
theory Prelude
  imports Main "HOL-Library.Word"
begin

text \<open>
  Shared vocabulary of the development: the machine integers of \<^verbatim>\<open>kernel/types.h\<close>, the
  outcome type of kernel code, the sequencing combinators in which every kernel routine is
  written, and the two program logics used throughout (\<open>triple\<close> for what a routine
  returns, \<open>keeping\<close> for what it leaves alone).

  A kernel routine is a function from the state to an \<open>outcome\<close>: it returns
  (\<open>Ok\<close>), it calls \<^verbatim>\<open>panic()\<close> (\<open>Panic\<close>), or the thread gives up the CPU in
  \<^verbatim>\<open>sched()\<close> (\<open>Swtch\<close>): it sleeps, yields or has exited, and the state says
  which. What a suspended thread does after it is switched back to is described by the
  component concerned; a blocking loop such as \<^verbatim>\<open>while(cond) sleep(chan, lk)\<close> holds no
  local data, so its resumption is the same routine started again.
\<close>

unbundle bit_operations_syntax

section \<open>Machine integers\<close>

type_synonym u8 = "8 word"
type_synonym u16 = "16 word"
type_synonym u32 = "32 word"
type_synonym u64 = "64 word"

lemma u8_lt: "unat (a :: u8) < 256"
  by (rule order_less_le_trans [OF unsigned_less]) simp

lemma u16_lt: "unat (a :: u16) < 65536"
  by (rule order_less_le_trans [OF unsigned_less]) simp

lemma u32_lt: "unat (a :: u32) < 4294967296"
  by (rule order_less_le_trans [OF unsigned_less]) simp

lemma u64_lt: "unat (a :: u64) < 18446744073709551616"
  by (rule order_less_le_trans [OF unsigned_less]) simp

text \<open>Byte strings: the ASCII bytes of a literal.\<close>

definition bytes :: "string \<Rightarrow> u8 list" where
  "bytes cs = map (\<lambda>c. of_nat (of_char c)) cs"

section \<open>Outcomes and sequencing\<close>

datatype ('a, 's) outcome = Ok 'a 's | Panic string | Swtch 's

type_synonym ('a, 's) m = "'s \<Rightarrow> ('a, 's) outcome"

definition ret :: "'a \<Rightarrow> ('a, 's) m" where
  "ret a s = Ok a s"

definition bnd :: "('a, 's) m \<Rightarrow> ('a \<Rightarrow> ('b, 's) m) \<Rightarrow> ('b, 's) m" where
  "bnd c k s = (case c s of Ok a s' \<Rightarrow> k a s' | Panic e \<Rightarrow> Panic e | Swtch s' \<Rightarrow> Swtch s')"

definition gets :: "('s \<Rightarrow> 'a) \<Rightarrow> ('a, 's) m" where
  "gets f s = Ok (f s) s"

definition modify :: "('s \<Rightarrow> 's) \<Rightarrow> (unit, 's) m" where
  "modify f s = Ok () (f s)"

definition panic :: "string \<Rightarrow> ('a, 's) m" where
  "panic msg s = Panic msg"

definition panic_if :: "bool \<Rightarrow> string \<Rightarrow> (unit, 's) m" where
  "panic_if b msg = (if b then panic msg else ret ())"

text \<open>
  Two outcomes C leaves open are panics of their own, so that no theorem about returning runs
  speaks about them: an access outside an object, and a loop that never ends.
\<close>

definition undef :: "('a, 's) m" where
  "undef = panic ''undefined behaviour''"

definition forever :: "('a, 's) m" where
  "forever = panic ''runs forever''"

definition if_do :: "bool \<Rightarrow> (unit, 's) m \<Rightarrow> (unit, 's) m" where
  "if_do b c = (if b then c else ret ())"

text \<open>Statements in a row, and a statement whose result the code ignores.\<close>

primrec block :: "(unit, 's) m list \<Rightarrow> (unit, 's) m" where
  "block [] = ret ()"
| "block (c # cs) = bnd c (\<lambda>_. block cs)"

definition ignore :: "('a, 's) m \<Rightarrow> (unit, 's) m" where
  "ignore c = bnd c (\<lambda>_. ret ())"

text \<open>Counted loops, without and with an early exit (\<open>Some r\<close>: the body returned or broke).\<close>

primrec for_each :: "'i list \<Rightarrow> ('i \<Rightarrow> (unit, 's) m) \<Rightarrow> (unit, 's) m" where
  "for_each [] f = ret ()"
| "for_each (i # is) f = bnd (f i) (\<lambda>_. for_each is f)"

primrec for_first :: "'i list \<Rightarrow> ('i \<Rightarrow> ('r option, 's) m) \<Rightarrow> ('r option, 's) m" where
  "for_first [] f = ret None"
| "for_first (i # is) f =
     bnd (f i) (\<lambda>r. case r of Some x \<Rightarrow> ret (Some x) | None \<Rightarrow> for_first is f)"

primrec repeat_m :: "nat \<Rightarrow> (unit, 's) m \<Rightarrow> (unit, 's) m" where
  "repeat_m 0 c = ret ()"
| "repeat_m (Suc n) c = bnd c (\<lambda>_. repeat_m n c)"

named_theorems m_simps \<open>unfolding the sequencing combinators on a given state\<close>

lemma ret_apply [m_simps]: "ret a s = Ok a s"
  by (simp add: ret_def)

lemma gets_apply [m_simps]: "gets f s = Ok (f s) s"
  by (simp add: gets_def)

lemma modify_apply [m_simps]: "modify f s = Ok () (f s)"
  by (simp add: modify_def)

lemma panic_apply [m_simps]: "panic e s = Panic e"
  by (simp add: panic_def)

lemma panic_if_apply [m_simps]: "panic_if b e s = (if b then Panic e else Ok () s)"
  by (simp add: panic_if_def panic_def ret_def)

lemma undef_apply [m_simps]: "undef s = Panic ''undefined behaviour''"
  by (simp add: undef_def panic_def)

lemma forever_apply [m_simps]: "forever s = Panic ''runs forever''"
  by (simp add: forever_def panic_def)

lemma if_do_apply [m_simps]: "if_do b c s = (if b then c s else Ok () s)"
  by (simp add: if_do_def ret_def)

lemma bnd_Ok [m_simps]: "c s = Ok a s' \<Longrightarrow> bnd c k s = k a s'"
  by (simp add: bnd_def)

lemma bnd_Panic [m_simps]: "c s = Panic e \<Longrightarrow> bnd c k s = Panic e"
  by (simp add: bnd_def)

lemma bnd_Swtch [m_simps]: "c s = Swtch s' \<Longrightarrow> bnd c k s = Swtch s'"
  by (simp add: bnd_def)

lemma bnd_gets [m_simps]: "bnd (gets f) k s = k (f s) s"
  by (simp add: bnd_def gets_def)

lemma bnd_modify [m_simps]: "bnd (modify f) k s = k () (f s)"
  by (simp add: bnd_def modify_def)

lemma bnd_panic [m_simps]: "bnd (panic e) k s = Panic e"
  by (simp add: bnd_def panic_def)

lemma bnd_panic_if [m_simps]: "bnd (panic_if b e) k s = (if b then Panic e else k () s)"
  by (simp add: bnd_def panic_if_def panic_def ret_def)

lemma bnd_if_do [m_simps]: "bnd (if_do b c) k s = (if b then bnd c k s else k () s)"
  by (simp add: bnd_def if_do_def ret_def)

lemma bnd_if [m_simps]: "bnd (if b then c else d) k s = (if b then bnd c k s else bnd d k s)"
  by simp

lemma if_apply [m_simps]: "(if b then c else d) s = (if b then c s else d s)"
  by simp

lemma Let_apply [m_simps]: "(let x = e in d x) s = d e s"
  by (simp add: Let_def)

lemma bnd_assoc_apply [m_simps]: "bnd (bnd c k) l s = bnd c (\<lambda>a. bnd (k a) l) s"
  by (simp add: bnd_def split: outcome.splits)

lemma bnd_Ok_iff:
  "bnd c k s = Ok b t \<longleftrightarrow> (\<exists>a s'. c s = Ok a s' \<and> k a s' = Ok b t)"
  by (simp add: bnd_def split: outcome.splits)

lemma bnd_OkE [elim]:
  assumes "bnd c k s = Ok b t"
  obtains a s' where "c s = Ok a s'" and "k a s' = Ok b t"
  using assms by (auto simp: bnd_Ok_iff)

text \<open>
  Congruence rules for the function package: a loop is a recursive routine whose call stands
  behind the routines before it, and the termination proof may use that they returned.
\<close>

lemma bnd_cong [fundef_cong]:
  assumes "s = s'" and "c s' = c' s'" and "\<And>a t. c' s' = Ok a t \<Longrightarrow> k a t = k' a t"
  shows "bnd c k s = bnd c' k' s'"
  using assms by (auto simp: bnd_def split: outcome.splits)

lemma if_apply_cong [fundef_cong]:
  assumes "b = b'" and "s = s'" and "b' \<Longrightarrow> c s' = c' s'" and "\<not> b' \<Longrightarrow> d s' = d' s'"
  shows "(if b then c else d) s = (if b' then c' else d') s'"
  using assms by auto

lemma if_do_cong [fundef_cong]:
  assumes "b = b'" and "s = s'" and "b' \<Longrightarrow> c s' = c' s'"
  shows "if_do b c s = if_do b' c' s'"
  using assms by (auto simp: if_do_apply)

lemma block_Cons_cong [fundef_cong]:
  assumes "s = s'" and "c s' = c' s'" and "\<And>u t. c' s' = Ok u t \<Longrightarrow> block cs t = block cs' t"
  shows "block (c # cs) s = block (c' # cs') s'"
  using assms by (auto simp: bnd_def split: outcome.splits)

lemma case_option_apply_cong [fundef_cong]:
  assumes "r = r'" and "s = s'" and "r' = None \<Longrightarrow> c s' = c' s'"
    and "\<And>x. r' = Some x \<Longrightarrow> d x s' = d' x s'"
  shows "(case r of None \<Rightarrow> c | Some x \<Rightarrow> d x) s = (case r' of None \<Rightarrow> c' | Some x \<Rightarrow> d' x) s'"
  using assms by (cases r') auto

lemma case_prod_apply_cong [fundef_cong]:
  assumes "r = r'" and "s = s'" and "\<And>x y. r' = (x, y) \<Longrightarrow> d x y s' = d' x y s'"
  shows "(case r of (x, y) \<Rightarrow> d x y) s = (case r' of (x, y) \<Rightarrow> d' x y) s'"
  using assms by (cases r') auto

lemma Let_apply_cong [fundef_cong]:
  assumes "e = e'" and "s = s'" and "\<And>x. x = e' \<Longrightarrow> d x s' = d' x s'"
  shows "(let x = e in d x) s = (let x = e' in d' x) s'"
  using assms by (simp add: Let_def)

text \<open>The monad laws, which let routines be regrouped.\<close>

lemma bnd_assoc: "bnd (bnd c k) l = bnd c (\<lambda>a. bnd (k a) l)"
  by (rule ext) (simp add: bnd_def split: outcome.splits)

lemma bnd_ret [simp]: "bnd c ret = c"
  by (rule ext) (simp add: bnd_def ret_def split: outcome.splits)

lemma ret_bnd [simp]: "bnd (ret a) k = k a"
  by (rule ext) (simp add: bnd_def ret_def)

lemma block_append: "block (cs @ ds) = bnd (block cs) (\<lambda>_. block ds)"
  by (induction cs) (simp_all add: bnd_assoc)

lemma for_each_append: "for_each (xs @ ys) f = bnd (for_each xs f) (\<lambda>_. for_each ys f)"
  by (induction xs) (simp_all add: bnd_assoc)

text \<open>A loop whose body always returns, under an invariant, is a fold.\<close>

lemma for_each_fold:
  assumes "\<And>i s. i \<in> set L \<Longrightarrow> I s \<Longrightarrow> f i s = Ok () (g i s) \<and> I (g i s)" and "I s"
  shows "for_each L f s = Ok () (fold g L s)" and "I (fold g L s)"
  using assms by (induction L arbitrary: s) (simp_all add: ret_def bnd_def)

lemma for_each_upt:
  assumes "\<And>i s. i < n \<Longrightarrow> I i s \<Longrightarrow> \<exists>t. f i s = Ok () t \<and> I (Suc i) t" and "I 0 s"
  shows "\<exists>t. for_each [0..<n] f s = Ok () t \<and> I n t"
  using assms
proof (induction n)
  case 0
  then show ?case by (simp add: ret_def)
next
  case (Suc n)
  then obtain t where "for_each [0..<n] f s = Ok () t" "I n t" by (metis less_SucI)
  moreover obtain u where "f n t = Ok () u" "I (Suc n) u" using Suc.prems(1) \<open>I n t\<close> by blast
  ultimately show ?case by (simp add: for_each_append bnd_def ret_def)
qed

lemma repeat_m_snoc: "repeat_m (Suc n) c = bnd (repeat_m n c) (\<lambda>_. c)"
proof (induction n)
  case 0
  have "(\<lambda>_. ret ()) = (ret :: unit \<Rightarrow> (unit, 'a) m)" by (rule ext) simp
  then show ?case by simp
next
  case (Suc n)
  have "repeat_m (Suc (Suc n)) c = bnd c (\<lambda>_. repeat_m (Suc n) c)" by simp
  also have "\<dots> = bnd c (\<lambda>_. bnd (repeat_m n c) (\<lambda>_. c))" by (simp only: Suc.IH)
  also have "\<dots> = bnd (repeat_m (Suc n) c) (\<lambda>_. c)" by (simp add: bnd_assoc)
  finally show ?case .
qed

section \<open>Program logic\<close>

text \<open>\<open>triple P c Q\<close>: from a state satisfying \<open>P\<close>, a returning run of \<open>c\<close> ends in \<open>Q\<close>.\<close>

definition triple :: "('s \<Rightarrow> bool) \<Rightarrow> ('a, 's) m \<Rightarrow> ('a \<Rightarrow> 's \<Rightarrow> bool) \<Rightarrow> bool" where
  "triple P c Q \<longleftrightarrow> (\<forall>s a t. P s \<longrightarrow> c s = Ok a t \<longrightarrow> Q a t)"

text \<open>
  \<open>keeping I W c\<close>: a run of \<open>c\<close> from \<open>I\<close> keeps \<open>I\<close> when it returns and establishes
  \<open>W\<close> when it gives up the CPU. \<open>keeps\<close> keeps \<open>I\<close> in both cases; a routine that
  \<open>runs\<close> never gives up the CPU.
\<close>

definition keeping :: "('s \<Rightarrow> bool) \<Rightarrow> ('s \<Rightarrow> bool) \<Rightarrow> ('a, 's) m \<Rightarrow> bool" where
  "keeping I W c \<longleftrightarrow>
     (\<forall>s. I s \<longrightarrow> (case c s of Ok a t \<Rightarrow> I t | Panic e \<Rightarrow> True | Swtch t \<Rightarrow> W t))"

abbreviation keeps :: "('s \<Rightarrow> bool) \<Rightarrow> ('a, 's) m \<Rightarrow> bool" where
  "keeps I c \<equiv> keeping I I c"

abbreviation runs :: "('s \<Rightarrow> bool) \<Rightarrow> ('a, 's) m \<Rightarrow> bool" where
  "runs I c \<equiv> keeping I (\<lambda>_. False) c"

named_theorems keeps_intros \<open>preservation rules for the combinators and the primitives\<close>

lemma keepingI:
  assumes "\<And>s a t. I s \<Longrightarrow> c s = Ok a t \<Longrightarrow> I t"
    and "\<And>s t. I s \<Longrightarrow> c s = Swtch t \<Longrightarrow> W t"
  shows "keeping I W c"
  unfolding keeping_def
proof (intro allI impI)
  fix s assume "I s"
  with assms(1) [of s] assms(2) [of s]
  show "case c s of Ok a t \<Rightarrow> I t | Panic e \<Rightarrow> True | Swtch t \<Rightarrow> W t"
    by (cases "c s") auto
qed

lemma keeping_OkD:
  assumes "keeping I W c" and "I s" and "c s = Ok a t"
  shows "I t"
  using spec [OF assms(1) [unfolded keeping_def], of s] assms(2,3) by simp

lemma keeping_SwtchD:
  assumes "keeping I W c" and "I s" and "c s = Swtch t"
  shows "W t"
  using spec [OF assms(1) [unfolded keeping_def], of s] assms(2,3) by simp

text \<open>The same at one state, for loops defined by recursion with the state as an argument.\<close>

lemma keeping_at:
  "(\<And>s. I s \<Longrightarrow> (case c s of Ok a t \<Rightarrow> I t | Panic e \<Rightarrow> True | Swtch t \<Rightarrow> W t)) \<Longrightarrow> keeping I W c"
  by (simp add: keeping_def)

lemma keepingD:
  "keeping I W c \<Longrightarrow> I s \<Longrightarrow> case c s of Ok a t \<Rightarrow> I t | Panic e \<Rightarrow> True | Swtch t \<Rightarrow> W t"
  by (simp add: keeping_def)

lemma keeping_weaken: "runs I c \<Longrightarrow> keeping I W c"
  by (rule keepingI) (auto dest: keeping_OkD keeping_SwtchD)

lemma keeps_ret [keeps_intros]: "keeping I W (ret a)"
  by (simp add: keeping_def ret_def)

lemma keeps_gets [keeps_intros]: "keeping I W (gets f)"
  by (simp add: keeping_def gets_def)

lemma keeps_panic [keeps_intros]: "keeping I W (panic e)"
  by (simp add: keeping_def panic_def)

lemma keeps_panic_if [keeps_intros]: "keeping I W (panic_if b e)"
  by (simp add: keeping_def panic_if_def ret_def panic_def)

lemma keeps_undef [keeps_intros]: "keeping I W undef" "keeping I W forever"
  by (simp_all add: undef_def forever_def keeps_panic)

lemma keeps_bnd [keeps_intros]:
  "keeping I W c \<Longrightarrow> (\<And>a. keeping I W (k a)) \<Longrightarrow> keeping I W (bnd c k)"
  by (rule keepingI) (auto simp: bnd_def split: outcome.splits dest: keeping_OkD keeping_SwtchD)

lemma keeps_if_do [keeps_intros]: "(b \<Longrightarrow> keeping I W c) \<Longrightarrow> keeping I W (if_do b c)"
  by (simp add: if_do_def keeps_ret)

lemma keeps_if [keeps_intros]:
  "(b \<Longrightarrow> keeping I W c) \<Longrightarrow> (\<not> b \<Longrightarrow> keeping I W d) \<Longrightarrow> keeping I W (if b then c else d)"
  by simp

lemma keeps_case_option [keeps_intros]:
  "keeping I W c \<Longrightarrow> (\<And>x. keeping I W (d x)) \<Longrightarrow>
   keeping I W (case r of None \<Rightarrow> c | Some x \<Rightarrow> d x)"
  by (cases r) simp_all

lemma keeps_case_prod [keeps_intros]:
  "(\<And>x y. keeping I W (d x y)) \<Longrightarrow> keeping I W (case p of (x, y) \<Rightarrow> d x y)"
  by (cases p) simp

lemma keeps_Let [keeps_intros]: "(\<And>x. keeping I W (d x)) \<Longrightarrow> keeping I W (let x = e in d x)"
  by simp

lemma keeps_ignore [keeps_intros]: "keeping I W c \<Longrightarrow> keeping I W (ignore c)"
  unfolding ignore_def by (intro keeps_intros)

lemma keeps_block_Nil [keeps_intros]: "keeping I W (block [])"
  by (simp add: keeps_ret)

lemma keeps_block_Cons [keeps_intros]:
  "keeping I W c \<Longrightarrow> keeping I W (block cs) \<Longrightarrow> keeping I W (block (c # cs))"
  by (simp add: keeps_bnd)

lemma keeps_for_each [keeps_intros]: "(\<And>i. keeping I W (f i)) \<Longrightarrow> keeping I W (for_each is f)"
  by (induction "is") (auto intro!: keeps_bnd keeps_ret)

lemma keeps_for_first [keeps_intros]: "(\<And>i. keeping I W (f i)) \<Longrightarrow> keeping I W (for_first is f)"
  by (induction "is") (auto intro!: keeps_bnd keeps_ret split: option.split)

lemma keeps_modify: "(\<And>s. I s \<Longrightarrow> I (f s)) \<Longrightarrow> keeping I W (modify f)"
  by (simp add: keeping_def modify_def)

lemma keeps_conj: "keeps I c \<Longrightarrow> keeps J c \<Longrightarrow> keeps (\<lambda>s. I s \<and> J s) c"
  by (rule keepingI) (auto dest: keeping_OkD keeping_SwtchD)

text \<open>Consequence and sequencing rules for \<open>triple\<close>.\<close>

lemma tripleI: "(\<And>s a t. P s \<Longrightarrow> c s = Ok a t \<Longrightarrow> Q a t) \<Longrightarrow> triple P c Q"
  by (simp add: triple_def)

lemma tripleD: "triple P c Q \<Longrightarrow> P s \<Longrightarrow> c s = Ok a t \<Longrightarrow> Q a t"
  by (auto simp: triple_def)

lemma triple_bnd:
  "triple P c R \<Longrightarrow> (\<And>a. triple (R a) (k a) Q) \<Longrightarrow> triple P (bnd c k) Q"
  unfolding triple_def by (auto simp: bnd_Ok_iff)

lemma triple_weaken:
  "triple P' c Q' \<Longrightarrow> (\<And>s. P s \<Longrightarrow> P' s) \<Longrightarrow> (\<And>a t. Q' a t \<Longrightarrow> Q a t) \<Longrightarrow> triple P c Q"
  unfolding triple_def by blast

section \<open>Transition systems\<close>

text \<open>
  The concurrent parts (spin locks, pipes, the log, the process table) are transition systems.
  A component states its start states, its steps and an invariant; interpreting
  \<open>invariant_system\<close> gives the invariant on every reachable state.
\<close>

inductive reachable :: "('s \<Rightarrow> bool) \<Rightarrow> ('s \<Rightarrow> 's \<Rightarrow> bool) \<Rightarrow> 's \<Rightarrow> bool"
  for init :: "'s \<Rightarrow> bool" and step :: "'s \<Rightarrow> 's \<Rightarrow> bool" where
  reachable_init: "init s \<Longrightarrow> reachable init step s"
| reachable_step: "reachable init step s \<Longrightarrow> step s t \<Longrightarrow> reachable init step t"

locale invariant_system =
  fixes init :: "'s \<Rightarrow> bool" and step :: "'s \<Rightarrow> 's \<Rightarrow> bool" and inv :: "'s \<Rightarrow> bool"
  assumes inv_init: "init s \<Longrightarrow> inv s"
    and inv_step: "inv s \<Longrightarrow> step s t \<Longrightarrow> inv t"
begin

lemma inv_reachable: "reachable init step s \<Longrightarrow> inv s"
  by (induction rule: reachable.induct) (auto intro: inv_init inv_step)

lemma inv_reachable_step: "reachable init step s \<Longrightarrow> step s t \<Longrightarrow> inv s \<and> inv t"
  by (meson inv_reachable inv_step)

end

end
