(* ===== verification/Layout.thy ===== *)
theory Layout
  imports Prelude
begin

text \<open>
  The constants and address macros of \<^verbatim>\<open>kernel/param.h\<close>, \<^verbatim>\<open>kernel/memlayout.h\<close> and
  \<^verbatim>\<open>kernel/riscv.h\<close>: table sizes, the physical and virtual memory maps, page rounding and
  the Sv39 page-table entry format, with the arithmetic facts the memory-management proofs use.
\<close>

section \<open>param.h\<close>

definition NPROC :: nat where "NPROC = 64"
definition NCPU :: nat where "NCPU = 8"
definition NOFILE :: nat where "NOFILE = 16"
definition NFILE :: nat where "NFILE = 100"
definition NINODE :: nat where "NINODE = 50"
definition NDEV :: nat where "NDEV = 10"
definition ROOTDEV :: u32 where "ROOTDEV = 1"
definition MAXARG :: nat where "MAXARG = 32"
definition MAXOPBLOCKS :: nat where "MAXOPBLOCKS = 10"
definition LOGSIZE :: nat where "LOGSIZE = MAXOPBLOCKS * 3"
definition NBUF :: nat where "NBUF = MAXOPBLOCKS * 3"
definition FSSIZE :: nat where "FSSIZE = 2000"
definition MAXPATH :: nat where "MAXPATH = 128"
definition USERSTACK :: u64 where "USERSTACK = 1"

lemmas param_defs = NPROC_def NCPU_def NOFILE_def NFILE_def NINODE_def NDEV_def ROOTDEV_def
  MAXARG_def MAXOPBLOCKS_def LOGSIZE_def NBUF_def FSSIZE_def MAXPATH_def USERSTACK_def

section \<open>riscv.h: pages, PTEs, satp\<close>

definition PGSIZE :: u64 where "PGSIZE = 4096"
definition PGSHIFT :: nat where "PGSHIFT = 12"

definition PGROUNDUP :: "u64 \<Rightarrow> u64" where
  "PGROUNDUP sz = (sz + PGSIZE - 1) AND NOT (PGSIZE - 1)"

definition PGROUNDDOWN :: "u64 \<Rightarrow> u64" where
  "PGROUNDDOWN a = a AND NOT (PGSIZE - 1)"

definition PTE_V :: u64 where "PTE_V = push_bit 0 1"
definition PTE_R :: u64 where "PTE_R = push_bit 1 1"
definition PTE_W :: u64 where "PTE_W = push_bit 2 1"
definition PTE_X :: u64 where "PTE_X = push_bit 3 1"
definition PTE_U :: u64 where "PTE_U = push_bit 4 1"

definition PA2PTE :: "u64 \<Rightarrow> u64" where
  "PA2PTE pa = push_bit 10 (drop_bit 12 pa)"

definition PTE2PA :: "u64 \<Rightarrow> u64" where
  "PTE2PA pte = push_bit 12 (drop_bit 10 pte)"

definition PTE_FLAGS :: "u64 \<Rightarrow> u64" where
  "PTE_FLAGS pte = pte AND 0x3FF"

definition PXMASK :: u64 where "PXMASK = 0x1FF"

definition PXSHIFT :: "nat \<Rightarrow> nat" where
  "PXSHIFT level = PGSHIFT + 9 * level"

definition PX :: "nat \<Rightarrow> u64 \<Rightarrow> u64" where
  "PX level va = drop_bit (PXSHIFT level) va AND PXMASK"

definition MAXVA :: u64 where "MAXVA = push_bit (9 + 9 + 9 + 12 - 1) 1"

definition SATP_SV39 :: u64 where "SATP_SV39 = push_bit 60 8"

definition MAKE_SATP :: "u64 \<Rightarrow> u64" where
  "MAKE_SATP pagetable = SATP_SV39 OR drop_bit 12 pagetable"

definition SSTATUS_SPP :: u64 where "SSTATUS_SPP = push_bit 8 1"
definition SSTATUS_SPIE :: u64 where "SSTATUS_SPIE = push_bit 5 1"
definition SSTATUS_SIE :: u64 where "SSTATUS_SIE = push_bit 1 1"

section \<open>memlayout.h\<close>

definition UART0 :: u64 where "UART0 = 0x10000000"
definition UART0_IRQ :: u32 where "UART0_IRQ = 10"
definition VIRTIO0 :: u64 where "VIRTIO0 = 0x10001000"
definition VIRTIO0_IRQ :: u32 where "VIRTIO0_IRQ = 1"
definition PLIC :: u64 where "PLIC = 0x0c000000"
definition KERNBASE :: u64 where "KERNBASE = 0x80000000"
definition PHYSTOP :: u64 where "PHYSTOP = KERNBASE + 128 * 1024 * 1024"
definition TRAMPOLINE :: u64 where "TRAMPOLINE = MAXVA - PGSIZE"

definition KSTACK :: "nat \<Rightarrow> u64" where
  "KSTACK p = TRAMPOLINE - (of_nat p + 1) * 2 * PGSIZE"

definition TRAPFRAME :: u64 where "TRAPFRAME = TRAMPOLINE - PGSIZE"

section \<open>Facts\<close>

named_theorems layout_consts \<open>numeric values of the layout constants\<close>

lemma PGSIZE_val [layout_consts]: "PGSIZE = 4096"
  by (simp add: PGSIZE_def)

lemma MAXVA_val [layout_consts]: "MAXVA = 0x4000000000"
  by (simp add: MAXVA_def push_bit_eq_mult)

lemma KERNBASE_val [layout_consts]: "KERNBASE = 0x80000000"
  by (simp add: KERNBASE_def)

lemma PHYSTOP_val [layout_consts]: "PHYSTOP = 0x88000000"
  by (simp add: PHYSTOP_def KERNBASE_def)

lemma TRAMPOLINE_val [layout_consts]: "TRAMPOLINE = 0x3FFFFFF000"
  by (simp add: TRAMPOLINE_def MAXVA_val PGSIZE_val)

lemma TRAPFRAME_val [layout_consts]: "TRAPFRAME = 0x3FFFFFE000"
  by (simp add: TRAPFRAME_def TRAMPOLINE_val PGSIZE_val)

lemma PTE_vals [layout_consts]:
  "PTE_V = 1" "PTE_R = 2" "PTE_W = 4" "PTE_X = 8" "PTE_U = 16"
  by (simp_all add: PTE_V_def PTE_R_def PTE_W_def PTE_X_def PTE_U_def push_bit_eq_mult)

text \<open>Rounding to pages is arithmetic on the low twelve bits.\<close>

lemma page_mask: "(4096 :: u64) - 1 = mask 12"
  by (simp add: mask_eq_exp_minus_1)

lemma and_not_page_mask: "a AND NOT (mask 12) = 4096 * (a div 4096)" for a :: u64
proof -
  have "a AND NOT (mask 12) = push_bit 12 (drop_bit 12 a)"
    by (rule bit_word_eqI) (auto simp: bit_simps)
  also have "\<dots> = 4096 * (a div 4096)"
    by (simp add: push_bit_eq_mult drop_bit_eq_div mult.commute)
  finally show ?thesis .
qed

lemma unat_page_mult: "unat (4096 * (a div 4096)) = 4096 * (unat a div 4096)" for a :: u64
proof -
  have "4096 * (unat a div 4096) < 2 ^ 64"
    using u64_lt [of a] by simp
  then show ?thesis by (simp add: unat_word_ariths unat_div)
qed

lemma unat_PGROUNDDOWN: "unat (PGROUNDDOWN a) = 4096 * (unat a div 4096)"
  by (simp only: PGROUNDDOWN_def PGSIZE_def page_mask and_not_page_mask unat_page_mult)

lemma PGROUNDDOWN_eq: "PGROUNDDOWN a = 4096 * (a div 4096)"
  by (simp only: PGROUNDDOWN_def PGSIZE_def page_mask and_not_page_mask)

lemma PGROUNDDOWN_le: "PGROUNDDOWN a \<le> a"
  by (simp add: word_le_nat_alt unat_PGROUNDDOWN)

lemma unat_page_offset: "unat (a - PGROUNDDOWN a) = unat a mod 4096"
  by (simp add: unat_sub PGROUNDDOWN_le unat_PGROUNDDOWN minus_mult_div_eq_mod)

lemma unat_PGROUNDUP:
  assumes "unat a + 4095 < 2 ^ 64"
  shows "unat (PGROUNDUP a) = 4096 * ((unat a + 4095) div 4096)"
proof -
  have "unat (a + 4095) = unat a + 4095"
    using assms by (simp add: unat_word_ariths)
  moreover have "PGROUNDUP a = 4096 * ((a + 4095) div 4096)"
  proof -
    have "a + 4096 - 1 = a + 4095" by simp
    then show ?thesis by (simp only: PGROUNDUP_def PGSIZE_def page_mask and_not_page_mask)
  qed
  ultimately show ?thesis by (simp add: unat_page_mult)
qed

definition page_aligned :: "u64 \<Rightarrow> bool" where
  "page_aligned a \<longleftrightarrow> a mod PGSIZE = 0"

lemma page_aligned_unat: "page_aligned a \<longleftrightarrow> unat a mod 4096 = 0"
  by (simp add: page_aligned_def PGSIZE_def word_unat_eq_iff unat_mod)

text \<open>A page address survives the trip through a page-table entry.\<close>

lemma PA2PTE_bits: "bit (PA2PTE pa) n \<longleftrightarrow> n < 64 \<and> 10 \<le> n \<and> bit pa (n + 2)"
  by (auto simp: PA2PTE_def bit_simps)

lemma PTE2PA_bits: "bit (PTE2PA pte) n \<longleftrightarrow> n < 64 \<and> 12 \<le> n \<and> bit pte (n - 2)"
  by (auto simp: PTE2PA_def bit_simps)

lemma page_aligned_bits: "page_aligned pa \<longleftrightarrow> (\<forall>n<12. \<not> bit pa n)"
proof -
  have "page_aligned pa \<longleftrightarrow> take_bit 12 pa = 0"
    by (simp add: page_aligned_def PGSIZE_def take_bit_eq_mod)
  also have "\<dots> \<longleftrightarrow> (\<forall>n<12. \<not> bit pa n)"
    by (auto simp: bit_eq_iff bit_simps)
  finally show ?thesis .
qed

lemma PTE2PA_PA2PTE:
  assumes "page_aligned pa" and "perm < 1024"
  shows "PTE2PA (PA2PTE pa OR perm OR PTE_V) = pa"
proof -
  have p: "\<not> bit perm n" if "10 \<le> n" for n
  proof -
    have "take_bit 10 perm = perm"
      using assms(2) by (simp add: take_bit_eq_mod word_mod_less_divisor mod_word_self word_unat_eq_iff unat_mod word_less_nat_alt)
    with that show ?thesis by (metis bit_take_bit_iff not_less)
  qed
  show ?thesis
  proof (rule bit_word_eqI)
    fix n assume n: "n < LENGTH(64)"
    show "bit (PTE2PA (PA2PTE pa OR perm OR PTE_V)) n = bit pa n"
    proof (cases "n < 12")
      case True
      with assms(1) show ?thesis by (simp add: PTE2PA_bits page_aligned_bits)
    next
      case False
      then obtain k where k: "n = k + 12" by (metis add.commute le_Suc_ex not_less)
      with n p [of "k + 10"] show ?thesis
        by (simp add: PTE2PA_bits PA2PTE_bits bit_simps layout_consts add.commute)
    qed
  qed
qed

end
