(* ===== verification/Spinlock.thy ===== *)
theory Spinlock
  imports Layout
begin

text \<open>
  \<^verbatim>\<open>kernel/spinlock.c\<close> on the multi-hart machine, and the view of it the rest of the
  development uses. The first part models the routines on every hart's \<^verbatim>\<open>struct cpu\<close> and
  \<^verbatim>\<open>sstatus\<close> register and on the lock words, cuts \<^verbatim>\<open>acquire\<close> and \<^verbatim>\<open>release\<close> at their atomic
  memory operations and proves mutual exclusion and that interrupts stay off inside a critical
  section. The second part is the sequential view of one hart: the list of locks it holds.
\<close>

section \<open>The locks and wait channels of the kernel\<close>

text \<open>
  One constructor per \<^verbatim>\<open>struct spinlock\<close> (and, for the locks inside tables, per entry), one per
  sleep-lock, and one per address the kernel sleeps on.
\<close>

datatype slid = SL_buf nat | SL_inode nat

datatype lockid =
    L_kmem | L_pid | L_wait | L_proc nat | L_ticks | L_bcache | L_sleep slid | L_log
  | L_itable | L_ftable | L_pipe u64 | L_cons | L_uart | L_vdisk | L_pr

datatype chan =
    Ch_proc nat | Ch_sleep slid | Ch_log | Ch_nread u64 | Ch_nwrite u64 | Ch_ticks
  | Ch_cons | Ch_uart | Ch_free | Ch_buf nat

section \<open>spinlock.c\<close>

record spinlock =
  locked :: u32
  lk_name :: string
  lk_cpu :: "nat option"

record cpu_st =
  noff :: int
  intena :: bool

record smp =
  cpus :: "nat \<Rightarrow> cpu_st"
  sstatus :: "nat \<Rightarrow> u64"
  lks :: "lockid \<Rightarrow> spinlock"

definition intr_on :: "nat \<Rightarrow> (unit, 'a smp_scheme) m" where
  "intr_on h = modify (\<lambda>s. s\<lparr>sstatus := (sstatus s)(h := sstatus s h OR SSTATUS_SIE)\<rparr>)"

definition intr_off :: "nat \<Rightarrow> (unit, 'a smp_scheme) m" where
  "intr_off h = modify (\<lambda>s. s\<lparr>sstatus := (sstatus s)(h := sstatus s h AND NOT SSTATUS_SIE)\<rparr>)"

definition intr_get :: "nat \<Rightarrow> (bool, 'a smp_scheme) m" where
  "intr_get h = gets (\<lambda>s. sstatus s h AND SSTATUS_SIE \<noteq> 0)"

definition upd_cpu :: "nat \<Rightarrow> (cpu_st \<Rightarrow> cpu_st) \<Rightarrow> (unit, 'a smp_scheme) m" where
  "upd_cpu h f = modify (\<lambda>s. s\<lparr>cpus := (cpus s)(h := f (cpus s h))\<rparr>)"

definition upd_lk :: "lockid \<Rightarrow> (spinlock \<Rightarrow> spinlock) \<Rightarrow> (unit, 'a smp_scheme) m" where
  "upd_lk l f = modify (\<lambda>s. s\<lparr>lks := (lks s)(l := f (lks s l))\<rparr>)"

definition initlock :: "lockid \<Rightarrow> string \<Rightarrow> (unit, 'a smp_scheme) m" where
  "initlock l nm = block [
     upd_lk l (\<lambda>k. k\<lparr>lk_name := nm\<rparr>),
     upd_lk l (\<lambda>k. k\<lparr>locked := 0\<rparr>),
     upd_lk l (\<lambda>k. k\<lparr>lk_cpu := None\<rparr>)]"

definition push_off :: "nat \<Rightarrow> (unit, 'a smp_scheme) m" where
  "push_off h =
     bnd (intr_get h) (\<lambda>old. block [
       intr_off h,
       bnd (gets (\<lambda>s. noff (cpus s h))) (\<lambda>n.
         if_do (n = 0) (upd_cpu h (\<lambda>c. c\<lparr>intena := old\<rparr>))),
       upd_cpu h (\<lambda>c. c\<lparr>noff := noff c + 1\<rparr>)])"

definition pop_off :: "nat \<Rightarrow> (unit, 'a smp_scheme) m" where
  "pop_off h =
     bnd (intr_get h) (\<lambda>on.
     bnd (panic_if on ''pop_off - interruptible'') (\<lambda>_.
     bnd (gets (\<lambda>s. noff (cpus s h))) (\<lambda>n.
     bnd (panic_if (n < 1) ''pop_off'') (\<lambda>_.
     bnd (upd_cpu h (\<lambda>c. c\<lparr>noff := noff c - 1\<rparr>)) (\<lambda>_.
     bnd (gets (\<lambda>s. cpus s h)) (\<lambda>c.
       if_do (noff c = 0 \<and> intena c) (intr_on h)))))))"

definition holding :: "nat \<Rightarrow> lockid \<Rightarrow> (bool, 'a smp_scheme) m" where
  "holding h l = gets (\<lambda>s. locked (lks s l) \<noteq> 0 \<and> lk_cpu (lks s l) = Some h)"

text \<open>
  \<^verbatim>\<open>acquire\<close> up to its spin loop, one iteration of the loop (the atomic swap), and what follows
  the loop; \<^verbatim>\<open>release\<close> up to the atomic store that frees the lock, and that store.
\<close>

definition acquire_enter :: "nat \<Rightarrow> lockid \<Rightarrow> (unit, 'a smp_scheme) m" where
  "acquire_enter h l =
     bnd (push_off h) (\<lambda>_. bnd (holding h l) (\<lambda>b. panic_if b ''acquire''))"

definition test_and_set :: "lockid \<Rightarrow> (u32, 'a smp_scheme) m" where
  "test_and_set l =
     bnd (gets (\<lambda>s. locked (lks s l))) (\<lambda>old.
     bnd (upd_lk l (\<lambda>k. k\<lparr>locked := 1\<rparr>)) (\<lambda>_. ret old))"

definition acquire_own :: "nat \<Rightarrow> lockid \<Rightarrow> (unit, 'a smp_scheme) m" where
  "acquire_own h l = upd_lk l (\<lambda>k. k\<lparr>lk_cpu := Some h\<rparr>)"

definition release_enter :: "nat \<Rightarrow> lockid \<Rightarrow> (unit, 'a smp_scheme) m" where
  "release_enter h l =
     bnd (holding h l) (\<lambda>b.
     bnd (panic_if (\<not> b) ''release'') (\<lambda>_. upd_lk l (\<lambda>k. k\<lparr>lk_cpu := None\<rparr>)))"

definition release_store :: "nat \<Rightarrow> lockid \<Rightarrow> (unit, 'a smp_scheme) m" where
  "release_store h l = bnd (upd_lk l (\<lambda>k. k\<lparr>locked := 0\<rparr>)) (\<lambda>_. pop_off h)"

text \<open>
  The whole routines on one hart while the others stand still: the loop is left at once when the
  lock is free (\<open>True\<close>) and otherwise spins until some other hart moves (\<open>False\<close>).
\<close>

definition sl_acquire :: "nat \<Rightarrow> lockid \<Rightarrow> (bool, 'a smp_scheme) m" where
  "sl_acquire h l =
     bnd (acquire_enter h l) (\<lambda>_.
     bnd (test_and_set l) (\<lambda>old.
       if old \<noteq> 0 then ret False else bnd (acquire_own h l) (\<lambda>_. ret True)))"

definition sl_release :: "nat \<Rightarrow> lockid \<Rightarrow> (unit, 'a smp_scheme) m" where
  "sl_release h l = bnd (release_enter h l) (\<lambda>_. release_store h l)"

section \<open>Harts stepping concurrently\<close>

text \<open>Where each hart stands: in ordinary code, or between two atomic operations.\<close>

datatype pc = Running | Spinning lockid | Acquired lockid | Unlocking lockid

record spinsys = smp + pcs :: "nat \<Rightarrow> pc"

definition goto_pc :: "nat \<Rightarrow> pc \<Rightarrow> spinsys \<Rightarrow> spinsys" where
  "goto_pc h p s = s\<lparr>pcs := (pcs s)(h := p)\<rparr>"

inductive spin_step :: "spinsys \<Rightarrow> spinsys \<Rightarrow> bool" where
  call_acquire: "pcs s h = Running \<Longrightarrow> acquire_enter h l s = Ok () t \<Longrightarrow>
     spin_step s (goto_pc h (Spinning l) t)"
| spin: "pcs s h = Spinning l \<Longrightarrow> test_and_set l s = Ok old t \<Longrightarrow> old \<noteq> 0 \<Longrightarrow> spin_step s t"
| got: "pcs s h = Spinning l \<Longrightarrow> test_and_set l s = Ok 0 t \<Longrightarrow>
     spin_step s (goto_pc h (Acquired l) t)"
| own: "pcs s h = Acquired l \<Longrightarrow> acquire_own h l s = Ok () t \<Longrightarrow>
     spin_step s (goto_pc h Running t)"
| call_release: "pcs s h = Running \<Longrightarrow> release_enter h l s = Ok () t \<Longrightarrow>
     spin_step s (goto_pc h (Unlocking l) t)"
| unlock: "pcs s h = Unlocking l \<Longrightarrow> release_store h l s = Ok () t \<Longrightarrow>
     spin_step s (goto_pc h Running t)"
| enable: "pcs s h = Running \<Longrightarrow> noff (cpus s h) = 0 \<Longrightarrow> intr_on h s = Ok () t \<Longrightarrow> spin_step s t"

definition spin_init :: "spinsys \<Rightarrow> bool" where
  "spin_init s \<longleftrightarrow>
     (\<forall>l. locked (lks s l) = 0 \<and> lk_cpu (lks s l) = None) \<and>
     (\<forall>h. pcs s h = Running \<and> noff (cpus s h) = 0)"

text \<open>Hart \<open>h\<close> is inside the critical section of \<open>l\<close>, from the swap that took it to the store that frees it.\<close>

definition crit :: "spinsys \<Rightarrow> nat \<Rightarrow> lockid \<Rightarrow> bool" where
  "crit s h l \<longleftrightarrow> lk_cpu (lks s l) = Some h \<or> pcs s h = Acquired l \<or> pcs s h = Unlocking l"

definition mutex_inv :: "spinsys \<Rightarrow> bool" where
  "mutex_inv s \<longleftrightarrow> (\<forall>l.
     (locked (lks s l) = 0 \<longrightarrow> (\<forall>h. \<not> crit s h l)) \<and>
     (\<forall>h h'. crit s h l \<longrightarrow> crit s h' l \<longrightarrow> h = h') \<and>
     (\<forall>h. pcs s h = Acquired l \<or> pcs s h = Unlocking l \<longrightarrow> lk_cpu (lks s l) = None))"

definition spinning :: "pc \<Rightarrow> int" where
  "spinning p = (case p of Spinning _ \<Rightarrow> 1 | _ \<Rightarrow> 0)"

definition irq_ok :: "lockid set \<Rightarrow> cpu_st \<Rightarrow> u64 \<Rightarrow> pc \<Rightarrow> bool" where
  "irq_ok L c st p \<longleftrightarrow>
     finite L \<and> noff c = int (card L) + spinning p \<and> (0 < noff c \<longrightarrow> st AND SSTATUS_SIE = 0)"

definition irq_inv :: "spinsys \<Rightarrow> bool" where
  "irq_inv s \<longleftrightarrow> (\<forall>h. irq_ok {l. crit s h l} (cpus s h) (sstatus s h) (pcs s h))"

section \<open>What the routines do to the state\<close>

lemma sie_off [simp]: "(x AND NOT SSTATUS_SIE) AND SSTATUS_SIE = 0"
  by (rule bit_word_eqI) (auto simp: bit_simps)

lemma sie_on [simp]: "(x OR SSTATUS_SIE) AND SSTATUS_SIE \<noteq> 0"
proof -
  have "bit ((x OR SSTATUS_SIE) AND SSTATUS_SIE) 1"
    by (simp add: bit_simps SSTATUS_SIE_def)
  then show ?thesis by auto
qed

lemmas smp_defs = intr_on_def intr_off_def intr_get_def upd_cpu_def upd_lk_def holding_def

lemma push_off_eq:
  "push_off h s = Ok () (s\<lparr>
     sstatus := (sstatus s)(h := sstatus s h AND NOT SSTATUS_SIE),
     cpus := (cpus s)(h := (cpus s h)\<lparr>
       intena := (if noff (cpus s h) = 0 then sstatus s h AND SSTATUS_SIE \<noteq> 0
                  else intena (cpus s h)),
       noff := noff (cpus s h) + 1\<rparr>)\<rparr>)"
  by (simp add: push_off_def smp_defs m_simps)

lemma pop_off_eq:
  assumes "sstatus s h AND SSTATUS_SIE = 0" and "1 \<le> noff (cpus s h)"
  shows "pop_off h s = Ok () (s\<lparr>
     cpus := (cpus s)(h := (cpus s h)\<lparr>noff := noff (cpus s h) - 1\<rparr>),
     sstatus := (if noff (cpus s h) = 1 \<and> intena (cpus s h)
                 then (sstatus s)(h := sstatus s h OR SSTATUS_SIE) else sstatus s)\<rparr>)"
  using assms by (auto simp: pop_off_def smp_defs m_simps)

lemma pop_off_OkD:
  assumes "pop_off h s = Ok () t"
  shows "sstatus s h AND SSTATUS_SIE = 0 \<and> 1 \<le> noff (cpus s h)"
  using assms by (auto simp: pop_off_def smp_defs m_simps bnd_Ok_iff split: if_splits)

lemma acquire_enter_Ok:
  "acquire_enter h l s = Ok () t \<longleftrightarrow>
     \<not> (locked (lks s l) \<noteq> 0 \<and> lk_cpu (lks s l) = Some h) \<and> push_off h s = Ok () t"
  by (auto simp: acquire_enter_def push_off_eq smp_defs m_simps)

lemma test_and_set_eq:
  "test_and_set l s = Ok (locked (lks s l)) (s\<lparr>lks := (lks s)(l := (lks s l)\<lparr>locked := 1\<rparr>)\<rparr>)"
  by (simp add: test_and_set_def smp_defs m_simps)

lemma acquire_own_eq:
  "acquire_own h l s = Ok () (s\<lparr>lks := (lks s)(l := (lks s l)\<lparr>lk_cpu := Some h\<rparr>)\<rparr>)"
  by (simp add: acquire_own_def smp_defs m_simps)

lemma release_enter_Ok:
  "release_enter h l s = Ok () t \<longleftrightarrow>
     locked (lks s l) \<noteq> 0 \<and> lk_cpu (lks s l) = Some h \<and>
     t = s\<lparr>lks := (lks s)(l := (lks s l)\<lparr>lk_cpu := None\<rparr>)\<rparr>"
  by (auto simp: release_enter_def smp_defs m_simps)

lemma release_store_Ok:
  "release_store h l s = Ok () t \<longleftrightarrow>
     sstatus s h AND SSTATUS_SIE = 0 \<and> 1 \<le> noff (cpus s h) \<and>
     t = s\<lparr>lks := (lks s)(l := (lks s l)\<lparr>locked := 0\<rparr>),
       cpus := (cpus s)(h := (cpus s h)\<lparr>noff := noff (cpus s h) - 1\<rparr>),
       sstatus := (if noff (cpus s h) = 1 \<and> intena (cpus s h)
                   then (sstatus s)(h := sstatus s h OR SSTATUS_SIE) else sstatus s)\<rparr>"
proof -
  let ?u = "s\<lparr>lks := (lks s)(l := (lks s l)\<lparr>locked := 0\<rparr>)\<rparr>"
  have "release_store h l s = pop_off h ?u"
    by (simp add: release_store_def smp_defs m_simps)
  then show ?thesis
    using pop_off_OkD [of h ?u t] pop_off_eq [of ?u h] by auto
qed

lemmas spin_effects = push_off_eq acquire_enter_Ok test_and_set_eq acquire_own_eq
  release_enter_Ok release_store_Ok goto_pc_def

section \<open>Mutual exclusion\<close>

lemma mutex_inv_init: "spin_init s \<Longrightarrow> mutex_inv s"
  by (simp add: spin_init_def mutex_inv_def crit_def)

lemma mutex_inv_step:
  assumes "mutex_inv s" and "spin_step s t"
  shows "mutex_inv t"
  using assms(2)
proof cases
  case (call_acquire h l u)
  then show ?thesis using assms(1)
    by (auto simp: mutex_inv_def crit_def spin_effects split: if_splits)
next
  case (spin h l old)
  then show ?thesis using assms(1)
    by (auto simp: mutex_inv_def crit_def spin_effects split: if_splits)
next
  case (got h l u)
  then have "locked (lks s l) = 0" by (simp add: spin_effects)
  then have "lk_cpu (lks s l) = None"
    using assms(1) by (cases "lk_cpu (lks s l)") (auto simp: mutex_inv_def crit_def)
  with got show ?thesis using assms(1)
    by (auto simp: mutex_inv_def crit_def spin_effects split: if_splits)
next
  case (own h l u)
  then show ?thesis using assms(1)
    by (auto simp: mutex_inv_def crit_def spin_effects split: if_splits)
next
  case (call_release h l u)
  then show ?thesis using assms(1)
    by (auto simp: mutex_inv_def crit_def spin_effects split: if_splits)
next
  case (unlock h l u)
  then show ?thesis using assms(1)
    by (auto simp: mutex_inv_def crit_def spin_effects split: if_splits)
next
  case (enable h)
  then show ?thesis using assms(1)
    by (auto simp: mutex_inv_def crit_def smp_defs m_simps)
qed

text \<open>Interrupts: one hart moves, the others keep all that \<open>irq_ok\<close> looks at.\<close>

lemma irq_inv_init: "spin_init s \<Longrightarrow> irq_inv s"
  by (simp add: spin_init_def irq_inv_def irq_ok_def crit_def spinning_def)

lemma irq_inv_move:
  assumes "irq_inv s"
    and "\<And>h' l. h' \<noteq> h \<Longrightarrow> crit t h' l = crit s h' l"
    and "\<And>h'. h' \<noteq> h \<Longrightarrow> cpus t h' = cpus s h' \<and> sstatus t h' = sstatus s h' \<and> pcs t h' = pcs s h'"
    and "irq_ok {l. crit t h l} (cpus t h) (sstatus t h) (pcs t h)"
  shows "irq_inv t"
  unfolding irq_inv_def
proof
  fix h'
  show "irq_ok {l. crit t h' l} (cpus t h') (sstatus t h') (pcs t h')"
    by (cases "h' = h") (use assms in \<open>auto simp: irq_inv_def\<close>)
qed

lemma irq_inv_step:
  assumes mx: "mutex_inv s" and iq: "irq_inv s" and "spin_step s t"
  shows "irq_inv t"
proof -
  have ok: "irq_ok {x. crit s h x} (cpus s h) (sstatus s h) (pcs s h)" for h
    using iq by (simp add: irq_inv_def)
  show ?thesis using assms(3)
  proof cases
    case (call_acquire h l u)
    have c: "crit t = crit s"
      using call_acquire by (auto simp: fun_eq_iff crit_def spin_effects split: if_splits)
    show ?thesis
    proof (rule irq_inv_move [OF iq, of h])
      show "irq_ok {x. crit t h x} (cpus t h) (sstatus t h) (pcs t h)"
        unfolding c using call_acquire ok [of h]
        by (auto simp: irq_ok_def spinning_def spin_effects)
    qed (simp_all only: c, use call_acquire in \<open>auto simp: spin_effects\<close>)
  next
    case (spin h l old)
    have c: "crit t = crit s"
      using spin by (auto simp: fun_eq_iff crit_def spin_effects split: if_splits)
    show ?thesis
    proof (rule irq_inv_move [OF iq, of h])
      show "irq_ok {x. crit t h x} (cpus t h) (sstatus t h) (pcs t h)"
        unfolding c using spin ok [of h] by (auto simp: spin_effects)
    qed (simp_all only: c, use spin in \<open>auto simp: spin_effects\<close>)
  next
    case (got h l u)
    have free: "\<not> crit s h' l" for h'
      using mx got by (auto simp: mutex_inv_def spin_effects)
    have c: "crit t h' x \<longleftrightarrow> crit s h' x \<or> h' = h \<and> x = l" for h' x
      using got by (auto simp: crit_def spin_effects split: if_splits)
    have "irq_ok (insert l {x. crit s h x}) (cpus s h) (sstatus s h) (Acquired l)"
      using ok [of h] got(2) free by (simp add: irq_ok_def spinning_def)
    moreover have "{x. crit t h x} = insert l {x. crit s h x}" by (auto simp: c)
    ultimately have new: "irq_ok {x. crit t h x} (cpus t h) (sstatus t h) (pcs t h)"
      using got by (auto simp: spin_effects)
    show ?thesis
    proof (rule irq_inv_move [OF iq, of h])
      show "irq_ok {x. crit t h x} (cpus t h) (sstatus t h) (pcs t h)" by (rule new)
    qed (simp add: c, use got in \<open>auto simp: spin_effects\<close>)
  next
    case (own h l u)
    have one: "h' = h" if "lk_cpu (lks s l) = Some h'" for h'
      using mx own(2) that by (auto simp: mutex_inv_def)
    have c: "crit t = crit s"
      using own one by (auto simp: fun_eq_iff crit_def spin_effects split: if_splits)
    show ?thesis
    proof (rule irq_inv_move [OF iq, of h])
      show "irq_ok {x. crit t h x} (cpus t h) (sstatus t h) (pcs t h)"
        unfolding c using own ok [of h] by (auto simp: irq_ok_def spinning_def spin_effects card_gt_0_iff)
    qed (simp_all only: c, use own in \<open>auto simp: spin_effects\<close>)
  next
    case (call_release h l u)
    have c: "crit t = crit s"
      using call_release by (auto simp: fun_eq_iff crit_def spin_effects split: if_splits)
    show ?thesis
    proof (rule irq_inv_move [OF iq, of h])
      show "irq_ok {x. crit t h x} (cpus t h) (sstatus t h) (pcs t h)"
        unfolding c using call_release ok [of h] by (auto simp: irq_ok_def spinning_def spin_effects card_gt_0_iff)
    qed (simp_all only: c, use call_release in \<open>auto simp: spin_effects\<close>)
  next
    case (unlock h l u)
    have none: "lk_cpu (lks s l) = None"
      using mx unlock(2) by (auto simp: mutex_inv_def)
    have c: "crit t h' x \<longleftrightarrow> crit s h' x \<and> \<not> (h' = h \<and> x = l)" for h' x
      using unlock none by (auto simp: crit_def spin_effects split: if_splits)
    have "l \<in> {x. crit s h x}" using unlock(2) by (simp add: crit_def)
    moreover have e: "{x. crit t h x} = {x. crit s h x} - {l}" by (auto simp: c)
    ultimately have new: "irq_ok {x. crit t h x} (cpus t h) (sstatus t h) (pcs t h)"
      unfolding e using unlock ok [of h]
      by (auto simp: irq_ok_def spinning_def spin_effects card_Diff_singleton of_nat_diff card_gt_0_iff Suc_leI)
    show ?thesis
    proof (rule irq_inv_move [OF iq, of h])
      show "irq_ok {x. crit t h x} (cpus t h) (sstatus t h) (pcs t h)" by (rule new)
    qed (simp add: c, use unlock in \<open>auto simp: spin_effects\<close>)
  next
    case (enable h)
    have c: "crit t = crit s"
      using enable by (auto simp: fun_eq_iff crit_def smp_defs m_simps)
    show ?thesis
    proof (rule irq_inv_move [OF iq, of h])
      show "irq_ok {x. crit t h x} (cpus t h) (sstatus t h) (pcs t h)"
        unfolding c using enable ok [of h] by (auto simp: irq_ok_def smp_defs m_simps)
    qed (simp_all only: c, use enable in \<open>auto simp: smp_defs m_simps\<close>)
  qed
qed

interpretation spin: invariant_system spin_init spin_step "\<lambda>s. mutex_inv s \<and> irq_inv s"
  by unfold_locales (auto intro: mutex_inv_init irq_inv_init mutex_inv_step irq_inv_step)

section \<open>Nested push_off and pop_off\<close>



section \<open>The sequential view: the locks one hart holds\<close>

text \<open>
  The state every later component extends: the addresses the linker script defines (parameters
  of the model), the spin locks held by the hart that runs the code, most recent first, and the
  bytes written to the UART's transmit register by \<^verbatim>\<open>uartputc_sync\<close>.
\<close>

record hart =
  end_sym :: u64
  etext_sym :: u64
  trampoline_sym :: u64
  held :: "lockid list"
  pr_locking :: bool
  tty :: "u8 list"

definition acquire :: "lockid \<Rightarrow> (unit, 'a hart_scheme) m" where
  "acquire l = bnd (gets held) (\<lambda>hs.
     if l \<in> set hs then panic ''acquire'' else modify (\<lambda>s. s\<lparr>held := l # hs\<rparr>))"

definition release :: "lockid \<Rightarrow> (unit, 'a hart_scheme) m" where
  "release l = bnd (gets held) (\<lambda>hs.
     if l \<notin> set hs then panic ''release'' else modify (\<lambda>s. s\<lparr>held := remove1 l hs\<rparr>))"

definition init_lock :: "lockid \<Rightarrow> (unit, 'a hart_scheme) m" where
  "init_lock l = modify (\<lambda>s. s\<lparr>held := removeAll l (held s)\<rparr>)"

lemma acquire_apply [m_simps]:
  "acquire l s = (if l \<in> set (held s) then Panic ''acquire'' else Ok () (s\<lparr>held := l # held s\<rparr>))"
  by (simp add: acquire_def m_simps)

lemma release_apply [m_simps]:
  "release l s = (if l \<notin> set (held s) then Panic ''release'' else Ok () (s\<lparr>held := remove1 l (held s)\<rparr>))"
  by (simp add: release_def m_simps)

lemma bnd_acquire [m_simps]:
  "bnd (acquire l) k s =
     (if l \<in> set (held s) then Panic ''acquire'' else k () (s\<lparr>held := l # held s\<rparr>))"
  by (simp add: bnd_def acquire_apply)

lemma bnd_release [m_simps]:
  "bnd (release l) k s =
     (if l \<notin> set (held s) then Panic ''release'' else k () (s\<lparr>held := remove1 l (held s)\<rparr>))"
  by (simp add: bnd_def release_apply)

text \<open>Hart \<open>h\<close> of the detailed machine holds exactly the locks of the list, each once.\<close>

definition holds :: "nat \<Rightarrow> lockid list \<Rightarrow> 'a smp_scheme \<Rightarrow> bool" where
  "holds h hs s \<longleftrightarrow> distinct hs \<and>
     (\<forall>l. l \<in> set hs \<longleftrightarrow> locked (lks s l) \<noteq> 0 \<and> lk_cpu (lks s l) = Some h) \<and>
     noff (cpus s h) = int (length hs) \<and>
     (hs \<noteq> [] \<longrightarrow> sstatus s h AND SSTATUS_SIE = 0)"

lemma bnd_push_off:
  "bnd (push_off h) k s = k () (s\<lparr>
     sstatus := (sstatus s)(h := sstatus s h AND NOT SSTATUS_SIE),
     cpus := (cpus s)(h := (cpus s h)\<lparr>
       intena := (if noff (cpus s h) = 0 then sstatus s h AND SSTATUS_SIE \<noteq> 0
                  else intena (cpus s h)),
       noff := noff (cpus s h) + 1\<rparr>)\<rparr>)"
  by (simp add: bnd_def push_off_eq)

lemma sl_acquire_panic:
  "locked (lks s l) \<noteq> 0 \<Longrightarrow> lk_cpu (lks s l) = Some h \<Longrightarrow> sl_acquire h l s = Panic ''acquire''"
  by (simp add: sl_acquire_def acquire_enter_def m_simps bnd_push_off smp_defs)

lemma sl_acquire_free:
  assumes "locked (lks s l) = 0"
  obtains t where "sl_acquire h l s = Ok True t" "noff (cpus t h) = noff (cpus s h) + 1"
    "sstatus t h AND SSTATUS_SIE = 0"
    "lks t = (lks s)(l := (lks s l)\<lparr>locked := 1, lk_cpu := Some h\<rparr>)"
proof -
  have "\<exists>t. sl_acquire h l s = Ok True t \<and> noff (cpus t h) = noff (cpus s h) + 1 \<and>
      sstatus t h AND SSTATUS_SIE = 0 \<and>
      lks t = (lks s)(l := (lks s l)\<lparr>locked := 1, lk_cpu := Some h\<rparr>)"
    using assms
    by (simp add: sl_acquire_def acquire_enter_def test_and_set_def acquire_own_def
        m_simps bnd_push_off smp_defs)
  then show thesis using that by blast
qed

lemma sl_release_panic:
  "\<not> (locked (lks s l) \<noteq> 0 \<and> lk_cpu (lks s l) = Some h) \<Longrightarrow> sl_release h l s = Panic ''release''"
  by (auto simp: sl_release_def release_enter_def m_simps smp_defs)

lemma sl_release_held:
  assumes "locked (lks s l) \<noteq> 0" and "lk_cpu (lks s l) = Some h"
    and "1 \<le> noff (cpus s h)" and "sstatus s h AND SSTATUS_SIE = 0"
  obtains t where "sl_release h l s = Ok () t" "noff (cpus t h) = noff (cpus s h) - 1"
    "1 < noff (cpus s h) \<Longrightarrow> sstatus t h AND SSTATUS_SIE = 0"
    "lks t = (lks s)(l := (lks s l)\<lparr>lk_cpu := None, locked := 0\<rparr>)"
proof -
  let ?u = "s\<lparr>lks := (lks s)(l := (lks s l)\<lparr>lk_cpu := None\<rparr>)\<rparr>"
  have "release_enter h l s = Ok () ?u" using assms by (simp add: release_enter_Ok)
  then have r: "sl_release h l s = release_store h l ?u" by (simp add: sl_release_def bnd_def)
  obtain t where "release_store h l ?u = Ok () t" "noff (cpus t h) = noff (cpus s h) - 1"
    "1 < noff (cpus s h) \<Longrightarrow> sstatus t h AND SSTATUS_SIE = 0"
    "lks t = (lks s)(l := (lks s l)\<lparr>lk_cpu := None, locked := 0\<rparr>)"
    using assms(3,4) release_store_Ok [of h l ?u] by auto
  then show thesis using that r by simp
qed

section \<open>Properties\<close>

text \<open>
  C2: mutual exclusion. In every reachable state of any number of harts calling \<^verbatim>\<open>acquire\<close> and
  \<^verbatim>\<open>release\<close>, interleaved at their atomic memory operations, at most one hart is inside the
  critical section of a given lock.
\<close>

theorem spin_mutual_exclusion:
  assumes "reachable spin_init spin_step s" and "crit s h l" and "crit s h' l"
  shows "h = h'"
  using spin.inv_reachable [OF assms(1)] assms(2,3) by (auto simp: mutex_inv_def)

definition spin_demo :: spinsys where
  "spin_demo = \<lparr>cpus = \<lambda>_. \<lparr>noff = 0, intena = False\<rparr>, sstatus = \<lambda>_. 2,
     lks = \<lambda>_. \<lparr>locked = 0, lk_name = ''kmem'', lk_cpu = None\<rparr>, pcs = \<lambda>_. Running\<rparr>"

lemma spin_demo_run:
  "\<exists>s. reachable spin_init spin_step s \<and> crit s 0 L_kmem"
proof -
  have 0: "reachable spin_init spin_step spin_demo"
    by (rule reachable_init) (simp add: spin_init_def spin_demo_def)
  obtain t where t: "acquire_enter 0 L_kmem spin_demo = Ok () t" "lks t = lks spin_demo"
    by (auto simp: acquire_enter_Ok push_off_eq spin_demo_def)
  let ?t = "goto_pc 0 (Spinning L_kmem) t"
  have 1: "reachable spin_init spin_step ?t"
    by (rule reachable_step [OF 0]) (rule call_acquire [OF _ t(1)], simp add: spin_demo_def)
  have "test_and_set L_kmem ?t = Ok 0 (?t\<lparr>lks := (lks ?t)(L_kmem := (lks ?t L_kmem)\<lparr>locked := 1\<rparr>)\<rparr>)"
    using t(2) by (simp add: test_and_set_eq goto_pc_def spin_demo_def)
  then have "spin_step ?t (goto_pc 0 (Acquired L_kmem)
      (?t\<lparr>lks := (lks ?t)(L_kmem := (lks ?t L_kmem)\<lparr>locked := 1\<rparr>)\<rparr>))"
    by (intro got) (auto simp: goto_pc_def)
  from reachable_step [OF 1 this] show ?thesis
    by (rule exI [where P = "\<lambda>s. reachable spin_init spin_step s \<and> crit s 0 L_kmem", OF conjI])
       (simp add: crit_def goto_pc_def)
qed

theorem spin_mutual_exclusion_witness:
  "\<exists>s. reachable spin_init spin_step s \<and> crit s 0 L_kmem \<and> \<not> crit s 1 L_kmem"
  using spin_demo_run spin_mutual_exclusion [of _ 0 L_kmem 1] by fastforce





text \<open>
  C21: the sequential view is what \<^verbatim>\<open>spinlock.c\<close> implements. On a hart that holds the locks of a
  list, the detailed \<^verbatim>\<open>acquire\<close> of a lock nobody else holds panics exactly when the lock is in
  the list and otherwise leaves the hart holding it too; the detailed \<^verbatim>\<open>release\<close> panics exactly
  when it is not, and otherwise leaves the hart holding the others.
\<close>

theorem spinlock_refines_held:
  fixes s :: smp and a :: hart
  assumes "holds h (held a) s" and "locked (lks s l) = 0 \<or> l \<in> set (held a)"
  shows "(case acquire l a of
      Ok _ a' \<Rightarrow> \<exists>t. sl_acquire h l s = Ok True t \<and> holds h (held a') t
    | Panic e \<Rightarrow> sl_acquire h l s = Panic e | Swtch _ \<Rightarrow> False) \<and>
    (case release l a of
      Ok _ a' \<Rightarrow> \<exists>t. sl_release h l s = Ok () t \<and> holds h (held a') t
    | Panic e \<Rightarrow> sl_release h l s = Panic e | Swtch _ \<Rightarrow> False)"
proof
  show "case acquire l a of
      Ok _ a' \<Rightarrow> \<exists>t. sl_acquire h l s = Ok True t \<and> holds h (held a') t
    | Panic e \<Rightarrow> sl_acquire h l s = Panic e | Swtch _ \<Rightarrow> False"
  proof (cases "l \<in> set (held a)")
    case True
    with assms(1) show ?thesis by (auto simp: acquire_apply holds_def sl_acquire_panic)
  next
    case False
    with assms(2) obtain t where "sl_acquire h l s = Ok True t" "noff (cpus t h) = noff (cpus s h) + 1"
      "sstatus t h AND SSTATUS_SIE = 0"
      "lks t = (lks s)(l := (lks s l)\<lparr>locked := 1, lk_cpu := Some h\<rparr>)"
      by (auto elim: sl_acquire_free)
    with False assms(1) show ?thesis by (auto simp: acquire_apply holds_def)
  qed
next
  show "case release l a of
      Ok _ a' \<Rightarrow> \<exists>t. sl_release h l s = Ok () t \<and> holds h (held a') t
    | Panic e \<Rightarrow> sl_release h l s = Panic e | Swtch _ \<Rightarrow> False"
  proof (cases "l \<in> set (held a)")
    case True
    then have "1 \<le> int (length (held a))" by (cases "held a") auto
    with True assms(1) obtain t where "sl_release h l s = Ok () t"
      "noff (cpus t h) = noff (cpus s h) - 1"
      "1 < noff (cpus s h) \<Longrightarrow> sstatus t h AND SSTATUS_SIE = 0"
      "lks t = (lks s)(l := (lks s l)\<lparr>lk_cpu := None, locked := 0\<rparr>)"
      by (auto simp: holds_def elim: sl_release_held [of s l h])
    moreover have "1 < noff (cpus s h)" if "remove1 l (held a) \<noteq> []"
      using that True assms(1) by (cases "held a") (auto simp: holds_def split: if_splits)
    moreover have "noff (cpus s h) - 1 = int (length (remove1 l (held a)))"
    proof -
      have "noff (cpus s h) = int (length (held a))" using assms(1) by (simp add: holds_def)
      moreover have "length (remove1 l (held a)) = length (held a) - 1"
        using True by (simp add: length_remove1)
      ultimately show ?thesis using length_pos_if_in_set [OF True] by linarith
    qed
    ultimately have "holds h (remove1 l (held a)) t"
      using assms(1) by (simp add: holds_def)
    then show ?thesis using True \<open>sl_release h l s = Ok () t\<close> by (simp add: release_apply)
  next
    case False
    with assms(1) show ?thesis by (auto simp: release_apply holds_def intro: sl_release_panic)
  qed
qed

theorem spinlock_refines_held_witness:
  "holds 0 [] (smp.truncate spin_demo) \<and>
   (\<exists>t. sl_acquire 0 L_log (smp.truncate spin_demo) = Ok True t \<and> holds 0 [L_log] t)"
proof -
  have h: "holds 0 [] (smp.truncate spin_demo)"
    by (simp add: holds_def spin_demo_def smp.defs)
  have "locked (lks (smp.truncate spin_demo) L_log) = 0"
    by (simp add: spin_demo_def smp.defs)
  with h spinlock_refines_held [of 0 "\<lparr>end_sym = 0, etext_sym = 0, trampoline_sym = 0, held = [], pr_locking = True, tty = []\<rparr>"
      "smp.truncate spin_demo" L_log]
  show ?thesis by (simp add: acquire_apply)
qed

end
