(* ===== verification/Bytes.thy ===== *)
theory Bytes
  imports Layout
begin

text \<open>
  Little-endian bytes and byte-addressed memory. \<open>le_word\<close> and \<open>le_bytes\<close> are the
  machine's view of a \<^verbatim>\<open>uint16\<close>, \<^verbatim>\<open>uint32\<close> or \<^verbatim>\<open>uint64\<close> stored in memory or in a disk block;
  \<open>rd\<close> and \<open>wr\<close> read and write a run of bytes of physical memory, \<open>rdb\<close> and
  \<open>wrb\<close> of a disk block. The round-trip and disjointness laws here are what the page-table,
  file-system and copy proofs rest on.
\<close>

section \<open>Little-endian words\<close>

definition le_word :: "u8 list \<Rightarrow> 'a::len word" where
  "le_word bs = foldr (\<lambda>b acc. ucast b OR push_bit 8 acc) bs 0"

definition le_bytes :: "nat \<Rightarrow> 'a::len word \<Rightarrow> u8 list" where
  "le_bytes n w = map (\<lambda>i. ucast (drop_bit (8 * i) w)) [0..<n]"

lemma le_word_Nil [simp]: "le_word [] = 0"
  by (simp add: le_word_def)

lemma le_word_Cons: "le_word (b # bs) = ucast b OR push_bit 8 (le_word bs)"
  by (simp add: le_word_def)

lemma length_le_bytes [simp]: "length (le_bytes n w) = n"
  by (simp add: le_bytes_def)

lemma nth_le_bytes [simp]: "i < n \<Longrightarrow> le_bytes n w ! i = ucast (drop_bit (8 * i) w)"
  by (simp add: le_bytes_def)

lemma bit_le_word:
  "bit (le_word bs :: 'a::len word) k \<longleftrightarrow>
     k < LENGTH('a) \<and> k div 8 < length bs \<and> bit (bs ! (k div 8)) (k mod 8)"
proof (induction bs arbitrary: k)
  case Nil
  then show ?case by simp
next
  case (Cons b bs)
  show ?case
  proof (cases "k < 8")
    case True
    then show ?thesis by (auto simp: le_word_Cons bit_simps)
  next
    case False
    then obtain j where j: "k = j + 8" by (metis add.commute le_Suc_ex not_less)
    have "\<not> bit b k" using False by (simp add: bit_imp_le_length not_less bit_word.rep_eq)
    moreover have "(j + 8) div 8 = Suc (j div 8)" by simp
    ultimately show ?thesis
      using j Cons.IH [of j] by (auto simp: le_word_Cons bit_simps)
  qed
qed

theorem le_word_le_bytes: "le_word (le_bytes n w) = take_bit (8 * n) w"
proof (rule bit_word_eqI)
  fix k assume k: "k < LENGTH('a)"
  have "k div 8 < n \<longleftrightarrow> k < 8 * n" by (simp add: div_less_iff_less_mult mult.commute)
  then show "bit (le_word (le_bytes n w) :: 'a word) k = bit (take_bit (8 * n) w) k"
    using k by (auto simp: bit_le_word bit_simps)
qed

lemma le_word_u16 [simp]: "le_word (le_bytes 2 (w :: u16)) = w"
  by (simp add: le_word_le_bytes take_bit_word_eq_self)

lemma le_word_u32 [simp]: "le_word (le_bytes 4 (w :: u32)) = w"
  by (simp add: le_word_le_bytes take_bit_word_eq_self)

lemma le_word_u64 [simp]: "le_word (le_bytes 8 (w :: u64)) = w"
  by (simp add: le_word_le_bytes take_bit_word_eq_self)

lemma le_bytes_le_word:
  assumes "8 * length bs \<le> LENGTH('a::len)"
  shows "le_bytes (length bs) (le_word bs :: 'a word) = bs"
proof (rule nth_equalityI)
  fix i assume "i < length (le_bytes (length bs) (le_word bs :: 'a word))"
  then have i: "i < length bs" by simp
  show "le_bytes (length bs) (le_word bs :: 'a word) ! i = bs ! i"
  proof (rule bit_word_eqI)
    fix k assume k: "k < LENGTH(8)"
    have "8 * i + k < LENGTH('a)" using i k assms by simp
    then show "bit (le_bytes (length bs) (le_word bs :: 'a word) ! i) k = bit (bs ! i) k"
      using i k by (simp add: bit_simps bit_le_word)
  qed
qed simp

section \<open>Physical memory\<close>

type_synonym mem = "u64 \<Rightarrow> u8"

definition rd :: "mem \<Rightarrow> u64 \<Rightarrow> nat \<Rightarrow> u8 list" where
  "rd m a n = map (\<lambda>i. m (a + of_nat i)) [0..<n]"

definition wr :: "mem \<Rightarrow> u64 \<Rightarrow> u8 list \<Rightarrow> mem" where
  "wr m a bs = (\<lambda>x. if unat (x - a) < length bs then bs ! unat (x - a) else m x)"

definition load64 :: "mem \<Rightarrow> u64 \<Rightarrow> u64" where
  "load64 m a = le_word (rd m a 8)"

definition store64 :: "mem \<Rightarrow> u64 \<Rightarrow> u64 \<Rightarrow> mem" where
  "store64 m a v = wr m a (le_bytes 8 v)"

lemma length_rd [simp]: "length (rd m a n) = n"
  by (simp add: rd_def)

lemma nth_rd [simp]: "i < n \<Longrightarrow> rd m a n ! i = m (a + of_nat i)"
  by (simp add: rd_def)

lemma unat_of_nat_lt: "n < 2 ^ 64 \<Longrightarrow> unat (of_nat n :: u64) = n"
  by (simp add: unat_of_nat)

lemma eq_plus_iff:
  fixes x d :: u64
  assumes "i < 2 ^ 64"
  shows "x = d + of_nat i \<longleftrightarrow> unat (x - d) = i"
proof
  assume "unat (x - d) = i"
  moreover have "x = d + of_nat (unat (x - d))" by simp
  ultimately show "x = d + of_nat i" by simp
qed (use assms in \<open>simp add: unat_of_nat_lt\<close>)

lemma wr_at:
  "i < length bs \<Longrightarrow> i < 2 ^ 64 \<Longrightarrow> wr m a bs (a + of_nat i) = bs ! i"
  by (simp add: wr_def unat_of_nat_lt)

lemma wr_Nil [simp]: "wr m a [] = m"
  by (simp add: wr_def)

lemma rd_wr_same:
  assumes "length bs = n" and "n \<le> 2 ^ 64"
  shows "rd (wr m a bs) a n = bs"
  by (rule nth_equalityI) (use assms in \<open>auto simp: wr_at\<close>)

theorem load64_store64 [simp]: "load64 (store64 m a v) a = v"
  by (simp add: load64_def store64_def rd_wr_same)

definition disjoint_run :: "u64 \<Rightarrow> nat \<Rightarrow> u64 \<Rightarrow> nat \<Rightarrow> bool" where
  "disjoint_run a n b k \<longleftrightarrow> (\<forall>i<n. \<not> unat (a + of_nat i - b) < k)"

lemma rd_wr_disjoint:
  assumes "disjoint_run a n b (length bs)"
  shows "rd (wr m b bs) a n = rd m a n"
  by (rule nth_equalityI) (use assms in \<open>auto simp: wr_def disjoint_run_def\<close>)

section \<open>Pages\<close>

text \<open>
  \<open>page_of x\<close> is the page that holds address \<open>x\<close>. A store inside one page is invisible to
  reads inside any other.
\<close>

abbreviation page_of :: "u64 \<Rightarrow> u64" where
  "page_of x \<equiv> PGROUNDDOWN x"

lemma page_of_aligned: "page_aligned p \<Longrightarrow> page_of p = p"
  using mult_div_mod_eq [of 4096 "unat p"]
  by (simp add: word_unat_eq_iff unat_PGROUNDDOWN page_aligned_unat)

lemma page_aligned_page_of [simp]: "page_aligned (page_of x)"
  by (simp add: page_aligned_unat unat_PGROUNDDOWN)

lemma unat_page_plus:
  assumes "page_aligned p" and "i < 4096"
  shows "unat (p + of_nat i) = unat p + i"
proof -
  from assms(1) obtain k where k: "unat p = 4096 * k"
    by (auto simp: page_aligned_unat elim: dvdE simp flip: dvd_eq_mod_eq_0)
  with u64_lt [of p] have "4096 * k < 4096 * 4503599627370496" by simp
  then have "k < 4503599627370496" by simp
  with k assms(2) have "unat p + i < 2 ^ 64" by simp
  then show ?thesis using assms(2) by (simp add: unat_word_ariths unat_of_nat)
qed

lemma page_of_plus:
  assumes "page_aligned p" and "i < 4096"
  shows "page_of (p + of_nat i) = p"
proof -
  from assms(1) obtain k where k: "unat p = 4096 * k"
    by (auto simp: page_aligned_unat elim: dvdE simp flip: dvd_eq_mod_eq_0)
  then have "(unat p + i) div 4096 = k" using assms(2) by simp
  with k show ?thesis
    by (simp add: word_unat_eq_iff unat_PGROUNDDOWN unat_page_plus assms)
qed

lemma in_page_iff:
  assumes "page_aligned p"
  shows "page_of x = p \<longleftrightarrow> unat (x - p) < 4096"
proof
  assume "page_of x = p"
  then show "unat (x - p) < 4096" using unat_page_offset [of x] by auto
next
  assume lt: "unat (x - p) < 4096"
  have "x = p + of_nat (unat (x - p))" by simp
  with page_of_plus [OF assms lt] show "page_of x = p" by simp
qed

text \<open>Runs of bytes that stay inside one page.\<close>

definition within_page :: "u64 \<Rightarrow> u64 \<Rightarrow> nat \<Rightarrow> bool" where
  "within_page p a n \<longleftrightarrow> page_of a = p \<and> unat a mod 4096 + n \<le> 4096"

lemma within_page_nth:
  assumes "within_page p a n" and "i < n"
  shows "page_of (a + of_nat i) = p"
proof -
  let ?o = "unat a mod 4096"
  have pa: "page_of a = p" using assms(1) by (simp add: within_page_def)
  then have p: "page_aligned p" by auto
  have "unat (a - p) = ?o" using unat_page_offset [of a] pa by simp
  moreover have "a = p + of_nat (unat (a - p))" by simp
  ultimately have a: "a = p + of_nat ?o" by simp
  have "?o + i < 4096" using assms by (auto simp: within_page_def)
  from page_of_plus [OF p this] show ?thesis
    by (subst a) (simp add: add.assoc)
qed

lemma within_page_iff:
  assumes "within_page p a n" and "unat (x - a) < n"
  shows "page_of x = p"
proof -
  have "x = a + of_nat (unat (x - a))" by simp
  with within_page_nth [OF assms] show ?thesis by simp
qed

lemma rd_wr_other_page:
  assumes "within_page p a n" and "within_page q b (length bs)" and "p \<noteq> q"
  shows "rd (wr m b bs) a n = rd m a n"
proof (rule nth_equalityI)
  fix i assume "i < length (rd (wr m b bs) a n)"
  then have i: "i < n" by simp
  have "\<not> unat (a + of_nat i - b) < length bs"
    using within_page_nth [OF assms(1) i] within_page_iff [OF assms(2)] assms(3) by blast
  with i show "rd (wr m b bs) a n ! i = rd m a n ! i" by (simp add: wr_def)
qed simp

lemma wr_other_page:
  "within_page p a (length bs) \<Longrightarrow> page_of x \<noteq> p \<Longrightarrow> wr m a bs x = m x"
  using within_page_iff by (auto simp: wr_def)

section \<open>Disk blocks\<close>

text \<open>A disk block (or a kernel local buffer) is indexed by the offset in it.\<close>

type_synonym blk = "nat \<Rightarrow> u8"

definition rdb :: "blk \<Rightarrow> nat \<Rightarrow> nat \<Rightarrow> u8 list" where
  "rdb d off n = map (\<lambda>i. d (off + i)) [0..<n]"

definition wrb :: "blk \<Rightarrow> nat \<Rightarrow> u8 list \<Rightarrow> blk" where
  "wrb d off bs = (\<lambda>x. if off \<le> x \<and> x < off + length bs then bs ! (x - off) else d x)"

lemma length_rdb [simp]: "length (rdb d off n) = n"
  by (simp add: rdb_def)

lemma nth_rdb [simp]: "i < n \<Longrightarrow> rdb d off n ! i = d (off + i)"
  by (simp add: rdb_def)

lemma rdb_wrb_same: "length bs = n \<Longrightarrow> rdb (wrb d off bs) off n = bs"
  by (rule nth_equalityI) (auto simp: wrb_def)

lemma rdb_wrb_disjoint:
  "off + length bs \<le> off' \<or> off' + n \<le> off \<Longrightarrow> rdb (wrb d off bs) off' n = rdb d off' n"
  by (rule nth_equalityI) (auto simp: wrb_def)

lemma rdb_wrb_sub:
  "off \<le> off' \<Longrightarrow> off' + n \<le> off + length bs \<Longrightarrow>
     rdb (wrb d off bs) off' n = take n (drop (off' - off) bs)"
  by (rule nth_equalityI) (auto simp: wrb_def)

end
