(* ===== verification/CString.thy ===== *)
theory CString
  imports Bytes
begin

text \<open>
  \<^verbatim>\<open>kernel/string.c\<close>: the memory and string routines. A routine that writes takes the memory
  and the destination address and returns the new memory; a pointer that is only read is the
  sequence of bytes found from it on (\<open>nat \<Rightarrow> u8\<close>), so the same definition serves a pointer
  into physical memory, a disk block and a local array. Counts are natural numbers: every caller
  passes a \<^verbatim>\<open>uint\<close> or a non-negative \<^verbatim>\<open>int\<close>.
\<close>

section \<open>Definitions\<close>

function memset_loop :: "mem \<Rightarrow> u64 \<Rightarrow> u8 \<Rightarrow> nat \<Rightarrow> nat \<Rightarrow> mem" where
  "memset_loop m cdst c i n =
     (if i < n then memset_loop (m(cdst + of_nat i := c)) cdst c (Suc i) n else m)"
  by pat_completeness auto
termination
  by (relation "measure (\<lambda>(m, cdst, c, i, n). n - i)") auto

declare memset_loop.simps [simp del]

definition memset :: "mem \<Rightarrow> u64 \<Rightarrow> u32 \<Rightarrow> nat \<Rightarrow> mem" where
  "memset m dst c n = memset_loop m dst (ucast c) 0 n"

primrec memcmp :: "(nat \<Rightarrow> u8) \<Rightarrow> (nat \<Rightarrow> u8) \<Rightarrow> nat \<Rightarrow> int" where
  "memcmp s1 s2 0 = 0"
| "memcmp s1 s2 (Suc n) =
     (if s1 0 \<noteq> s2 0 then uint (s1 0) - uint (s2 0)
      else memcmp (\<lambda>i. s1 (Suc i)) (\<lambda>i. s2 (Suc i)) n)"

primrec copy_fwd :: "mem \<Rightarrow> u64 \<Rightarrow> u64 \<Rightarrow> nat \<Rightarrow> mem" where
  "copy_fwd m d s 0 = m"
| "copy_fwd m d s (Suc n) = copy_fwd (m(d := m s)) (d + 1) (s + 1) n"

primrec copy_bwd :: "mem \<Rightarrow> u64 \<Rightarrow> u64 \<Rightarrow> nat \<Rightarrow> mem" where
  "copy_bwd m d s 0 = m"
| "copy_bwd m d s (Suc n) = copy_bwd (m(d - 1 := m (s - 1))) (d - 1) (s - 1) n"

definition memmove :: "mem \<Rightarrow> u64 \<Rightarrow> u64 \<Rightarrow> nat \<Rightarrow> mem" where
  "memmove m dst src n =
     (if n = 0 then m
      else if src < dst \<and> src + of_nat n > dst
      then copy_bwd m (dst + of_nat n) (src + of_nat n) n
      else copy_fwd m dst src n)"

primrec strncmp :: "(nat \<Rightarrow> u8) \<Rightarrow> (nat \<Rightarrow> u8) \<Rightarrow> nat \<Rightarrow> int" where
  "strncmp p q 0 = 0"
| "strncmp p q (Suc n) =
     (if p 0 \<noteq> 0 \<and> p 0 = q 0 then strncmp (\<lambda>i. p (Suc i)) (\<lambda>i. q (Suc i)) n
      else uint (p 0) - uint (q 0))"

primrec zero_fill :: "('a::comm_semiring_1 \<Rightarrow> u8) \<Rightarrow> 'a \<Rightarrow> nat \<Rightarrow> ('a \<Rightarrow> u8)" where
  "zero_fill m s 0 = m"
| "zero_fill m s (Suc n) = zero_fill (m(s := 0)) (s + 1) n"

primrec strncpy ::
  "('a::comm_semiring_1 \<Rightarrow> u8) \<Rightarrow> 'a \<Rightarrow> (nat \<Rightarrow> u8) \<Rightarrow> nat \<Rightarrow> ('a \<Rightarrow> u8)" where
  "strncpy m s t 0 = m"
| "strncpy m s t (Suc n) =
     (if t 0 \<noteq> 0 then strncpy (m(s := t 0)) (s + 1) (\<lambda>i. t (Suc i)) n
      else zero_fill (m(s := t 0)) (s + 1) n)"

text \<open>
  In \<^verbatim>\<open>safestrcpy\<close> the loop body runs at most \<open>n - 1\<close> times; after it copied a NUL, the final
  store writes one more.
\<close>

primrec safestrcpy_loop ::
  "('a::comm_semiring_1 \<Rightarrow> u8) \<Rightarrow> 'a \<Rightarrow> (nat \<Rightarrow> u8) \<Rightarrow> nat \<Rightarrow> ('a \<Rightarrow> u8)" where
  "safestrcpy_loop m s t 0 = m(s := 0)"
| "safestrcpy_loop m s t (Suc n) =
     (if t 0 \<noteq> 0 then safestrcpy_loop (m(s := t 0)) (s + 1) (\<lambda>i. t (Suc i)) n
      else (m(s := t 0))(s + 1 := 0))"

definition safestrcpy ::
  "('a::comm_semiring_1 \<Rightarrow> u8) \<Rightarrow> 'a \<Rightarrow> (nat \<Rightarrow> u8) \<Rightarrow> nat \<Rightarrow> ('a \<Rightarrow> u8)" where
  "safestrcpy m s t n = (if n = 0 then m else safestrcpy_loop m s t (n - 1))"

partial_function (option) strlen_from :: "(nat \<Rightarrow> u8) \<Rightarrow> nat \<Rightarrow> nat option" where
  "strlen_from s n = (if s n = 0 then Some n else strlen_from s (Suc n))"

definition strlen :: "(nat \<Rightarrow> u8) \<Rightarrow> nat option" where
  "strlen s = strlen_from s 0"

text \<open>The C string of at most \<open>n\<close> bytes found at a pointer, and a pointer to given bytes.\<close>

definition cstr :: "(nat \<Rightarrow> u8) \<Rightarrow> nat \<Rightarrow> u8 list" where
  "cstr p n = takeWhile (\<lambda>c. c \<noteq> 0) (map p [0..<n])"

definition ptr :: "u8 list \<Rightarrow> nat \<Rightarrow> u8" where
  "ptr bs i = (if i < length bs then bs ! i else 0)"

section \<open>memset and memmove\<close>

lemma memset_loop_eq:
  assumes "n \<le> 2 ^ 64"
  shows "memset_loop m d c i n = (\<lambda>x. if i \<le> unat (x - d) \<and> unat (x - d) < n then c else m x)"
  using assms
proof (induction m d c i n rule: memset_loop.induct)
  case (1 m d c i n)
  show ?case
  proof (cases "i < n")
    case True
    have upd: "(m(d + of_nat i := c)) x = (if unat (x - d) = i then c else m x)" for x
      using True 1(2) eq_plus_iff [of i x d] by simp
    have "memset_loop m d c i n = memset_loop (m(d + of_nat i := c)) d c (Suc i) n"
      using True by (subst memset_loop.simps) simp
    also have "\<dots> = (\<lambda>x. if Suc i \<le> unat (x - d) \<and> unat (x - d) < n then c
                     else (m(d + of_nat i := c)) x)"
      by (rule 1(1) [OF True 1(2)])
    finally show ?thesis using True by (auto simp only: fun_eq_iff upd) auto
  next
    case False
    then show ?thesis by (subst memset_loop.simps) (auto simp: fun_eq_iff)
  qed
qed

lemma memset_eq: "n \<le> 2 ^ 64 \<Longrightarrow> memset m d c n = wr m d (replicate n (ucast c))"
  by (auto simp: memset_def memset_loop_eq wr_def)

lemma copy_fwd_eq:
  assumes "n \<le> 2 ^ 64"
    and "\<And>i j. j < i \<Longrightarrow> i < n \<Longrightarrow> s + of_nat i \<noteq> d + of_nat j"
  shows "copy_fwd m d s n x = (if unat (x - d) < n then m (s + (x - d)) else m x)"
  using assms
proof (induction n arbitrary: m d s)
  case 0
  then show ?case by simp
next
  case (Suc n)
  let ?m = "m(d := m s)"
  have IH: "copy_fwd ?m (d + 1) (s + 1) n x =
      (if unat (x - (d + 1)) < n then ?m (s + 1 + (x - (d + 1))) else ?m x)"
  proof (rule Suc.IH)
    fix i j assume "j < i" "i < n"
    then show "s + 1 + of_nat i \<noteq> d + 1 + of_nat j"
      using Suc.prems(2) [of j i] by simp
  qed (use Suc.prems in simp)
  show ?case
  proof (cases "x = d")
    case True
    have "unat (- 1 :: u64) = 2 ^ 64 - 1" by (simp add: unsigned_minus_1_eq_mask mask_eq_exp_minus_1)
    with True IH Suc.prems(1) show ?thesis by simp
  next
    case False
    then have "unat (x - d) \<noteq> 0" by (simp add: unat_eq_0)
    then obtain k where u: "unat (x - d) = Suc k" by (cases "unat (x - d)") auto
    with u64_lt [of "x - d"] eq_plus_iff [of "Suc k" x d] have k: "x = d + of_nat (Suc k)" by auto
    have "x - (d + 1) = of_nat k" using k by simp
    then have u': "unat (x - (d + 1)) = k"
      using u u64_lt [of "x - d"] by (simp add: unat_of_nat_lt)
    have "Suc k < Suc n \<Longrightarrow> s + of_nat (Suc k) \<noteq> d"
      using Suc.prems(2) [of 0 "Suc k"] by simp
    moreover have "s + 1 + (x - (d + 1)) = s + of_nat (Suc k)" "s + (x - d) = s + of_nat (Suc k)"
      using k by simp_all
    ultimately show ?thesis using IH u u' False by simp
  qed
qed

lemma copy_bwd_eq:
  assumes "n \<le> 2 ^ 64"
    and "\<And>i j. i < j \<Longrightarrow> j < n \<Longrightarrow> s + of_nat i \<noteq> d + of_nat j"
  shows "copy_bwd m (d + of_nat n) (s + of_nat n) n x =
    (if unat (x - d) < n then m (s + (x - d)) else m x)"
  using assms
proof (induction n arbitrary: m)
  case 0
  then show ?case by simp
next
  case (Suc n)
  let ?m = "m(d + of_nat n := m (s + of_nat n))"
  have IH: "copy_bwd ?m (d + of_nat n) (s + of_nat n) n x =
      (if unat (x - d) < n then ?m (s + (x - d)) else ?m x)"
    by (rule Suc.IH) (use Suc.prems in auto)
  have x: "x = d + of_nat n \<longleftrightarrow> unat (x - d) = n"
    using Suc.prems(1) by (intro eq_plus_iff) simp
  have "s + (x - d) \<noteq> d + of_nat n" if "unat (x - d) < n"
    using Suc.prems(2) [of "unat (x - d)" n] that by simp
  with IH x show ?case by (auto simp: algebra_simps)
qed

lemma memmove_eq:
  assumes "unat src + n < 2 ^ 64" and "unat dst + n \<le> 2 ^ 64"
  shows "memmove m dst src n = wr m dst (rd m src n)"
proof (rule ext)
  fix x
  have ovf: "unat (src + of_nat i) = unat src + i" if "i \<le> n" for i
    using that assms(1) by (simp add: unat_word_ariths unat_of_nat)
  have dvf: "unat (dst + of_nat i) = unat dst + i" if "i < n" for i
    using that assms(2) by (simp add: unat_word_ariths unat_of_nat)
  have "memmove m dst src n x = (if unat (x - dst) < n then m (src + (x - dst)) else m x)"
  proof (cases "src < dst \<and> src + of_nat n > dst")
    case True
    have "src + of_nat i \<noteq> dst + of_nat j" if "i < j" "j < n" for i j
      using that True ovf [of i] dvf [of j] by (auto simp: word_unat_eq_iff word_less_nat_alt)
    then show ?thesis
      using True assms by (auto simp: memmove_def copy_bwd_eq)
  next
    case False
    have "src + of_nat i \<noteq> dst + of_nat j" if "j < i" "i < n" for i j
      using that False ovf [of i] ovf [of n] dvf [of j]
      by (auto simp: word_unat_eq_iff word_less_nat_alt)
    then show ?thesis
      using False assms by (auto simp: memmove_def copy_fwd_eq)
  qed
  then show "memmove m dst src n x = wr m dst (rd m src n) x"
    by (simp add: wr_def)
qed

section \<open>Strings\<close>

lemma map_upt_Suc_shift: "map f [0..<Suc n] = f 0 # map (\<lambda>i. f (Suc i)) [0..<n]"
  by (simp add: upt_conv_Cons map_Suc_upt [symmetric] del: upt_Suc)

lemma cstr_0 [simp]: "cstr p 0 = []"
  by (simp add: cstr_def)

lemma cstr_Suc: "cstr p (Suc n) = (if p 0 = 0 then [] else p 0 # cstr (\<lambda>i. p (Suc i)) n)"
  by (simp add: cstr_def map_upt_Suc_shift del: upt_Suc)

lemma strncmp_0_iff: "strncmp p q n = 0 \<longleftrightarrow> cstr p n = cstr q n"
proof (induction n arbitrary: p q)
  case 0
  then show ?case by simp
next
  case (Suc n)
  then show ?case by (auto simp: cstr_Suc simp flip: word_uint_eq_iff simp: uint_0_iff)
qed

lemma memcmp_0_iff: "memcmp p q n = 0 \<longleftrightarrow> (\<forall>i<n. p i = q i)"
proof (induction n arbitrary: p q)
  case 0
  then show ?case by simp
next
  case (Suc n)
  then show ?case by (auto simp: All_less_Suc2 simp flip: word_uint_eq_iff)
qed

text \<open>Where the C string at a pointer ends.\<close>

lemma strlen_from_eq:
  assumes "s k = 0" and "n \<le> k" and "\<And>i. n \<le> i \<Longrightarrow> i < k \<Longrightarrow> s i \<noteq> 0"
  shows "strlen_from s n = Some k"
  using assms(2,3)
proof (induction "k - n" arbitrary: n)
  case 0
  with assms(1) show ?case by (simp add: strlen_from.simps)
next
  case (Suc d)
  then have "strlen_from s (Suc n) = Some k" by auto
  moreover have "s n \<noteq> 0" using Suc by simp
  ultimately show ?case by (simp add: strlen_from.simps [of s n])
qed

lemma strlen_Least:
  assumes "\<exists>k. s k = 0"
  shows "strlen s = Some (LEAST k. s k = 0)"
  unfolding strlen_def
  by (rule strlen_from_eq) (use assms in \<open>auto intro: LeastI_ex dest: not_less_Least\<close>)

lemma strlen_ptr: "0 \<notin> set bs \<Longrightarrow> strlen (ptr bs) = Some (length bs)"
  unfolding strlen_def by (rule strlen_from_eq) (auto simp: ptr_def in_set_conv_nth)

lemma length_cstr: "length (cstr p n) \<le> n"
  by (induction n arbitrary: p) (auto simp: cstr_Suc)

lemma nth_cstr: "i < length (cstr p n) \<Longrightarrow> cstr p n ! i = p i"
proof (induction n arbitrary: p i)
  case 0
  then show ?case by simp
next
  case (Suc n)
  show ?case
  proof (cases i)
    case 0
    with Suc.prems show ?thesis by (auto simp: cstr_Suc split: if_splits)
  next
    case (Suc j)
    with Suc.prems Suc.IH [of j "\<lambda>i. p (Suc i)"] show ?thesis
      by (auto simp: cstr_Suc split: if_splits)
  qed
qed

lemma cstr_stop: "length (cstr p n) < n \<Longrightarrow> p (length (cstr p n)) = 0"
proof (induction n arbitrary: p)
  case 0
  then show ?case by simp
next
  case (Suc n)
  then show ?case by (auto simp: cstr_Suc split: if_splits)
qed

text \<open>
  \<open>strncpy\<close> and \<open>safestrcpy\<close> into an array: what the first \<open>n\<close> bytes hold afterwards, and
  that nothing outside them changes.
\<close>

lemma zero_fill_nat:
  "zero_fill m s n i = (if s \<le> i \<and> i < s + n then 0 else m i)" for s i :: nat
  by (induction n arbitrary: m s) auto

lemma strncpy_nat:
  "strncpy m s t n i =
     (if s \<le> i \<and> i < s + n
      then (if i - s < length (cstr t n) then t (i - s) else 0) else m i)" for s i :: nat
proof (induction n arbitrary: m s t)
  case 0
  then show ?case by auto
next
  case (Suc n)
  show ?case
  proof (cases "t 0 = 0")
    case True
    then show ?thesis by (auto simp: cstr_Suc zero_fill_nat)
  next
    case False
    have "i - s = Suc (i - Suc s)" if "s < i" using that by simp
    with False show ?thesis
      by (auto simp: Suc.IH cstr_Suc not_less le_Suc_eq)
  qed
qed

lemma safestrcpy_loop_nat:
  "safestrcpy_loop m s t n i =
     (if s \<le> i \<and> i < s + length (cstr t n) then t (i - s)
      else if i = s + length (cstr t n) then 0
      else if i = Suc (s + length (cstr t n)) \<and> length (cstr t n) < n then 0
      else m i)" for s i :: nat
proof (induction n arbitrary: m s t)
  case 0
  then show ?case by auto
next
  case (Suc n)
  show ?case
  proof (cases "t 0 = 0")
    case True
    then show ?thesis by (auto simp: cstr_Suc)
  next
    case False
    have "i - s = Suc (i - Suc s)" if "s < i" using that by simp
    with False show ?thesis
      by (auto simp: Suc.IH cstr_Suc not_less le_Suc_eq)
  qed
qed

section \<open>Properties\<close>

text \<open>
  C22: \<^verbatim>\<open>memmove\<close> copies correctly whether or not source and destination overlap: every
  destination byte ends up as the source byte was before the call, and no other byte changes.
\<close>

theorem memmove_correct:
  assumes "unat src + n < 2 ^ 64" and "unat dst + n \<le> 2 ^ 64"
  shows "(\<forall>i<n. memmove m dst src n (dst + of_nat i) = m (src + of_nat i)) \<and>
    (\<forall>x. (\<forall>i<n. x \<noteq> dst + of_nat i) \<longrightarrow> memmove m dst src n x = m x)"
proof (intro conjI allI impI)
  fix i assume "i < n"
  with assms show "memmove m dst src n (dst + of_nat i) = m (src + of_nat i)"
    by (simp add: memmove_eq wr_at)
next
  fix x assume out: "\<forall>i<n. x \<noteq> dst + of_nat i"
  have "\<not> unat (x - dst) < n"
    using out [rule_format, of "unat (x - dst)"] by auto
  with assms show "memmove m dst src n x = m x"
    by (simp add: memmove_eq wr_def)
qed

text \<open>The overlapping move of 6 bytes by 2, which the forward loop alone would get wrong.\<close>

theorem memmove_correct_witness:
  "memmove (\<lambda>a. ucast a) 102 100 6 (102 + of_nat 5) = (ucast (100 + of_nat 5 :: u64) :: u8)"
  using conjunct1 [OF memmove_correct [of 100 6 102 "\<lambda>a. ucast a"], rule_format, of 5] by simp

text \<open>
  C24: \<^verbatim>\<open>safestrcpy\<close> into an array of \<open>n > 0\<close> bytes always leaves a NUL-terminated string,
  the longest prefix of the source string that fits, and never writes outside the array.
\<close>

theorem safestrcpy_terminates:
  assumes "0 < n"
  shows "cstr (safestrcpy m 0 t n) n = cstr t (n - 1) \<and>
    length (cstr t (n - 1)) < n \<and> (\<forall>i\<ge>n. safestrcpy m 0 t n i = m i)"
proof -
  let ?k = "length (cstr t (n - 1))" and ?r = "safestrcpy m 0 t n"
  have k: "?k < n" using length_cstr [of t "n - 1"] assms by simp
  have r: "?r i = (if i < ?k then t i else if i = ?k then 0
      else if i = Suc ?k \<and> ?k < n - 1 then 0 else m i)" for i
    using assms by (simp add: safestrcpy_def safestrcpy_loop_nat)
  have nz: "t i \<noteq> 0" if "i < ?k" for i
    using that nth_cstr [OF that] nth_mem [OF that] by (auto simp: cstr_def dest: set_takeWhileD)
  have "map ?r [0..<n] = map t [0..<?k] @ 0 # map ?r [Suc ?k..<n]"
  proof -
    have "[0..<n] = [0..<?k] @ ?k # [Suc ?k..<n]"
      using k by (metis le_add1 plus_nat.add_0 upt_add_eq_append upt_conv_Cons less_imp_add_positive)
    then show ?thesis by (simp add: r)
  qed
  then have "cstr ?r n = takeWhile (\<lambda>c. c \<noteq> 0) (map t [0..<?k] @ 0 # map ?r [Suc ?k..<n])"
    by (simp add: cstr_def [of ?r])
  also have "\<dots> = map t [0..<?k]"
    using nz by (subst takeWhile_append2) auto
  also have "\<dots> = cstr t (n - 1)"
    by (rule nth_equalityI) (simp_all add: nth_cstr)
  finally show ?thesis using k r by auto
qed

theorem safestrcpy_terminates_witness:
  "cstr (safestrcpy (\<lambda>_. 7) 0 (ptr (bytes ''initcode'')) 4) 4 = cstr (ptr (bytes ''initcode'')) 3"
  using safestrcpy_terminates [of 4 "\<lambda>_. 7" "ptr (bytes ''initcode'')"] by simp

end
