(* ===== verification/Kalloc.thy ===== *)
theory Kalloc
  imports Spinlock CString
begin

text \<open>
  \<^verbatim>\<open>kernel/kalloc.c\<close>: the physical page allocator. The free list is threaded through the free
  pages themselves, in simulated byte memory; \<open>linked\<close> abstracts it to the list of page
  addresses. The interface other components rely on is the locale \<open>page_allocator\<close>; a client
  lemma in it covers every sequence of allocations and releases.
\<close>

section \<open>State and operations\<close>

text \<open>\<^verbatim>\<open>struct run\<close> is the next pointer in the first eight bytes of a free page.\<close>

record kmem_st = hart +
  ram :: mem
  freelist :: u64

definition set_ram :: "(mem \<Rightarrow> mem) \<Rightarrow> (unit, 'a kmem_st_scheme) m" where
  "set_ram f = modify (\<lambda>s. s\<lparr>ram := f (ram s)\<rparr>)"

text \<open>A store through a null pointer traps into \<^verbatim>\<open>kerneltrap()\<close>, which panics.\<close>

definition deref :: "u64 \<Rightarrow> ('r, 's) m \<Rightarrow> ('r, 's) m" where
  "deref p c = (if p = 0 then panic ''kerneltrap'' else c)"

definition kfree :: "u64 \<Rightarrow> (unit, 'a kmem_st_scheme) m" where
  "kfree pa = bnd (gets end_sym) (\<lambda>end. block [
     panic_if (pa mod PGSIZE \<noteq> 0 \<or> pa < end \<or> pa \<ge> PHYSTOP) ''kfree'',
     set_ram (\<lambda>m. memset m pa 1 (unat PGSIZE)),
     acquire L_kmem,
     bnd (gets freelist) (\<lambda>next. set_ram (\<lambda>m. store64 m pa next)),
     modify (\<lambda>s. s\<lparr>freelist := pa\<rparr>),
     release L_kmem])"

lemma kfree_Ok_lt: "kfree p s = Ok u t \<Longrightarrow> p < PHYSTOP"
  by (auto simp: kfree_def m_simps not_le split: if_splits)

lemma page_alignedE:
  assumes "page_aligned p"
  obtains k where "unat p = 4096 * k"
  using assms that [of "unat p div 4096"] by (auto simp: page_aligned_unat)

lemma page_step_bound:
  assumes "unat p + 4096 < 2 ^ 64"
  shows "unat (p + PGSIZE) = unat p + 4096"
  using assms by (simp add: layout_consts unat_word_ariths)

lemma page_step:
  assumes "p < MAXVA"
  shows "unat (p + PGSIZE) = unat p + 4096"
proof -
  have "unat p < 0x4000000000" using assms by (simp add: layout_consts word_less_nat_alt)
  then show ?thesis by (intro page_step_bound) simp
qed

text \<open>
  The loop of \<^verbatim>\<open>freerange\<close> stops because \<^verbatim>\<open>kfree\<close> panics above \<^verbatim>\<open>PHYSTOP\<close>, so that the pointer
  never wraps around.
\<close>

function freerange_loop :: "u64 \<Rightarrow> u64 \<Rightarrow> (unit, 'a kmem_st_scheme) m" where
  "freerange_loop p pa_end s =
     (if p + PGSIZE \<le> pa_end
      then bnd (kfree p) (\<lambda>_. freerange_loop (p + PGSIZE) pa_end) else ret ()) s"
  by auto
termination
proof (relation "measure (\<lambda>(p, e, s). 2 ^ 64 - unat p)", goal_cases)
  case (2 p e s u t)
  then have "p < PHYSTOP" by (blast dest: kfree_Ok_lt)
  then have "p < MAXVA" by (rule order_less_trans) (simp add: layout_consts)
  then show ?case using u64_lt [of "p + PGSIZE"] by (simp add: page_step)
qed simp

declare freerange_loop.simps [simp del]

definition freerange :: "u64 \<Rightarrow> u64 \<Rightarrow> (unit, 'a kmem_st_scheme) m" where
  "freerange pa_start pa_end = freerange_loop (PGROUNDUP pa_start) pa_end"

definition kinit :: "(unit, 'a kmem_st_scheme) m" where
  "kinit = block [
     init_lock L_kmem,
     bnd (gets end_sym) (\<lambda>end. freerange end PHYSTOP)]"

definition kalloc :: "(u64, 'a kmem_st_scheme) m" where
  "kalloc =
     bnd (acquire L_kmem) (\<lambda>_.
     bnd (gets freelist) (\<lambda>r.
     bnd (if_do (r \<noteq> 0) (modify (\<lambda>s. s\<lparr>freelist := load64 (ram s) r\<rparr>))) (\<lambda>_.
     bnd (release L_kmem) (\<lambda>_.
     bnd (if_do (r \<noteq> 0) (set_ram (\<lambda>m. memset m r 5 (unat PGSIZE)))) (\<lambda>_.
     ret r)))))"

section \<open>The free list\<close>

text \<open>\<open>linked m p ps\<close>: following next pointers from \<open>p\<close> visits exactly the pages \<open>ps\<close>.\<close>

primrec linked :: "mem \<Rightarrow> u64 \<Rightarrow> u64 list \<Rightarrow> bool" where
  "linked m p [] \<longleftrightarrow> p = 0"
| "linked m p (q # qs) \<longleftrightarrow> p = q \<and> q \<noteq> 0 \<and> linked m (load64 m q) qs"

text \<open>A page the allocator may manage, when the kernel image ends at \<open>e\<close>.\<close>

definition kpage :: "u64 \<Rightarrow> u64 \<Rightarrow> bool" where
  "kpage e p \<longleftrightarrow> p mod PGSIZE = 0 \<and> e \<le> p \<and> p < PHYSTOP"

definition free_pages :: "'a kmem_st_scheme \<Rightarrow> u64 list \<Rightarrow> bool" where
  "free_pages s ps \<longleftrightarrow> linked (ram s) (freelist s) ps \<and> distinct ps \<and>
     (\<forall>p\<in>set ps. kpage (end_sym s) p)"

text \<open>The allocator is callable: its lock is free and the kernel image ends at \<open>e > 0\<close>.\<close>

definition kmem_ready :: "u64 \<Rightarrow> 'a kmem_st_scheme \<Rightarrow> bool" where
  "kmem_ready e s \<longleftrightarrow> L_kmem \<notin> set (held s) \<and> end_sym s = e \<and> 0 < e"

lemma linked_cong:
  "(\<And>q. q \<in> set ps \<Longrightarrow> load64 m' q = load64 m q) \<Longrightarrow> linked m' p ps = linked m p ps"
  by (induction ps arbitrary: p) auto

lemma linked_unique: "linked m p ps \<Longrightarrow> linked m p qs \<Longrightarrow> ps = qs"
proof (induction ps arbitrary: p qs)
  case Nil
  then show ?case by (cases qs) auto
next
  case (Cons a ps)
  then show ?case by (cases qs) auto
qed

lemma kpage_aligned: "kpage e p \<Longrightarrow> page_aligned p"
  by (simp add: kpage_def page_aligned_def)

lemma kpage_unat: "kpage e p \<longleftrightarrow> page_aligned p \<and> unat e \<le> unat p \<and> unat p < unat PHYSTOP"
  by (simp only: kpage_def page_aligned_def word_le_nat_alt word_less_nat_alt)

lemma within_page_start: "page_aligned p \<Longrightarrow> n \<le> 4096 \<Longrightarrow> within_page p p n"
  by (simp add: within_page_def page_of_aligned page_aligned_unat)

lemma load64_other_page:
  assumes "page_aligned p" and "page_aligned q" and "p \<noteq> q" and "length bs \<le> 4096"
  shows "load64 (wr m q bs) p = load64 m p"
  using assms unfolding load64_def
  by (simp add: rd_wr_other_page [of p p 8 q q] within_page_start)

lemma page_fill_other:
  assumes "page_aligned p" and "page_of x \<noteq> p"
  shows "memset m p c (unat PGSIZE) x = m x"
  using assms by (simp add: memset_eq layout_consts wr_other_page [OF within_page_start])

lemma load64_memset_other:
  assumes "page_aligned p" and "page_aligned q" and "p \<noteq> q"
  shows "load64 (memset m q c (unat PGSIZE)) p = load64 m p"
  using assms by (simp add: memset_eq layout_consts load64_other_page)

lemma load64_store64_other:
  assumes "page_aligned p" and "page_aligned q" and "p \<noteq> q"
  shows "load64 (store64 m q v) p = load64 m p"
  unfolding store64_def using assms by (simp add: load64_other_page)

lemmas page_writes = load64_memset_other load64_store64_other page_fill_other

section \<open>Effects\<close>

lemma kfree_Ok:
  assumes "kmem_ready e s" and "kpage e p"
  shows "kfree p s = Ok () (s\<lparr>
    ram := store64 (memset (ram s) p 1 (unat PGSIZE)) p (freelist s), freelist := p\<rparr>)"
  using assms by (simp add: kfree_def kmem_ready_def kpage_def set_ram_def m_simps not_less not_le)

lemma kfree_bad: "\<not> kpage (end_sym s) p \<Longrightarrow> kfree p s = Panic ''kfree''"
  by (auto simp: kfree_def kpage_def m_simps not_le not_less)

lemma kalloc_empty: "kmem_ready e s \<Longrightarrow> freelist s = 0 \<Longrightarrow> kalloc s = Ok 0 s"
  by (simp add: kalloc_def kmem_ready_def m_simps)

lemma kalloc_page:
  assumes "kmem_ready e s" and "freelist s = p" and "p \<noteq> 0"
  shows "kalloc s = Ok p (s\<lparr>freelist := load64 (ram s) p,
    ram := memset (ram s) p 5 (unat PGSIZE)\<rparr>)"
  using assms by (simp add: kalloc_def kmem_ready_def set_ram_def m_simps)

lemma kpage_nonzero: "kpage e p \<Longrightarrow> 0 < e \<Longrightarrow> p \<noteq> 0"
  by (auto simp: kpage_def)

lemma kalloc_Nil:
  "kmem_ready e s \<Longrightarrow> free_pages s [] \<Longrightarrow> kalloc s = Ok 0 s"
  by (simp add: free_pages_def kalloc_empty)

lemma kalloc_Cons:
  assumes "kmem_ready e s" and "free_pages s (p # ps)"
  obtains t where "kalloc s = Ok p t" "t = s\<lparr>freelist := load64 (ram s) p,
      ram := memset (ram s) p 5 (unat PGSIZE)\<rparr>" "kmem_ready e t" "free_pages t ps"
proof
  let ?t = "s\<lparr>freelist := load64 (ram s) p, ram := memset (ram s) p 5 (unat PGSIZE)\<rparr>"
  show "kalloc s = Ok p ?t"
    using assms by (intro kalloc_page [of e]) (auto simp: free_pages_def)
  show "kmem_ready e ?t" using assms(1) by (simp add: kmem_ready_def)
  have "linked (memset (ram s) p 5 (unat PGSIZE)) (load64 (ram s) p) ps =
      linked (ram s) (load64 (ram s) p) ps"
    using assms(2) by (intro linked_cong load64_memset_other)
      (auto simp: free_pages_def intro: kpage_aligned)
  then show "free_pages ?t ps" using assms(2) by (auto simp: free_pages_def)
qed simp

lemma kfree_Cons:
  assumes "kmem_ready e s" and "free_pages s ps" and "kpage e p" and "p \<notin> set ps"
  obtains t where "kfree p s = Ok () t"
    "t = s\<lparr>ram := store64 (memset (ram s) p 1 (unat PGSIZE)) p (freelist s), freelist := p\<rparr>"
    "kmem_ready e t" "free_pages t (p # ps)"
proof
  let ?m = "store64 (memset (ram s) p 1 (unat PGSIZE)) p (freelist s)"
  let ?t = "s\<lparr>ram := ?m, freelist := p\<rparr>"
  show "kfree p s = Ok () ?t" using assms by (rule_tac kfree_Ok)
  show "kmem_ready e ?t" using assms(1) by (simp add: kmem_ready_def)
  have e: "end_sym s = e" "p \<noteq> 0" using assms(1,3) by (auto simp: kmem_ready_def dest: kpage_nonzero)
  have "linked ?m (freelist s) ps = linked (ram s) (freelist s) ps"
  proof (rule linked_cong)
    fix q assume q: "q \<in> set ps"
    then have "page_aligned q" "page_aligned p" "q \<noteq> p"
      using assms(2,3,4) by (auto simp: free_pages_def intro: kpage_aligned)
    then show "load64 ?m q = load64 (ram s) q" by (simp add: page_writes)
  qed
  then show "free_pages ?t (p # ps)" using assms(2-4) e by (auto simp: free_pages_def)
qed simp

section \<open>The interface\<close>

text \<open>
  What a client may rely on: allocation takes a page off the free list or returns 0 when there
  is none, and releasing a page that is not free puts it on the list.
\<close>

locale page_allocator =
  fixes alloc :: "(u64, 's) m" and free :: "u64 \<Rightarrow> (unit, 's) m"
    and frees :: "'s \<Rightarrow> u64 list \<Rightarrow> bool" and ready :: "'s \<Rightarrow> bool" and valid :: "u64 \<Rightarrow> bool"
  assumes frees_distinct: "frees s ps \<Longrightarrow> ready s \<Longrightarrow> distinct ps"
    and frees_valid: "frees s ps \<Longrightarrow> ready s \<Longrightarrow> p \<in> set ps \<Longrightarrow> valid p \<and> p \<noteq> 0"
    and alloc_none: "frees s [] \<Longrightarrow> ready s \<Longrightarrow> alloc s = Ok 0 s"
    and alloc_some: "frees s (p # ps) \<Longrightarrow> ready s \<Longrightarrow> \<exists>t. alloc s = Ok p t \<and> ready t \<and> frees t ps"
    and free_page: "frees s ps \<Longrightarrow> ready s \<Longrightarrow> valid p \<Longrightarrow> p \<notin> set ps \<Longrightarrow>
      \<exists>t. free p s = Ok () t \<and> ready t \<and> frees t (p # ps)"

text \<open>
  A client of the allocator: it allocates, and it releases the \<open>i\<close>-th of the pages it holds.
\<close>

datatype palloc_op = Do_alloc | Do_free nat

fun client ::
  "(u64, 's) m \<Rightarrow> (u64 \<Rightarrow> (unit, 's) m) \<Rightarrow> palloc_op list \<Rightarrow> u64 list \<Rightarrow> (u64 list, 's) m" where
  "client alloc free [] live = ret live"
| "client alloc free (Do_alloc # ops) live =
     bnd alloc (\<lambda>p. client alloc free ops (if p = 0 then live else p # live))"
| "client alloc free (Do_free i # ops) live =
     (if i < length live
      then bnd (free (live ! i)) (\<lambda>_. client alloc free ops (remove1 (live ! i) live))
      else client alloc free ops live)"

context page_allocator
begin

lemma client_safe:
  assumes "frees s ps" and "ready s" and "distinct (ps @ live)" and "\<forall>p\<in>set live. valid p"
  shows "\<exists>live' ps' t. client alloc free ops live s = Ok live' t \<and> ready t \<and> frees t ps' \<and>
    distinct (ps' @ live') \<and> set (ps' @ live') = set (ps @ live)"
  using assms
proof (induction ops arbitrary: s ps live)
  case Nil
  then show ?case by (auto simp: ret_def)
next
  case (Cons op ops)
  show ?case
  proof (cases op)
    case Do_alloc
    show ?thesis
    proof (cases ps)
      case Nil
      then have "alloc s = Ok 0 s" using Cons.prems alloc_none by blast
      then show ?thesis using Cons.IH [OF Cons.prems] Do_alloc Nil by (simp add: bnd_Ok)
    next
      case (Cons p qs)
      then obtain t where t: "alloc s = Ok p t" "ready t" "frees t qs"
        using Cons.prems alloc_some by blast
      have p: "valid p" "p \<noteq> 0" using Cons.prems Cons frees_valid [of s ps p] by auto
      have "\<exists>live' ps' u. client alloc free ops (p # live) t = Ok live' u \<and> ready u \<and> frees u ps' \<and>
          distinct (ps' @ live') \<and> set (ps' @ live') = set (qs @ p # live)"
        using Cons.prems Cons p t by (intro Cons.IH) auto
      with t p Do_alloc Cons show ?thesis by (simp add: bnd_Ok insert_commute Un_insert_right)
    qed
  next
    case (Do_free i)
    show ?thesis
    proof (cases "i < length live")
      case True
      let ?p = "live ! i"
      have p: "?p \<in> set live" using True by simp
      then have "valid ?p" "?p \<notin> set ps" using Cons.prems by auto
      then obtain t where t: "free ?p s = Ok () t" "ready t" "frees t (?p # ps)"
        using Cons.prems free_page by blast
      have "\<exists>live' ps' u. client alloc free ops (remove1 ?p live) t = Ok live' u \<and> ready u \<and>
          frees u ps' \<and> distinct (ps' @ live') \<and>
          set (ps' @ live') = set ((?p # ps) @ remove1 ?p live)"
        using Cons.prems p t by (intro Cons.IH) (auto dest: notin_set_remove1)
      moreover have "set ((?p # ps) @ remove1 ?p live) = set (ps @ live)"
        using Cons.prems(3) p by (auto dest: notin_set_remove1)
      ultimately show ?thesis using t True Do_free by (simp add: bnd_Ok)
    next
      case False
      then show ?thesis using Cons.IH [OF Cons.prems] Do_free by simp
    qed
  qed
qed

end

interpretation kmem: page_allocator kalloc kfree free_pages "kmem_ready e" "kpage e" for e
proof (unfold_locales, goal_cases)
  case (1 s ps)
  then show ?case by (simp add: free_pages_def)
next
  case (2 s ps p)
  then have "kpage e p" by (simp add: free_pages_def kmem_ready_def)
  moreover have "0 < e" using 2 by (simp add: kmem_ready_def)
  ultimately show ?case by (simp add: kpage_nonzero)
next
  case (3 s)
  then show ?case by (blast intro: kalloc_Nil)
next
  case (4 s p ps)
  from kalloc_Cons [OF 4(2,1)] show ?case by blast
next
  case (5 s ps p)
  from kfree_Cons [OF 5(2,1,3,4)] show ?case by blast
qed

section \<open>Initialisation\<close>

text \<open>The \<open>n\<close> pages from \<open>p\<close> on.\<close>

primrec page_run :: "u64 \<Rightarrow> nat \<Rightarrow> u64 list" where
  "page_run p 0 = []"
| "page_run p (Suc n) = p # page_run (p + PGSIZE) n"

lemma freerange_loop_pages:
  assumes "kmem_ready e s" and "free_pages s ps" and "page_aligned p" and "e \<le> p"
    and "unat p + 4096 * n = unat PHYSTOP" and "\<forall>q\<in>set ps. q < p"
  shows "\<exists>t. freerange_loop p PHYSTOP s = Ok () t \<and> free_pages t (rev (page_run p n) @ ps) \<and>
    kmem_ready e t"
  using assms
proof (induction n arbitrary: p s ps)
  case 0
  then have "p = PHYSTOP" by (simp add: word_unat_eq_iff)
  then have "\<not> p + PGSIZE \<le> PHYSTOP" by (simp add: layout_consts)
  then show ?case using 0 by (simp add: freerange_loop.simps m_simps)
next
  case (Suc n)
  then have n: "unat p + 4096 * Suc n = 0x88000000" by (simp add: layout_consts)
  then have lt: "p < PHYSTOP" "p < MAXVA" by (simp_all add: word_less_nat_alt layout_consts)
  then have next': "unat (p + PGSIZE) = unat p + 4096" by (simp add: page_step)
  have kp: "kpage e p" using Suc.prems lt by (simp add: kpage_def page_aligned_def)
  obtain t where t: "kfree p s = Ok () t" "kmem_ready e t" "free_pages t (p # ps)"
    using kfree_Cons [OF Suc.prems(1,2) kp] Suc.prems(6) by blast
  have "p < p + PGSIZE" using next' by (simp add: word_less_nat_alt)
  then have less: "\<forall>q\<in>set (p # ps). q < p + PGSIZE" using Suc.prems(6) by auto
  have "\<exists>u. freerange_loop (p + PGSIZE) PHYSTOP t = Ok () u \<and>
      free_pages u (rev (page_run (p + PGSIZE) n) @ p # ps) \<and> kmem_ready e u"
  proof (rule Suc.IH [OF t(2,3) _ _ _ less])
    show "page_aligned (p + PGSIZE)" using Suc.prems(3) next' by (simp add: page_aligned_unat)
    show "e \<le> p + PGSIZE" using Suc.prems(4) next' by (simp add: word_le_nat_alt)
    show "unat (p + PGSIZE) + 4096 * n = unat PHYSTOP" using Suc.prems(5) next' by simp
  qed
  moreover have "p + PGSIZE \<le> PHYSTOP" 
    unfolding word_le_nat_alt using next' Suc.prems(5) [unfolded mult_Suc_right] by linarith
  ultimately show ?case using t(1) by (subst freerange_loop.simps) (simp add: m_simps)
qed

lemma set_page_run:
  assumes "page_aligned p" and "unat p + 4096 * n < 2 ^ 64"
  shows "set (page_run p n) =
    {q. page_aligned q \<and> unat p \<le> unat q \<and> unat q < unat p + 4096 * n}"
  using assms
proof (induction n arbitrary: p)
  case 0
  then show ?case by auto
next
  case (Suc n)
  have next': "unat (p + PGSIZE) = unat p + 4096"
    using Suc.prems(2) by (intro page_step_bound) simp
  have "page_aligned (p + PGSIZE)" using Suc.prems(1) next' by (simp add: page_aligned_unat)
  moreover have "unat (p + PGSIZE) + 4096 * n < 2 ^ 64" using Suc.prems(2) next' by simp
  ultimately have IH: "set (page_run (p + PGSIZE) n) =
      {q. page_aligned q \<and> unat p + 4096 \<le> unat q \<and> unat q < unat p + 4096 * Suc n}"
    by (simp add: Suc.IH next' add.assoc)
  have gap: "q = p" if q: "page_aligned q" "unat p \<le> unat q" "unat q < unat p + 4096" for q
  proof -
    obtain j where "unat p = 4096 * j" by (rule page_alignedE [OF Suc.prems(1)])
    moreover obtain k where "unat q = 4096 * k" by (rule page_alignedE [OF q(1)])
    ultimately have "unat p = unat q" using q(2,3) by simp
    then show ?thesis by (simp add: word_unat_eq_iff)
  qed
  show ?case
  proof (rule set_eqI)
    fix q
    show "q \<in> set (page_run p (Suc n)) \<longleftrightarrow>
        q \<in> {q. page_aligned q \<and> unat p \<le> unat q \<and> unat q < unat p + 4096 * Suc n}"
    proof (cases "unat q < unat p + 4096")
      case True
      then have "q \<notin> set (page_run (p + PGSIZE) n)" using IH by simp
      then show ?thesis using gap [of q] True Suc.prems(1) by auto
    next
      case False
      then have "q \<noteq> p" by auto
      then show ?thesis using IH False by simp
    qed
  qed
qed

lemma kinit_effect:
  assumes "freelist s = 0" and "0 < end_sym s" and "end_sym s \<le> PHYSTOP"
  shows "\<exists>t ps. kinit s = Ok () t \<and> kmem_ready (end_sym s) t \<and> free_pages t ps \<and>
    set ps = {p. kpage (end_sym s) p}"
proof -
  let ?e = "end_sym s" and ?s = "s\<lparr>held := removeAll L_kmem (held s)\<rparr>"
  let ?p = "PGROUNDUP ?e"
  define k where "k = (unat ?e + 4095) div 4096"
  define n where "n = 0x88000 - k"
  have e: "unat ?e \<le> 0x88000000" using assms(3) by (simp add: word_le_nat_alt layout_consts)
  then have p: "unat ?p = 4096 * k" by (simp add: k_def unat_PGROUNDUP)
  have k: "k \<le> 0x88000" "unat ?e \<le> 4096 * k" "4096 * k < unat ?e + 4096"
    using e by (simp_all add: k_def)
  have al: "page_aligned ?p" using p by (simp add: page_aligned_unat)
  have le: "?e \<le> ?p" using k p by (simp add: word_le_nat_alt)
  have sum: "unat ?p + 4096 * n = unat PHYSTOP" using p k(1) by (simp add: n_def layout_consts)
  have ready: "kmem_ready ?e ?s" "free_pages ?s []"
    using assms by (simp_all add: kmem_ready_def free_pages_def)
  obtain t where t: "freerange_loop ?p PHYSTOP ?s = Ok () t" "free_pages t (rev (page_run ?p n))"
    "kmem_ready ?e t"
    using freerange_loop_pages [OF ready al le sum] by auto
  have "set (page_run ?p n) = {p. kpage ?e p}"
  proof -
    have "unat ?p + 4096 * n < 2 ^ 64" using sum by (simp add: layout_consts)
    moreover have "unat ?p \<le> unat q \<longleftrightarrow> unat ?e \<le> unat q" if q: "page_aligned q" for q
    proof -
      obtain j where "unat q = 4096 * j" by (rule page_alignedE [OF q])
      then show ?thesis using p k by auto
    qed
    ultimately show ?thesis using sum
      by (auto simp: set_page_run [OF al] kpage_unat)
  qed
  then show ?thesis using t
    by (auto simp: kinit_def freerange_def init_lock_def m_simps)
qed

section \<open>Properties\<close>

text \<open>
  C18: \<^verbatim>\<open>kinit\<close> returns, and the free list then holds every page between the end of the kernel
  image and \<^verbatim>\<open>PHYSTOP\<close>, each exactly once.
\<close>

theorem kinit_frees_all_pages:
  assumes "freelist s = 0" and "0 < end_sym s" and "end_sym s \<le> PHYSTOP"
  shows "\<exists>t ps. kinit s = Ok () t \<and> linked (ram t) (freelist t) ps \<and> distinct ps \<and>
    set ps = {p. p mod PGSIZE = 0 \<and> end_sym s \<le> p \<and> p < PHYSTOP}"
proof -
  obtain t ps where "kinit s = Ok () t" "free_pages t ps" "set ps = {p. kpage (end_sym s) p}"
    using kinit_effect [OF assms] by blast
  then show ?thesis by (auto simp: free_pages_def kpage_def)
qed

definition kmem_demo :: kmem_st where
  "kmem_demo = \<lparr>end_sym = 0x87ffd123, etext_sym = 0x80008000, trampoline_sym = 0x80007000,
     held = [], pr_locking = True, tty = [], ram = (\<lambda>_. 0), freelist = 0\<rparr>"

theorem kinit_frees_all_pages_witness:
  "\<exists>t ps. kinit kmem_demo = Ok () t \<and> linked (ram t) (freelist t) ps \<and> distinct ps \<and>
    set ps = {p. p mod PGSIZE = 0 \<and> 0x87ffd123 \<le> p \<and> p < PHYSTOP}"
  using kinit_frees_all_pages [of kmem_demo] by (simp add: kmem_demo_def layout_consts)

text \<open>
  C17: After \<^verbatim>\<open>kinit\<close>, any sequence of \<^verbatim>\<open>kalloc\<close> calls and of \<^verbatim>\<open>kfree\<close> calls on pages still held
  returns; the pages held at the end are distinct, none of them is on the free list, and
  together with the free list they are all the pages of physical memory: no page is handed out
  twice and none is lost.
\<close>

theorem kalloc_kfree_account:
  assumes "freelist s = 0" and "0 < end_sym s" and "end_sym s \<le> PHYSTOP"
  shows "\<exists>live ps t. bnd kinit (\<lambda>_. client kalloc kfree ops []) s = Ok live t \<and>
    free_pages t ps \<and> distinct (ps @ live) \<and> set (ps @ live) = {p. kpage (end_sym s) p}"
proof -
  obtain t ps where t: "kinit s = Ok () t" "kmem_ready (end_sym s) t" "free_pages t ps"
    "set ps = {p. kpage (end_sym s) p}"
    using kinit_effect [OF assms] by blast
  have d: "distinct (ps @ [])" using t(3) by (simp add: free_pages_def)
  show ?thesis
    using kmem.client_safe [OF t(3,2) d, of ops] t by (auto simp: m_simps)
qed

theorem kalloc_kfree_account_witness:
  "\<exists>live ps t. bnd kinit (\<lambda>_. client kalloc kfree [Do_alloc, Do_alloc, Do_free 1, Do_alloc] [])
      kmem_demo = Ok live t \<and>
    free_pages t ps \<and> distinct (ps @ live) \<and> set (ps @ live) = {p. kpage 0x87ffd123 p}"
  using kalloc_kfree_account [of kmem_demo "[Do_alloc, Do_alloc, Do_free 1, Do_alloc]"]
  by (simp add: kmem_demo_def layout_consts)

end
