(* ===== verification/Vm.thy ===== *)
theory Vm
  imports Kalloc
begin

text \<open>
  \<^verbatim>\<open>kernel/vm.c\<close>: Sv39 page tables in byte memory and the routines that build, walk and free
  them and copy between the kernel and user memory. A page-table pointer, a \<^verbatim>\<open>pte_t *\<close> and a
  page are physical addresses (the kernel maps RAM at its own address). The kernel side of a copy
  is the list of bytes read or written there.
\<close>

section \<open>Walking and mapping\<close>

record vm_st = kmem_st +
  kernel_pagetable :: u64
  satp :: u64

text \<open>\<^verbatim>\<open>&pagetable[i]\<close>.\<close>

definition pte_addr :: "u64 \<Rightarrow> u64 \<Rightarrow> u64" where
  "pte_addr pagetable i = pagetable + 8 * i"

definition load_pte :: "u64 \<Rightarrow> (u64, 'a kmem_st_scheme) m" where
  "load_pte pte = gets (\<lambda>s. load64 (ram s) pte)"

definition store_pte :: "u64 \<Rightarrow> u64 \<Rightarrow> (unit, 'a kmem_st_scheme) m" where
  "store_pte pte v = set_ram (\<lambda>m. store64 m pte v)"

primrec walk_levels :: "nat \<Rightarrow> u64 \<Rightarrow> u64 \<Rightarrow> bool \<Rightarrow> (u64, 'a kmem_st_scheme) m" where
  "walk_levels 0 pagetable va alloc = ret (pte_addr pagetable (PX 0 va))"
| "walk_levels (Suc l) pagetable va alloc =
     (let pte = pte_addr pagetable (PX (Suc l) va) in
      bnd (load_pte pte) (\<lambda>e.
      if e AND PTE_V \<noteq> 0 then walk_levels l (PTE2PA e) va alloc
      else if \<not> alloc then ret 0
      else bnd kalloc (\<lambda>pagetable.
        if pagetable = 0 then ret 0
        else
          bnd (set_ram (\<lambda>m. memset m pagetable 0 (unat PGSIZE))) (\<lambda>_.
          bnd (store_pte pte (PA2PTE pagetable OR PTE_V)) (\<lambda>_.
          walk_levels l pagetable va alloc)))))"

definition walk :: "u64 \<Rightarrow> u64 \<Rightarrow> bool \<Rightarrow> (u64, 'a kmem_st_scheme) m" where
  "walk pagetable va alloc =
     bnd (panic_if (va \<ge> MAXVA) ''walk'') (\<lambda>_. walk_levels 2 pagetable va alloc)"

definition walkaddr :: "u64 \<Rightarrow> u64 \<Rightarrow> (u64, 'a kmem_st_scheme) m" where
  "walkaddr pagetable va =
     (if va \<ge> MAXVA then ret 0
      else bnd (walk pagetable va False) (\<lambda>pte.
        if pte = 0 then ret 0
        else bnd (load_pte pte) (\<lambda>e.
          if e AND PTE_V = 0 then ret 0
          else if e AND PTE_U = 0 then ret 0
          else ret (PTE2PA e))))"

lemma walk_lt: "walk pagetable va alloc s = Ok r t \<Longrightarrow> va < MAXVA"
  by (auto simp: walk_def m_simps not_le split: if_splits)

text \<open>Every loop over virtual pages ends at the latest when \<^verbatim>\<open>walk\<close> panics at \<^verbatim>\<open>MAXVA\<close>.\<close>

lemma walk_progress:
  assumes "walk pagetable a alloc s = Ok r t"
  shows "2 ^ 64 - unat (a + PGSIZE) < 2 ^ 64 - unat a"
  using page_step [OF walk_lt [OF assms]] u64_lt [of "a + PGSIZE"] by simp

function mappages_loop ::
  "u64 \<Rightarrow> u64 \<Rightarrow> u64 \<Rightarrow> u64 \<Rightarrow> u64 \<Rightarrow> (int, 'a kmem_st_scheme) m" where
  "mappages_loop pagetable a a_last pa perm s =
     bnd (walk pagetable a True) (\<lambda>pte.
       if pte = 0 then ret (-1)
       else
         bnd (load_pte pte) (\<lambda>e.
         bnd (panic_if (e AND PTE_V \<noteq> 0) ''mappages: remap'') (\<lambda>_.
         bnd (store_pte pte (PA2PTE pa OR perm OR PTE_V)) (\<lambda>_.
         if a = a_last then ret 0
         else mappages_loop pagetable (a + PGSIZE) a_last (pa + PGSIZE) perm)))) s"
  by auto
termination
  by (relation "measure (\<lambda>(pt, a, l, pa, perm, s). 2 ^ 64 - unat a)")
    (simp, simp only: in_measure prod.case, erule walk_progress)

declare mappages_loop.simps [simp del]

definition mappages :: "u64 \<Rightarrow> u64 \<Rightarrow> u64 \<Rightarrow> u64 \<Rightarrow> u64 \<Rightarrow> (int, 'a kmem_st_scheme) m" where
  "mappages pagetable va sz pa perm =
     bnd (panic_if (va mod PGSIZE \<noteq> 0) ''mappages: va not aligned'') (\<lambda>_.
     bnd (panic_if (sz mod PGSIZE \<noteq> 0) ''mappages: size not aligned'') (\<lambda>_.
     bnd (panic_if (sz = 0) ''mappages: size'') (\<lambda>_.
     mappages_loop pagetable va (va + sz - PGSIZE) pa perm)))"

definition kvmmap :: "u64 \<Rightarrow> u64 \<Rightarrow> u64 \<Rightarrow> u64 \<Rightarrow> u64 \<Rightarrow> (unit, 'a kmem_st_scheme) m" where
  "kvmmap kpgtbl va pa sz perm =
     bnd (mappages kpgtbl va sz pa perm) (\<lambda>r. panic_if (r \<noteq> 0) ''kvmmap'')"

definition proc_mapstacks :: "u64 \<Rightarrow> (unit, 'a kmem_st_scheme) m" where
  "proc_mapstacks kpgtbl = for_each [0..<NPROC] (\<lambda>p.
     bnd kalloc (\<lambda>pa.
     bnd (panic_if (pa = 0) ''kalloc'') (\<lambda>_.
     kvmmap kpgtbl (KSTACK p) pa PGSIZE (PTE_R OR PTE_W))))"

definition kvmmake :: "(u64, 'a kmem_st_scheme) m" where
  "kvmmake =
     bnd kalloc (\<lambda>kpgtbl.
     bnd (gets etext_sym) (\<lambda>etext.
     bnd (gets trampoline_sym) (\<lambda>trampoline.
     bnd (block [
       deref kpgtbl (set_ram (\<lambda>m. memset m kpgtbl 0 (unat PGSIZE))),
       kvmmap kpgtbl UART0 UART0 PGSIZE (PTE_R OR PTE_W),
       kvmmap kpgtbl VIRTIO0 VIRTIO0 PGSIZE (PTE_R OR PTE_W),
       kvmmap kpgtbl PLIC PLIC 0x4000000 (PTE_R OR PTE_W),
       kvmmap kpgtbl KERNBASE KERNBASE (etext - KERNBASE) (PTE_R OR PTE_X),
       kvmmap kpgtbl etext etext (PHYSTOP - etext) (PTE_R OR PTE_W),
       kvmmap kpgtbl TRAMPOLINE trampoline PGSIZE (PTE_R OR PTE_X),
       proc_mapstacks kpgtbl]) (\<lambda>_.
     ret kpgtbl))))"

definition kvminit :: "(unit, 'a vm_st_scheme) m" where
  "kvminit = bnd kvmmake (\<lambda>kpgtbl. modify (\<lambda>s. s\<lparr>kernel_pagetable := kpgtbl\<rparr>))"

definition kvminithart :: "(unit, 'a vm_st_scheme) m" where
  "kvminithart = modify (\<lambda>s. s\<lparr>satp := MAKE_SATP (kernel_pagetable s)\<rparr>)"

section \<open>User address spaces\<close>

function uvmunmap_loop ::
  "u64 \<Rightarrow> u64 \<Rightarrow> u64 \<Rightarrow> bool \<Rightarrow> (unit, 'a kmem_st_scheme) m" where
  "uvmunmap_loop pagetable a end_va do_free s =
     (if a < end_va
      then bnd (walk pagetable a False) (\<lambda>pte.
        bnd (panic_if (pte = 0) ''uvmunmap: walk'') (\<lambda>_.
        bnd (load_pte pte) (\<lambda>e.
        bnd (panic_if (e AND PTE_V = 0) ''uvmunmap: not mapped'') (\<lambda>_.
        bnd (panic_if (PTE_FLAGS e = PTE_V) ''uvmunmap: not a leaf'') (\<lambda>_.
        bnd (if_do do_free (kfree (PTE2PA e))) (\<lambda>_.
        bnd (store_pte pte 0) (\<lambda>_.
        uvmunmap_loop pagetable (a + PGSIZE) end_va do_free)))))))
      else ret ()) s"
  by auto
termination
  by (relation "measure (\<lambda>(pt, a, e, d, s). 2 ^ 64 - unat a)")
    (simp, simp only: in_measure prod.case, erule walk_progress)

declare uvmunmap_loop.simps [simp del]

definition uvmunmap :: "u64 \<Rightarrow> u64 \<Rightarrow> u64 \<Rightarrow> bool \<Rightarrow> (unit, 'a kmem_st_scheme) m" where
  "uvmunmap pagetable va npages do_free =
     bnd (panic_if (va mod PGSIZE \<noteq> 0) ''uvmunmap: not aligned'') (\<lambda>_.
     uvmunmap_loop pagetable va (va + npages * PGSIZE) do_free)"

definition uvmcreate :: "(u64, 'a kmem_st_scheme) m" where
  "uvmcreate =
     bnd kalloc (\<lambda>pagetable.
       if pagetable = 0 then ret 0
       else bnd (set_ram (\<lambda>m. memset m pagetable 0 (unat PGSIZE))) (\<lambda>_. ret pagetable))"

definition uvmfirst :: "u64 \<Rightarrow> u8 list \<Rightarrow> (unit, 'a kmem_st_scheme) m" where
  "uvmfirst pagetable src =
     bnd (panic_if (of_nat (length src) \<ge> PGSIZE) ''uvmfirst: more than a page'') (\<lambda>_.
     bnd kalloc (\<lambda>page. block [
       deref page (set_ram (\<lambda>m. memset m page 0 (unat PGSIZE))),
       ignore (mappages pagetable 0 PGSIZE page (PTE_W OR PTE_R OR PTE_X OR PTE_U)),
       set_ram (\<lambda>m. wr m page src)]))"

text \<open>\<^verbatim>\<open>int npages\<close>: the page count is truncated to 32 bits and sign-extended again.\<close>

definition uvmdealloc :: "u64 \<Rightarrow> u64 \<Rightarrow> u64 \<Rightarrow> (u64, 'a kmem_st_scheme) m" where
  "uvmdealloc pagetable oldsz newsz =
     (if newsz \<ge> oldsz then ret oldsz
      else bnd (if_do (PGROUNDUP newsz < PGROUNDUP oldsz)
          (let npages = (ucast ((PGROUNDUP oldsz - PGROUNDUP newsz) div PGSIZE) :: u32) in
           uvmunmap pagetable (PGROUNDUP newsz) (scast npages) True)) (\<lambda>_.
        ret newsz))"

lemma mappages_lt:
  assumes "mappages pagetable va PGSIZE pa perm s = Ok r t"
  shows "va < MAXVA"
proof -
  obtain u where "mappages_loop pagetable va va pa perm u = Ok r t"
    using assms by (auto simp: mappages_def m_simps split: if_splits)
  then show ?thesis by (subst (asm) mappages_loop.simps) (auto dest: walk_lt)
qed

function uvmalloc_loop ::
  "u64 \<Rightarrow> u64 \<Rightarrow> u64 \<Rightarrow> u64 \<Rightarrow> u64 \<Rightarrow> (u64, 'a kmem_st_scheme) m" where
  "uvmalloc_loop pagetable a oldsz newsz xperm s =
     (if a < newsz
      then bnd kalloc (\<lambda>page.
        if page = 0
        then bnd (uvmdealloc pagetable a oldsz) (\<lambda>_. ret 0)
        else
          bnd (set_ram (\<lambda>m. memset m page 0 (unat PGSIZE))) (\<lambda>_.
          bnd (mappages pagetable a PGSIZE page (PTE_R OR PTE_U OR xperm)) (\<lambda>r.
          if r \<noteq> 0
          then
            bnd (kfree page) (\<lambda>_.
            bnd (uvmdealloc pagetable a oldsz) (\<lambda>_. ret 0))
          else uvmalloc_loop pagetable (a + PGSIZE) oldsz newsz xperm)))
      else ret newsz) s"
  by auto
termination
proof (relation "measure (\<lambda>(pt, a, o', n, x, s). 2 ^ 64 - unat a)", goal_cases)
  case (2 pt a oldsz newsz xperm s page s1 u s2 r s3)
  then have "a < MAXVA" by (blast dest: mappages_lt)
  then show ?case using u64_lt [of "a + PGSIZE"] by (simp add: page_step)
qed simp

declare uvmalloc_loop.simps [simp del]

definition uvmalloc :: "u64 \<Rightarrow> u64 \<Rightarrow> u64 \<Rightarrow> u64 \<Rightarrow> (u64, 'a kmem_st_scheme) m" where
  "uvmalloc pagetable oldsz newsz xperm =
     (if newsz < oldsz then ret oldsz
      else uvmalloc_loop pagetable (PGROUNDUP oldsz) (PGROUNDUP oldsz) newsz xperm)"

text \<open>
  \<^verbatim>\<open>freewalk\<close> recurses into the table a non-leaf entry points to. The depth bound stands for the
  kernel stack: a page table that is deeper runs into the stack's guard page, which traps.
\<close>

primrec freewalk :: "nat \<Rightarrow> u64 \<Rightarrow> (unit, 'a kmem_st_scheme) m" where
  "freewalk 0 pagetable = panic ''kerneltrap''"
| "freewalk (Suc depth) pagetable = block [
     for_each [0..<512] (\<lambda>i.
       let slot = pte_addr pagetable (of_nat i) in
       bnd (load_pte slot) (\<lambda>pte.
         if pte AND PTE_V \<noteq> 0 \<and> pte AND (PTE_R OR PTE_W OR PTE_X) = 0
         then block [freewalk depth (PTE2PA pte), store_pte slot 0]
         else panic_if (pte AND PTE_V \<noteq> 0) ''freewalk: leaf'')),
     kfree pagetable]"

definition freewalk_depth :: nat where
  "freewalk_depth = 3"

definition uvmfree :: "u64 \<Rightarrow> u64 \<Rightarrow> (unit, 'a kmem_st_scheme) m" where
  "uvmfree pagetable sz = block [
     if_do (sz > 0) (uvmunmap pagetable 0 (PGROUNDUP sz div PGSIZE) True),
     freewalk freewalk_depth pagetable]"

function uvmcopy_loop :: "u64 \<Rightarrow> u64 \<Rightarrow> u64 \<Rightarrow> u64 \<Rightarrow> (int, 'a kmem_st_scheme) m" where
  "uvmcopy_loop old new i sz s =
     (if i < sz
      then bnd (walk old i False) (\<lambda>pte.
        bnd (panic_if (pte = 0) ''uvmcopy: pte should exist'') (\<lambda>_.
        bnd (load_pte pte) (\<lambda>e.
        bnd (panic_if (e AND PTE_V = 0) ''uvmcopy: page not present'') (\<lambda>_.
        bnd kalloc (\<lambda>page.
          if page = 0
          then bnd (uvmunmap new 0 (i div PGSIZE) True) (\<lambda>_. ret (-1))
          else
            bnd (set_ram (\<lambda>m. memmove m page (PTE2PA e) (unat PGSIZE))) (\<lambda>_.
            bnd (mappages new i PGSIZE page (PTE_FLAGS e)) (\<lambda>r.
            if r \<noteq> 0
            then
              bnd (kfree page) (\<lambda>_.
              bnd (uvmunmap new 0 (i div PGSIZE) True) (\<lambda>_. ret (-1)))
            else uvmcopy_loop old new (i + PGSIZE) sz)))))))
      else ret 0) s"
  by auto
termination
  by (relation "measure (\<lambda>(old, new, i, sz, s). 2 ^ 64 - unat i)")
    (simp, simp only: in_measure prod.case, erule walk_progress)

declare uvmcopy_loop.simps [simp del]

definition uvmcopy :: "u64 \<Rightarrow> u64 \<Rightarrow> u64 \<Rightarrow> (int, 'a kmem_st_scheme) m" where
  "uvmcopy old new sz = uvmcopy_loop old new 0 sz"

definition uvmclear :: "u64 \<Rightarrow> u64 \<Rightarrow> (unit, 'a kmem_st_scheme) m" where
  "uvmclear pagetable va =
     bnd (walk pagetable va False) (\<lambda>pte.
     bnd (panic_if (pte = 0) ''uvmclear'') (\<lambda>_.
     bnd (load_pte pte) (\<lambda>e. store_pte pte (e AND NOT PTE_U))))"

section \<open>Copying between kernel and user memory\<close>

text \<open>
  \<^verbatim>\<open>n = PGSIZE - (va - va0)\<close>, cut down to what is left: the bytes of the copy that lie on the
  page of \<open>va\<close>.
\<close>

definition page_rest :: "u64 \<Rightarrow> nat \<Rightarrow> nat" where
  "page_rest va len = min (unat (PGSIZE - (va - PGROUNDDOWN va))) len"

lemma page_rest_eq: "page_rest va len = min (4096 - unat va mod 4096) len"
proof -
  have "va - PGROUNDDOWN va \<le> 4096"
    by (simp add: word_le_nat_alt unat_page_offset)
  then show ?thesis by (simp add: page_rest_def layout_consts unat_sub unat_page_offset)
qed

lemma page_rest_pos: "0 < len \<Longrightarrow> 0 < page_rest va len"
  by (simp add: page_rest_eq)

function copyout :: "u64 \<Rightarrow> u64 \<Rightarrow> u8 list \<Rightarrow> (int, 'a kmem_st_scheme) m" where
  "copyout pagetable dstva src s =
     (if src \<noteq> []
      then let va0 = PGROUNDDOWN dstva in
        if va0 \<ge> MAXVA then ret (-1)
        else bnd (walk pagetable va0 False) (\<lambda>pte.
          if pte = 0 then ret (-1)
          else bnd (load_pte pte) (\<lambda>e.
            if e AND PTE_V = 0 \<or> e AND PTE_U = 0 \<or> e AND PTE_W = 0 then ret (-1)
            else let n = page_rest dstva (length src) in
              bnd (set_ram (\<lambda>m. wr m (PTE2PA e + (dstva - va0)) (take n src))) (\<lambda>_.
              copyout pagetable (va0 + PGSIZE) (drop n src))))
      else ret 0) s"
  by auto
termination
  by (relation "measure (\<lambda>(pt, va, src, s). length src)") (auto simp: page_rest_pos)

declare copyout.simps [simp del]

text \<open>\<^verbatim>\<open>copyin\<close> returns its result and the bytes it has stored at \<^verbatim>\<open>dst\<close> by then.\<close>

function copyin :: "u64 \<Rightarrow> u64 \<Rightarrow> nat \<Rightarrow> (int \<times> u8 list, 'a kmem_st_scheme) m" where
  "copyin pagetable srcva len s =
     (if len > 0
      then let va0 = PGROUNDDOWN srcva in
        bnd (walkaddr pagetable va0) (\<lambda>pa0.
          if pa0 = 0 then ret (-1, [])
          else let n = page_rest srcva len in
            bnd (gets (\<lambda>s. rd (ram s) (pa0 + (srcva - va0)) n)) (\<lambda>bs.
            bnd (copyin pagetable (va0 + PGSIZE) (len - n)) (\<lambda>r.
            ret (fst r, bs @ snd r))))
      else ret (0, [])) s"
  by auto
termination
  by (relation "measure (\<lambda>(pt, va, len, s). len)") (auto simp: page_rest_pos)

declare copyin.simps [simp del]

text \<open>The inner loop of \<^verbatim>\<open>copyinstr\<close>: what it stores, and whether it met the NUL.\<close>

fun str_chunk :: "u8 list \<Rightarrow> u8 list \<times> bool" where
  "str_chunk [] = ([], False)"
| "str_chunk (b # bs) =
     (if b = 0 then ([0], True) else (b # fst (str_chunk bs), snd (str_chunk bs)))"

function copyinstr :: "u64 \<Rightarrow> u64 \<Rightarrow> nat \<Rightarrow> (int \<times> u8 list, 'a kmem_st_scheme) m" where
  "copyinstr pagetable srcva len s =
     (if len > 0
      then let va0 = PGROUNDDOWN srcva in
        bnd (walkaddr pagetable va0) (\<lambda>pa0.
          if pa0 = 0 then ret (-1, [])
          else let n = page_rest srcva len in
            bnd (gets (\<lambda>s. str_chunk (rd (ram s) (pa0 + (srcva - va0)) n))) (\<lambda>c.
            if snd c then ret (0, fst c)
            else bnd (copyinstr pagetable (va0 + PGSIZE) (len - n)) (\<lambda>r.
              ret (fst r, fst c @ snd r))))
      else ret (-1, [])) s"
  by auto
termination
  by (relation "measure (\<lambda>(pt, va, len, s). len)") (auto simp: page_rest_pos)

declare copyinstr.simps [simp del]

end
