(* ===== verification/PageTable.thy ===== *)
theory PageTable
  imports Vm "HOL-Library.Sublist"
begin

text \<open>
  What the page-table routines of \<^verbatim>\<open>kernel/vm.c\<close> mean. A page table in byte memory is read as a
  tree of tables (\<open>follow\<close>) and as a translation (\<open>xlate\<close>). Well-formed tables
  (\<open>pt_wf\<close>: the tables of the tree are distinct pages) are kept by \<^verbatim>\<open>walk\<close> and
  \<^verbatim>\<open>mappages\<close>, which change the translation exactly as asked and hand no page out twice.
\<close>

section \<open>Entries of a table\<close>

definition ent :: "mem \<Rightarrow> u64 \<Rightarrow> nat \<Rightarrow> u64" where
  "ent m p i = load64 m (p + 8 * of_nat i)"

definition ix :: "nat \<Rightarrow> u64 \<Rightarrow> nat" where
  "ix l va = unat (PX l va)"

abbreviation valid_pte :: "u64 \<Rightarrow> bool" where
  "valid_pte e \<equiv> e AND PTE_V \<noteq> 0"

lemma ix_lt [simp]: "ix l va < 512"
proof -
  have "PX l va AND PXMASK = PX l va" by (simp add: PX_def and.assoc)
  then have "PX l va \<le> PXMASK" by (metis word_and_le1)
  then show ?thesis by (simp add: ix_def PXMASK_def word_le_nat_alt)
qed

lemma PX_ix: "PX l va = of_nat (ix l va)"
  by (simp add: ix_def)

lemma pte_addr_ix: "pte_addr p (PX l va) = p + 8 * of_nat (ix l va)"
  by (simp add: pte_addr_def PX_ix)

lemma slot_nat: "(8 :: u64) * of_nat i = of_nat (8 * i)"
  by simp

lemma within_page_slot:
  assumes "page_aligned p" and "i < 512"
  shows "within_page p (p + 8 * of_nat i) 8"
proof -
  have "unat (p + of_nat (8 * i)) mod 4096 = 8 * i"
    using assms by (subst unat_page_plus) (auto simp: page_aligned_unat mod_add_left_eq [symmetric])
  then show ?thesis
    using assms page_of_plus [of p "8 * i"] unfolding slot_nat by (simp add: within_page_def)
qed

lemma load64_store64_disjoint:
  "disjoint_run a 8 b 8 \<Longrightarrow> load64 (store64 m b v) a = load64 m a"
  by (simp add: load64_def store64_def rd_wr_disjoint)

lemma ent_store:
  assumes "page_aligned p" and "page_aligned q" and "i < 512" and "j < 512"
  shows "ent (store64 m (p + 8 * of_nat i) v) q j = (if q = p \<and> j = i then v else ent m q j)"
proof (cases "q = p")
  case True
  have "disjoint_run (p + 8 * of_nat j) 8 (p + 8 * of_nat i) 8" if "i \<noteq> j"
  proof -
    have "\<not> unat (p + 8 * of_nat j + of_nat k - (p + 8 * of_nat i)) < 8" if "k < 8" for k
    proof -
      have e: "p + 8 * of_nat j + of_nat k - (p + 8 * of_nat i) = (of_nat (8 * j + k) - of_nat (8 * i) :: u64)"
        by simp
      have "unat (of_nat (8 * j + k) :: u64) = 8 * j + k" "unat (of_nat (8 * i) :: u64) = 8 * i"
        using assms(3,4) that by (auto simp del: of_nat_add of_nat_mult intro!: unat_of_nat_lt)
      moreover have "8 * j + k < 8 * i \<or> 8 * i + 8 \<le> 8 * j + k" using \<open>i \<noteq> j\<close> that by linarith
      ultimately show ?thesis
        unfolding e using assms(3) by (auto simp only: unat_sub_if_size word_size split: if_splits) auto
    qed
    then show ?thesis by (simp add: disjoint_run_def)
  qed
  then show ?thesis using True
    by (auto simp: ent_def load64_store64_disjoint)
next
  case False
  have "rd (wr m (p + 8 * of_nat i) (le_bytes 8 v)) (q + 8 * of_nat j) 8 = rd m (q + 8 * of_nat j) 8"
    using assms False by (intro rd_wr_other_page [of q _ _ p]) (simp_all add: within_page_slot)
  then show ?thesis using False by (simp add: ent_def load64_def store64_def)
qed

lemma ent_memset_other:
  assumes "page_aligned p" and "page_aligned q" and "j < 512" and "q \<noteq> p"
  shows "ent (memset m p c (unat PGSIZE)) q j = ent m q j"
  using assms rd_wr_other_page [of q "q + 8 * of_nat j" 8 p p "replicate 4096 (ucast c)"]
  by (simp add: ent_def load64_def memset_eq layout_consts within_page_slot within_page_start)

lemma ent_memset_zero:
  assumes "page_aligned p" and "j < 512"
  shows "ent (memset m p 0 (unat PGSIZE)) p j = 0"
proof -
  have "rd (wr m p (replicate 4096 0)) (p + 8 * of_nat j) 8 = replicate 8 0"
  proof (rule nth_equalityI)
    fix k assume "k < length (rd (wr m p (replicate 4096 0)) (p + 8 * of_nat j) 8)"
    then have "k < 8" by simp
    moreover have "p + 8 * of_nat j + of_nat k = p + of_nat (8 * j + k)" by simp
    ultimately show "rd (wr m p (replicate 4096 0)) (p + 8 * of_nat j) 8 ! k = replicate 8 0 ! k"
      using assms(2) wr_at [of "8 * j + k" "replicate 4096 0" m p] by (simp add: add.assoc)
  qed simp
  moreover have "(push_bit 8 ^^ k) (0 :: u64) = 0" for k by (induction k) simp_all
  ultimately show ?thesis by (simp add: ent_def load64_def memset_eq layout_consts le_word_def)
qed

section \<open>The tree of tables\<close>

text \<open>The table reached from table \<open>p\<close> through the entries with the given indices.\<close>

fun follow :: "mem \<Rightarrow> u64 \<Rightarrow> nat list \<Rightarrow> u64 option" where
  "follow m p [] = Some p"
| "follow m p (i # is) =
     (if valid_pte (ent m p i) then follow m (PTE2PA (ent m p i)) is else None)"

text \<open>The table and index of the last-level entry for a virtual address, and the entry itself.\<close>

definition slot :: "mem \<Rightarrow> u64 \<Rightarrow> u64 \<Rightarrow> (u64 \<times> nat) option" where
  "slot m root va = map_option (\<lambda>p. (p, ix 0 va)) (follow m root [ix 2 va, ix 1 va])"

definition xlate :: "mem \<Rightarrow> u64 \<Rightarrow> u64 \<Rightarrow> u64" where
  "xlate m root va = (case slot m root va of None \<Rightarrow> 0 | Some (p, i) \<Rightarrow> ent m p i)"

definition path :: "nat list \<Rightarrow> bool" where
  "path is \<longleftrightarrow> length is \<le> 2 \<and> set is \<subseteq> {..<512}"

definition nodes :: "mem \<Rightarrow> u64 \<Rightarrow> u64 set" where
  "nodes m root = {p. \<exists>is. path is \<and> follow m root is = Some p}"

text \<open>The tables of the tree are distinct pages of allocatable memory.\<close>

definition pt_wf :: "u64 \<Rightarrow> mem \<Rightarrow> u64 \<Rightarrow> bool" where
  "pt_wf e m root \<longleftrightarrow> 0 < e \<and> (\<forall>is p. path is \<longrightarrow> follow m root is = Some p \<longrightarrow>
     kpage e p \<and> (\<forall>js. path js \<longrightarrow> follow m root js = Some p \<longrightarrow> js = is))"

lemma follow_snoc:
  "follow m p (is @ [i]) = (case follow m p is of None \<Rightarrow> None
     | Some q \<Rightarrow> if valid_pte (ent m q i) then Some (PTE2PA (ent m q i)) else None)"
  by (induction "is" arbitrary: p) auto

lemma path_Nil [simp]: "path []"
  by (simp add: path_def)

lemma path_snoc: "path (is @ [i]) \<longleftrightarrow> path is \<and> length is < 2 \<and> i < 512"
  by (auto simp: path_def)

lemma path_va [simp]:
  "path [ix 2 va]" "path [ix 2 va, ix 1 va]" "path [ix 2 va, ix (Suc 0) va]"
  by (simp_all add: path_def)

lemma pt_wf_kpage: "pt_wf e m root \<Longrightarrow> path is \<Longrightarrow> follow m root is = Some p \<Longrightarrow> kpage e p"
  by (auto simp: pt_wf_def)

lemma pt_wf_inj:
  "pt_wf e m root \<Longrightarrow> path is \<Longrightarrow> path js \<Longrightarrow> follow m root is = Some p \<Longrightarrow>
   follow m root js = Some p \<Longrightarrow> js = is"
  by (auto simp: pt_wf_def)

lemma pt_wf_aligned:
  "pt_wf e m root \<Longrightarrow> path is \<Longrightarrow> follow m root is = Some p \<Longrightarrow> page_aligned p"
  by (blast intro: kpage_aligned pt_wf_kpage)

lemma pt_wf_nonzero:
  "pt_wf e m root \<Longrightarrow> path is \<Longrightarrow> follow m root is = Some p \<Longrightarrow> p \<noteq> 0"
  by (metis kpage_nonzero pt_wf_def)

text \<open>The tree and the translation depend on the pages of the tables only.\<close>

lemma ent_cong:
  assumes "page_aligned p" and "i < 512" and "\<And>x. page_of x = p \<Longrightarrow> m' x = m x"
  shows "ent m' p i = ent m p i"
proof -
  have "rd m' (p + 8 * of_nat i) 8 = rd m (p + 8 * of_nat i) 8"
    by (rule nth_equalityI)
      (use within_page_nth [OF within_page_slot [OF assms(1,2)]] assms(3) in auto)
  then show ?thesis by (simp add: ent_def load64_def)
qed

lemma follow_cong:
  assumes "pt_wf e m root" and "path is"
    and "\<And>js p k. path js \<Longrightarrow> length js < 2 \<Longrightarrow> follow m root js = Some p \<Longrightarrow> k < 512 \<Longrightarrow>
      ent m' p k = ent m p k"
  shows "follow m' root is = follow m root is"
  using assms(2)
proof (induction "is" rule: rev_induct)
  case (snoc i "is")
  then show ?case using assms(3) [of "is"]
    by (auto simp: follow_snoc path_snoc split: option.splits)
qed simp

lemma frame_follow:
  assumes "pt_wf e m root" and "\<And>x. page_of x \<in> nodes m root \<Longrightarrow> m' x = m x" and "path is"
  shows "follow m' root is = follow m root is"
proof (rule follow_cong [OF assms(1,3)])
  fix js p k assume "path js" "follow m root js = Some p" "k < (512 :: nat)"
  then show "ent m' p k = ent m p k"
    using assms(1,2) by (intro ent_cong) (auto simp: nodes_def intro: pt_wf_aligned)
qed

lemma frame_xlate:
  assumes "pt_wf e m root" and "\<And>x. page_of x \<in> nodes m root \<Longrightarrow> m' x = m x"
  shows "xlate m' root va = xlate m root va"
proof -
  have f: "follow m' root [ix 2 va, ix 1 va] = follow m root [ix 2 va, ix 1 va]"
    using assms by (intro frame_follow) auto
  show ?thesis
  proof (cases "follow m root [ix 2 va, ix 1 va]")
    case None
    then show ?thesis using f by (simp only: xlate_def slot_def) simp
  next
    case (Some p)
    have "ent m' p (ix 0 va) = ent m p (ix 0 va)"
    proof (rule ent_cong)
      show "page_aligned p" using pt_wf_aligned [OF assms(1) _ Some] by simp
      show "m' x = m x" if "page_of x = p" for x
        using assms(2) that Some path_va(2) by (auto simp only: nodes_def mem_Collect_eq)
    qed simp
    then show ?thesis using f Some by (simp only: xlate_def slot_def) simp
  qed
qed

lemma frame_pt_wf:
  assumes "pt_wf e m root" and "\<And>x. page_of x \<in> nodes m root \<Longrightarrow> m' x = m x"
  shows "pt_wf e m' root" and "nodes m' root = nodes m root"
  using assms frame_follow [OF assms] by (auto simp: pt_wf_def nodes_def)

section \<open>Stores into the tree\<close>

text \<open>A last-level entry is written: the tree stays, the translation changes at one page.\<close>

lemma store_leaf_follow:
  assumes "pt_wf e m root" and "path is" and "length is = 2" and "follow m root is = Some p"
    and "i < 512" and "path js"
  shows "follow (store64 m (p + 8 * of_nat i) v) root js = follow m root js"
proof (rule follow_cong [OF assms(1,6)])
  fix ks q k assume ks: "path ks" "length ks < 2" "follow m root ks = Some q" "k < (512 :: nat)"
  then have "q \<noteq> p" using assms pt_wf_inj by fastforce
  then show "ent (store64 m (p + 8 * of_nat i) v) q k = ent m q k"
    using assms ks by (subst ent_store) (auto intro: pt_wf_aligned)
qed

lemma store_leaf_xlate:
  assumes "pt_wf e m root" and "slot m root va = Some (p, i)"
  shows "xlate (store64 m (p + 8 * of_nat i) v) root va' =
    (if slot m root va' = slot m root va then v else xlate m root va')"
proof -
  let ?m = "store64 m (p + 8 * of_nat i) v"
  have f: "follow m root [ix 2 va, ix 1 va] = Some p" "i = ix 0 va"
    using assms(2) by (auto simp: slot_def simp del: follow.simps)
  have "follow ?m root [ix 2 va', ix 1 va'] = follow m root [ix 2 va', ix 1 va']"
    by (rule store_leaf_follow [OF assms(1) path_va(2) _ f(1)]) (simp_all add: f(2))
  then have s: "slot ?m root va' = slot m root va'" by (simp only: slot_def)
  show ?thesis
  proof (cases "slot m root va'")
    case None
    then show ?thesis using s assms(2) by (simp add: xlate_def)
  next
    case (Some qj)
    obtain q where q: "qj = (q, ix 0 va')" "follow m root [ix 2 va', ix 1 va'] = Some q"
      using Some by (auto simp: slot_def simp del: follow.simps)
    have "page_aligned p" "page_aligned q"
      using pt_wf_aligned [OF assms(1) path_va(2)] f(1) q(2) by blast+
    then show ?thesis using s Some assms(2) q(1) f(2) by (simp add: xlate_def ent_store)
  qed
qed

text \<open>
  An empty interior entry gets a fresh zeroed table: the tree gains one node, the translation is
  unchanged.
\<close>

definition add_table :: "mem \<Rightarrow> u64 \<Rightarrow> nat \<Rightarrow> u64 \<Rightarrow> mem" where
  "add_table m p i q = store64 (memset m q 0 (unat PGSIZE)) (p + 8 * of_nat i) (PA2PTE q OR PTE_V)"

lemma PTE_V_nonzero [simp]: "PTE_V \<noteq> 0"
  by (simp add: layout_consts)

lemma valid_new_pte: "valid_pte (x OR PTE_V)"
proof -
  have "(x OR PTE_V) AND PTE_V = PTE_V" by (rule bit_word_eqI) (auto simp: bit_simps)
  then show ?thesis by (simp add: layout_consts)
qed

lemma valid_map_pte: "valid_pte (x OR y OR PTE_V)"
  using valid_new_pte [of "x OR y"] by (simp add: or.assoc)

definition fresh_table :: "u64 \<Rightarrow> mem \<Rightarrow> u64 \<Rightarrow> nat list \<Rightarrow> u64 \<Rightarrow> nat \<Rightarrow> u64 \<Rightarrow> bool" where
  "fresh_table e m root is p i q \<longleftrightarrow> pt_wf e m root \<and> path is \<and> length is < 2 \<and>
     follow m root is = Some p \<and> i < 512 \<and> \<not> valid_pte (ent m p i) \<and>
     kpage e q \<and> q \<notin> nodes m root"

lemma fresh_tableD:
  assumes "fresh_table e m root is p i q"
  shows "pt_wf e m root" and "path is" and "length is < 2" and "follow m root is = Some p"
    and "i < 512" and "\<not> valid_pte (ent m p i)" and "kpage e q" and "q \<notin> nodes m root"
    and "page_aligned p" and "page_aligned q" and "p \<noteq> q" and "path (is @ [i])"
    and "\<And>js r. path js \<Longrightarrow> follow m root js = Some r \<Longrightarrow> r \<noteq> q"
  using assms
  by (auto simp: fresh_table_def nodes_def path_snoc intro: pt_wf_aligned kpage_aligned)

lemma ent_add:
  assumes "fresh_table e m root is p i q" and "page_aligned r" and "k < 512"
  shows "ent (add_table m p i q) r k =
    (if r = p \<and> k = i then PA2PTE q OR PTE_V else if r = q then 0 else ent m r k)"
  using assms(2,3) fresh_tableD(5,9,10,11) [OF assms(1)]
  by (auto simp: add_table_def ent_store ent_memset_zero ent_memset_other)

lemma PTE2PA_table: "page_aligned q \<Longrightarrow> PTE2PA (PA2PTE q OR PTE_V) = q"
  using PTE2PA_PA2PTE [of q 0] by simp

lemma follow_add:
  assumes ft: "fresh_table e m root is p i q" and "path js"
  shows "follow (add_table m p i q) root js =
     (if js = is @ [i] then Some q
      else if strict_prefix (is @ [i]) js then None else follow m root js)"
  using assms(2)
proof (induction js rule: rev_induct)
  case Nil
  then show ?case by auto
next
  case (snoc k ks)
  note D = fresh_tableD [OF ft] and ent_add = ent_add [OF ft]
  let ?f = "follow (add_table m p i q) root ks"
  have k: "path ks" "k < 512" using snoc.prems by (simp_all add: path_snoc)
  consider "ks = is @ [i]" | "strict_prefix (is @ [i]) ks"
    | (old) "ks \<noteq> is @ [i]" "\<not> strict_prefix (is @ [i]) ks" by blast
  then show ?case
  proof cases
    case 1
    then have "?f = Some q" using snoc.IH k by simp
    moreover have "ent (add_table m p i q) q k = 0" using ent_add D(10,11) k by auto
    ultimately have "follow (add_table m p i q) root (ks @ [k]) = None"
      by (simp only: follow_snoc) simp
    then show ?thesis using 1 by (simp add: strict_prefix_def)
  next
    case 2
    then have "?f = None" using snoc.IH k by (auto simp: strict_prefix_def)
    then show ?thesis using 2 by (auto simp: follow_snoc strict_prefix_def)
  next
    case old
    then have f: "?f = follow m root ks" using snoc.IH k by simp
    have np: "\<not> strict_prefix (is @ [i]) (ks @ [k])" using old by (auto simp: strict_prefix_def)
    show ?thesis
    proof (cases "follow m root ks")
      case None
      then show ?thesis using f np D(4) by (auto simp: follow_snoc)
    next
      case (Some r)
      have r: "page_aligned r" "r \<noteq> q" using Some k D(1,13) by (auto intro: pt_wf_aligned)
      show ?thesis
      proof (cases "r = p")
        case True
        then have "ks = is" using pt_wf_inj [OF D(1,2) k(1) D(4)] Some by simp
        then show ?thesis using f np Some True D r k
          by (simp add: follow_snoc ent_add PTE2PA_table valid_new_pte)
      next
        case False
        then have "ks \<noteq> is" using D(4) Some by auto
        then show ?thesis using f np Some False r k by (simp add: follow_snoc ent_add)
      qed
    qed
  qed
qed

lemma follow_add_None:
  assumes "fresh_table e m root is p i q"
  shows "prefix (is @ [i]) js \<Longrightarrow> follow m root js = None"
proof (induction js rule: rev_induct)
  case (snoc k ks)
  then show ?case using fresh_tableD(4,6) [OF assms] by (auto simp: follow_snoc split: option.splits)
qed simp

lemma pt_wf_add:
  assumes ft: "fresh_table e m root is p i q"
  shows "pt_wf e (add_table m p i q) root"
  unfolding pt_wf_def
proof (intro conjI allI impI)
  note D = fresh_tableD [OF ft]
  show "0 < e" using D(1) by (simp add: pt_wf_def)
  fix js r assume js: "path js" and f: "follow (add_table m p i q) root js = Some r"
  show "kpage e r"
    using f js D by (auto simp: follow_add [OF ft] split: if_splits intro: pt_wf_kpage)
  fix ks assume ks: "path ks" and g: "follow (add_table m p i q) root ks = Some r"
  show "ks = js"
    using f g js ks D(13) pt_wf_inj [OF D(1) js ks, of r]
    by (auto simp: follow_add [OF ft] split: if_splits)
qed

lemma nodes_add:
  assumes ft: "fresh_table e m root is p i q"
  shows "nodes (add_table m p i q) root = insert q (nodes m root)"
proof (intro set_eqI iffI)
  fix r assume "r \<in> nodes (add_table m p i q) root"
  then show "r \<in> insert q (nodes m root)"
    by (auto simp: nodes_def follow_add [OF ft] split: if_splits)
next
  note new = fresh_tableD(12) [OF ft]
  fix r assume "r \<in> insert q (nodes m root)"
  then consider "r = q" | js where "path js" "follow m root js = Some r" by (auto simp: nodes_def)
  then show "r \<in> nodes (add_table m p i q) root"
  proof cases
    case 1
    then have "follow (add_table m p i q) root (is @ [i]) = Some r"
      using follow_add [OF ft new] by simp
    then show ?thesis using new by (auto simp: nodes_def)
  next
    case 2
    then have "\<not> prefix (is @ [i]) js" using follow_add_None [OF ft] by force
    then have "follow (add_table m p i q) root js = Some r"
      using 2 follow_add [OF ft] by (auto simp: strict_prefix_def)
    then show ?thesis using 2(1) by (auto simp: nodes_def)
  qed
qed

lemma xlate_add:
  assumes ft: "fresh_table e m root is p i q"
  shows "xlate (add_table m p i q) root va = xlate m root va"
proof -
  note D = fresh_tableD [OF ft] and ent_add = ent_add [OF ft]
  let ?js = "[ix 2 va, ix 1 va]"
  have f: "follow (add_table m p i q) root ?js = (if ?js = is @ [i] then Some q
      else if strict_prefix (is @ [i]) ?js then None else follow m root ?js)"
    by (rule follow_add [OF ft]) simp
  show ?thesis
  proof (cases "prefix (is @ [i]) ?js")
    case True
    then have old: "follow m root ?js = None" by (rule follow_add_None [OF ft])
    have "ent (add_table m p i q) q (ix 0 va) = 0" using ent_add D(10,11) by auto
    moreover have "follow (add_table m p i q) root ?js = Some q \<or>
        follow (add_table m p i q) root ?js = None"
    proof (cases "?js = is @ [i]")
      case True
      with f show ?thesis by (simp only: if_True) simp
    next
      case False
      with \<open>prefix (is @ [i]) ?js\<close> have "strict_prefix (is @ [i]) ?js"
        by (auto simp: strict_prefix_def)
      with f False show ?thesis by (simp only: if_True if_False) simp
    qed
    ultimately show ?thesis using old
      by (auto simp only: xlate_def slot_def option.map option.case prod.case)
  next
    case False
    then have f': "follow (add_table m p i q) root ?js = follow m root ?js"
      using f by (auto simp only: strict_prefix_def prefix_order.refl split: if_splits)
    show ?thesis
    proof (cases "follow m root ?js")
      case None
      then show ?thesis using f' by (simp only: xlate_def slot_def) simp
    next
      case (Some r)
      have "r \<noteq> q" using D(13) [OF _ Some] by simp
      moreover have "r \<noteq> p"
        using pt_wf_inj [OF D(1,2) _ D(4), of ?js] Some D(3) by fastforce
      moreover have "page_aligned r" using pt_wf_aligned [OF D(1) _ Some] by simp
      ultimately have "ent (add_table m p i q) r (ix 0 va) = ent m r (ix 0 va)"
        by (simp add: ent_add)
      then show ?thesis using f' Some by (simp only: xlate_def slot_def) simp
    qed
  qed
qed

section \<open>walk\<close>

text \<open>
  A state in which the page table at \<open>root\<close> is well-formed and shares no page with the free
  list \<open>ps\<close>; and what an operation on that table may do to memory: the pages of the tables and
  of the free list are conserved and no other page changes.
\<close>

definition vm_inv :: "u64 \<Rightarrow> u64 \<Rightarrow> u64 list \<Rightarrow> 'a kmem_st_scheme \<Rightarrow> bool" where
  "vm_inv e root ps s \<longleftrightarrow> kmem_ready e s \<and> free_pages s ps \<and> pt_wf e (ram s) root \<and>
     nodes (ram s) root \<inter> set ps = {}"

definition vm_ext :: "u64 \<Rightarrow> u64 list \<Rightarrow> mem \<Rightarrow> u64 list \<Rightarrow> mem \<Rightarrow> bool" where
  "vm_ext root ps m qs m' \<longleftrightarrow> nodes m' root \<union> set qs = nodes m root \<union> set ps \<and>
     (\<forall>x. page_of x \<notin> nodes m root \<union> set ps \<longrightarrow> m' x = m x)"

lemma vm_ext_refl [simp]: "vm_ext root ps m ps m"
  by (simp add: vm_ext_def)

lemma vm_ext_trans:
  "vm_ext root ps m qs m' \<Longrightarrow> vm_ext root qs m' rs m'' \<Longrightarrow> vm_ext root ps m rs m''"
  by (simp add: vm_ext_def)

lemma free_pages_frame:
  assumes "free_pages s ps" and "\<And>x. page_of x \<in> set ps \<Longrightarrow> m' x = ram s x"
  shows "free_pages (s\<lparr>ram := m'\<rparr>) ps"
proof -
  have "load64 m' q = load64 (ram s) q" if "q \<in> set ps" for q
  proof -
    have "page_aligned q" using assms(1) that by (auto simp: free_pages_def intro: kpage_aligned)
    then have "rd m' q 8 = rd (ram s) q 8"
      using assms(2) that within_page_nth [OF within_page_start [of q 8]]
      by (intro nth_equalityI) auto
    then show ?thesis by (simp add: load64_def)
  qed
  then show ?thesis using assms(1) linked_cong [of ps m' "ram s"] by (simp add: free_pages_def)
qed

lemma add_table_frame:
  assumes "page_aligned p" and "page_aligned q" and "i < 512" and "page_of x \<noteq> p" and "page_of x \<noteq> q"
  shows "add_table m p i q x = m x"
  using assms wr_other_page [of p "p + 8 * of_nat i" "le_bytes 8 (PA2PTE q OR PTE_V)" x]
  by (simp add: add_table_def store64_def within_page_slot page_fill_other)

lemma walk_grow:
  assumes inv: "vm_inv e root (q # qs) s" and "is": "path is" "length is < 2"
    and p: "follow (ram s) root is = Some p" and i: "i < 512" and empty: "\<not> valid_pte (ent (ram s) p i)"
    and t: "t = s\<lparr>freelist := load64 (ram s) q,
      ram := add_table (memset (ram s) q 5 (unat PGSIZE)) p i q\<rparr>"
  shows "vm_inv e root qs t" and "vm_ext root (q # qs) (ram s) qs (ram t)"
    and "xlate (ram t) root = xlate (ram s) root" and "follow (ram t) root (is @ [i]) = Some q"
proof -
  let ?m = "memset (ram s) q 5 (unat PGSIZE)"
  have rdy: "kmem_ready e s" and fp: "free_pages s (q # qs)" and wf: "pt_wf e (ram s) root"
    and dis: "nodes (ram s) root \<inter> set (q # qs) = {}" using inv by (auto simp: vm_inv_def)
  have q: "kpage e q" "page_aligned q" "q \<notin> set qs"
    using rdy fp by (auto simp: free_pages_def kmem_ready_def intro: kpage_aligned)
  have frame: "?m x = ram s x" if "page_of x \<in> nodes (ram s) root" for x
    using that dis q(2) by (intro page_fill_other) auto
  have pal: "page_aligned p" "p \<noteq> q" "p \<notin> set qs"
    using wf "is"(1) p dis by (auto simp: nodes_def intro: pt_wf_aligned)
  have "ent ?m p i = ent (ram s) p i" using pal q(2) i by (intro ent_memset_other) auto
  then have ft: "fresh_table e ?m root is p i q"
    using "is" p i q empty dis frame_pt_wf [OF wf frame] frame_follow [OF wf frame]
    by (simp add: fresh_table_def)
  have nodes: "nodes (ram t) root = insert q (nodes (ram s) root)"
    using nodes_add [OF ft] frame_pt_wf(2) [OF wf frame] by (simp add: t)
  have same: "ram t x = ram s x" if "page_of x \<noteq> p" "page_of x \<noteq> q" for x
    using that add_table_frame [OF pal(1) q(2) i, of x] page_fill_other [OF q(2), of x] by (simp add: t)
  have "free_pages t qs"
  proof (rule kalloc_Cons [OF rdy fp])
    fix u assume u: "free_pages u qs" "u = s\<lparr>freelist := load64 (ram s) q, ram := ?m\<rparr>"
    have "page_of x \<in> set qs \<Longrightarrow> add_table ?m p i q x = ?m x" for x
      using add_table_frame [OF pal(1) q(2) i, of x] pal(3) q(3) by blast
    with free_pages_frame [OF u(1), of "add_table ?m p i q"]
    show ?thesis by (simp add: u(2) t)
  qed
  then show "vm_inv e root qs t"
    using rdy dis q(3) nodes pt_wf_add [OF ft] by (auto simp: vm_inv_def kmem_ready_def t)
  show "vm_ext root (q # qs) (ram s) qs (ram t)"
    using nodes same "is"(1) p by (auto simp: vm_ext_def nodes_def)
  show "xlate (ram t) root = xlate (ram s) root"
    using xlate_add [OF ft] frame_xlate [OF wf frame] by (auto simp: t)
  show "follow (ram t) root (is @ [i]) = Some q"
    using follow_add [OF ft fresh_tableD(12) [OF ft]] by (simp add: t)
qed

lemma walk_level_step:
  assumes inv: "vm_inv e root ps s" and "is": "path is" "length is < 2"
    and p: "follow (ram s) root is = Some p"
  shows "walk_levels (Suc l) p va True s = Ok 0 s \<or>
    (\<exists>qs t p'. walk_levels (Suc l) p va True s = walk_levels l p' va True t \<and> vm_inv e root qs t \<and>
      vm_ext root ps (ram s) qs (ram t) \<and> xlate (ram t) root = xlate (ram s) root \<and>
      follow (ram t) root (is @ [ix (Suc l) va]) = Some p')"
proof (cases "valid_pte (ent (ram s) p (ix (Suc l) va))")
  case True
  then have "walk_levels (Suc l) p va True s =
      walk_levels l (PTE2PA (ent (ram s) p (ix (Suc l) va))) va True s"
    by (simp add: load_pte_def m_simps Let_def pte_addr_ix ent_def)
  moreover have "follow (ram s) root (is @ [ix (Suc l) va]) = Some (PTE2PA (ent (ram s) p (ix (Suc l) va)))"
    using True p by (simp add: follow_snoc)
  ultimately show ?thesis using inv vm_ext_refl by blast
next
  case False
  show ?thesis
  proof (cases ps)
    case Nil
    then have "kalloc s = Ok 0 s" using inv by (auto simp: vm_inv_def intro: kalloc_Nil)
    then show ?thesis using False by (simp add: load_pte_def m_simps Let_def pte_addr_ix ent_def)
  next
    case (Cons q qs)
    let ?t = "s\<lparr>freelist := load64 (ram s) q,
      ram := add_table (memset (ram s) q 5 (unat PGSIZE)) p (ix (Suc l) va) q\<rparr>"
    have "kmem_ready e s" "free_pages s (q # qs)" using inv Cons by (auto simp: vm_inv_def)
    then have k: "kalloc s = Ok q (s\<lparr>freelist := load64 (ram s) q,
        ram := memset (ram s) q 5 (unat PGSIZE)\<rparr>)" "q \<noteq> 0"
      by (auto intro: kalloc_page simp: free_pages_def)
    have "walk_levels (Suc l) p va True s = walk_levels l q va True ?t"
      using False k by (simp add: load_pte_def store_pte_def set_ram_def m_simps Let_def pte_addr_ix
        ent_def add_table_def)
    then show ?thesis
      using walk_grow [OF inv [unfolded Cons] "is" p ix_lt False refl] Cons by blast
  qed
qed

lemma walk_alloc:
  assumes inv: "vm_inv e root ps s" and va: "va < MAXVA"
  shows "\<exists>r t qs. walk root va True s = Ok r t \<and> vm_inv e root qs t \<and>
    vm_ext root ps (ram s) qs (ram t) \<and> xlate (ram t) root = xlate (ram s) root \<and>
    (r = 0 \<or> (\<exists>q. slot (ram t) root va = Some (q, ix 0 va) \<and> q \<noteq> 0 \<and>
       r = q + 8 * of_nat (ix 0 va)))"
proof -
  have w: "walk root va True s = walk_levels (Suc (Suc 0)) root va True s"
    using va by (simp add: walk_def m_simps numeral_2_eq_2 not_le [symmetric])
  consider "walk_levels (Suc (Suc 0)) root va True s = Ok 0 s"
    | qs t p where "walk_levels (Suc (Suc 0)) root va True s = walk_levels (Suc 0) p va True t"
      "vm_inv e root qs t" "vm_ext root ps (ram s) qs (ram t)"
      "xlate (ram t) root = xlate (ram s) root" "follow (ram t) root ([] @ [ix 2 va]) = Some p"
    using walk_level_step [OF inv, of "[]" root "Suc 0" va] by (auto simp: numeral_2_eq_2)
  then show ?thesis
  proof cases
    case 1
    then show ?thesis using w inv vm_ext_refl by metis
  next
    case 2
    have "path ([] @ [ix 2 va])" "length ([] @ [ix 2 va]) < 2" by simp_all
    from walk_level_step [OF 2(2) this 2(5), of 0 va] consider
        "walk_levels (Suc 0) p va True t = Ok 0 t"
      | rs u q where "walk_levels (Suc 0) p va True t = walk_levels 0 q va True u"
        "vm_inv e root rs u" "vm_ext root qs (ram t) rs (ram u)"
        "xlate (ram u) root = xlate (ram t) root"
        "follow (ram u) root (([] @ [ix 2 va]) @ [ix (Suc 0) va]) = Some q"
      by blast
    then show ?thesis
    proof cases
      case 1
      then show ?thesis using w 2 by metis
    next
      case inner: 2
      have f: "follow (ram u) root [ix 2 va, ix 1 va] = Some q" using inner(5) by simp
      then have "slot (ram u) root va = Some (q, ix 0 va)" by (simp only: slot_def) simp
      moreover have "pt_wf e (ram u) root" using inner(2) by (simp add: vm_inv_def)
      then have "q \<noteq> 0" using pt_wf_nonzero [OF _ _ f] by simp
      moreover have "walk root va True s = Ok (q + 8 * of_nat (ix 0 va)) u"
        using w 2(1) inner(1) by (simp add: m_simps pte_addr_ix)
      ultimately show ?thesis using inner 2 vm_ext_trans [OF 2(3) inner(3)] by auto
    qed
  qed
qed

section \<open>Virtual pages\<close>

lemma bit_PX: "bit (PX l va) k \<longleftrightarrow> k < 9 \<and> bit va (12 + 9 * l + k)"
proof -
  have mask: "PXMASK = mask 9" by (simp add: PXMASK_def mask_eq_exp_minus_1)
  show ?thesis unfolding PX_def PXSHIFT_def PGSHIFT_def mask by (auto simp: bit_simps)
qed

lemma bit_page_of: "bit (page_of va) n \<longleftrightarrow> 12 \<le> n \<and> bit va n"
  by (simp only: PGROUNDDOWN_def PGSIZE_def page_mask)
    (auto simp: bit_simps dest: bit_imp_le_length)

lemma ix_page:
  assumes "page_of a = page_of b"
  shows "ix l a = ix l b"
proof -
  have "PX l a = PX l b"
  proof (rule bit_word_eqI)
    fix k
    have "bit a (12 + 9 * l + k) = bit b (12 + 9 * l + k)"
      using bit_page_of [of a] bit_page_of [of b] assms by (metis le_add1 add.assoc)
    then show "bit (PX l a) k = bit (PX l b) k" by (simp add: bit_PX)
  qed
  then show ?thesis by (simp add: ix_def)
qed

lemma MAXVA_bits:
  assumes "va < MAXVA" and "38 \<le> n"
  shows "\<not> bit va n"
proof -
  have "unat va < 2 ^ 38" using assms(1) by (simp add: MAXVA_val word_less_nat_alt)
  then have "take_bit 38 va = va" by (simp add: take_bit_eq_mod word_unat_eq_iff unat_mod)
  then show ?thesis using assms(2) by (metis bit_take_bit_iff not_le)
qed

lemma ix_inj:
  assumes "a < MAXVA" and "b < MAXVA" and "ix 0 a = ix 0 b" and "ix 1 a = ix 1 b" and "ix 2 a = ix 2 b"
  shows "page_of a = page_of b"
proof (rule bit_word_eqI)
  fix n
  have PX: "PX l a = PX l b" if "l < 3" for l
    using assms(3-5) that
    by (auto simp: ix_def word_unat_eq_iff less_Suc_eq numeral_3_eq_3 numeral_2_eq_2)
  show "bit (page_of a) n = bit (page_of b) n"
  proof (cases "12 \<le> n \<and> n < 38")
    case True
    define l k where "l = (n - 12) div 9" and "k = (n - 12) mod 9"
    have n: "n = 12 + 9 * l + k" and "l < 3" "k < 9" using True by (auto simp: l_def k_def)
    then show ?thesis using PX [of l] bit_PX [of l a k] bit_PX [of l b k] True
      by (simp add: bit_page_of)
  next
    case False
    then show ?thesis using assms(1,2) MAXVA_bits by (auto simp: bit_page_of not_less)
  qed
qed

lemma slot_page:
  assumes "page_of a = page_of b"
  shows "slot m root a = slot m root b"
  by (simp only: slot_def ix_page [OF assms])

lemma xlate_page:
  assumes "page_of a = page_of b"
  shows "xlate m root a = xlate m root b"
  by (simp only: xlate_def slot_page [OF assms])

lemma slot_eq_iff:
  assumes "pt_wf e m root" and "a < MAXVA" and "b < MAXVA" and "slot m root a = Some (p, i)"
  shows "slot m root b = slot m root a \<longleftrightarrow> page_of b = page_of a"
proof
  assume "slot m root b = slot m root a"
  then have "follow m root [ix 2 b, ix 1 b] = Some p" "follow m root [ix 2 a, ix 1 a] = Some p"
    "ix 0 b = ix 0 a"
    using assms(4) by (auto simp: slot_def simp del: follow.simps)
  then have "[ix 2 b, ix 1 b] = [ix 2 a, ix 1 a]" "ix 0 b = ix 0 a"
    using pt_wf_inj [OF assms(1) path_va(2) path_va(2)] by blast+
  then show "page_of b = page_of a" using ix_inj [OF assms(3,2)] by simp
qed (rule slot_page)

text \<open>The routines read the translation.\<close>

lemma walk_lookup:
  assumes "va < MAXVA"
  shows "walk root va False s = Ok (case slot (ram s) root va of None \<Rightarrow> 0
    | Some (p, i) \<Rightarrow> p + 8 * of_nat i) s"
  using assms
  by (simp add: walk_def m_simps numeral_2_eq_2 load_pte_def pte_addr_ix slot_def not_le [symmetric]
      Let_def flip: ent_def)

lemma slot_ptr_nonzero:
  assumes "pt_wf e m root" and "slot m root va = Some (p, i)"
  shows "p + 8 * of_nat i \<noteq> 0" and "page_aligned p" and "i < 512" and "p \<in> nodes m root"
proof -
  have f: "follow m root [ix 2 va, ix 1 va] = Some p" and i: "i = ix 0 va"
    using assms(2) by (auto simp: slot_def simp del: follow.simps)
  then show al: "page_aligned p" "i < 512" "p \<in> nodes m root"
    using pt_wf_aligned [OF assms(1) path_va(2)] path_va(2) by (auto simp only: nodes_def ix_lt)
  have "p \<noteq> 0" using pt_wf_nonzero [OF assms(1) path_va(2) f] .
  moreover have "unat (p + of_nat (8 * i)) = unat p + 8 * i"
    using al by (intro unat_page_plus) auto
  ultimately show "p + 8 * of_nat i \<noteq> 0"
    by (metis add_is_0 of_nat_mult of_nat_numeral unat_0 unat_eq_zero)
qed

lemma walkaddr_xlate:
  assumes "pt_wf e (ram s) root"
  shows "walkaddr root va s = Ok (if va < MAXVA \<and> valid_pte (xlate (ram s) root va) \<and>
      xlate (ram s) root va AND PTE_U \<noteq> 0 then PTE2PA (xlate (ram s) root va) else 0) s"
proof (cases "va < MAXVA")
  case True
  show ?thesis
  proof (cases "slot (ram s) root va")
    case None
    then show ?thesis using True
      by (simp add: walkaddr_def m_simps walk_lookup xlate_def not_le [symmetric])
  next
    case (Some pi)
    obtain p i where pi: "pi = (p, i)" by fastforce
    then have "p + 8 * of_nat i \<noteq> 0" using slot_ptr_nonzero [OF assms] Some by blast
    then show ?thesis using True Some pi
      by (auto simp: walkaddr_def m_simps walk_lookup xlate_def load_pte_def ent_def not_le [symmetric])
  qed
next
  case False
  then have "MAXVA \<le> va" by simp
  then show ?thesis using False by (simp only: walkaddr_def if_apply ret_apply if_True) simp
qed

section \<open>mappages\<close>

text \<open>One page is mapped: the allocating walk, then the store of the entry.\<close>

lemma store_leaf_inv:
  assumes inv: "vm_inv e root ps s" and slot: "slot (ram s) root va = Some (p, i)"
    and t: "t = s\<lparr>ram := store64 (ram s) (p + 8 * of_nat i) v\<rparr>"
  shows "vm_inv e root ps t" and "vm_ext root ps (ram s) ps (ram t)"
proof -
  have wf: "pt_wf e (ram s) root" and dis: "nodes (ram s) root \<inter> set ps = {}"
    using inv by (auto simp: vm_inv_def)
  note S = slot_ptr_nonzero [OF wf slot]
  have f: "follow (ram s) root [ix 2 va, ix 1 va] = Some p"
    using slot by (auto simp: slot_def simp del: follow.simps)
  have same: "path js \<Longrightarrow> follow (ram t) root js = follow (ram s) root js" for js
    using store_leaf_follow [OF wf path_va(2) _ f S(3)] by (simp add: t)
  then have nodes: "nodes (ram t) root = nodes (ram s) root" by (auto simp: nodes_def)
  have wf': "pt_wf e (ram t) root" using wf same by (auto simp: pt_wf_def)
  have frame: "ram t x = ram s x" if "page_of x \<noteq> p" for x
    using that within_page_slot [OF S(2,3)] by (simp add: t store64_def wr_other_page)
  have "free_pages t ps" unfolding t
  proof (rule free_pages_frame)
    show "free_pages s ps" using inv by (simp add: vm_inv_def)
    show "store64 (ram s) (p + 8 * of_nat i) v x = ram s x" if "page_of x \<in> set ps" for x
      using frame [of x] that S(4) dis by (auto simp: t)
  qed
  then show "vm_inv e root ps t"
    using inv wf' dis nodes by (auto simp: vm_inv_def kmem_ready_def t)
  show "vm_ext root ps (ram s) ps (ram t)"
  proof -
    have "ram t x = ram s x" if "page_of x \<notin> nodes (ram s) root \<union> set ps" for x
      using frame [of x] that S(4) by auto
    then show ?thesis using nodes by (simp add: vm_ext_def)
  qed
qed

lemma map_one:
  assumes inv: "vm_inv e root ps s" and a: "a < MAXVA"
    and free: "\<not> valid_pte (xlate (ram s) root a)"
  obtains (oom) t qs where "walk root a True s = Ok 0 t" "vm_inv e root qs t"
      "vm_ext root ps (ram s) qs (ram t)" "xlate (ram t) root = xlate (ram s) root"
  | (ok) r t qs where "walk root a True s = Ok r t" "r \<noteq> 0" "\<not> valid_pte (load64 (ram t) r)"
      "\<And>v. vm_inv e root qs (t\<lparr>ram := store64 (ram t) r v\<rparr>)"
      "\<And>v. vm_ext root ps (ram s) qs (store64 (ram t) r v)"
      "\<And>v va. va < MAXVA \<Longrightarrow> xlate (store64 (ram t) r v) root va =
        (if page_of va = page_of a then v else xlate (ram s) root va)"
proof -
  obtain r t qs where w: "walk root a True s = Ok r t" "vm_inv e root qs t"
    "vm_ext root ps (ram s) qs (ram t)" "xlate (ram t) root = xlate (ram s) root"
    and r: "r = 0 \<or> (\<exists>q. slot (ram t) root a = Some (q, ix 0 a) \<and> q \<noteq> 0 \<and>
       r = q + 8 * of_nat (ix 0 a))"
    using walk_alloc [OF inv a] by blast
  show thesis
  proof (cases "r = 0")
    case True
    then show thesis using w oom by blast
  next
    case False
    then obtain q where q: "slot (ram t) root a = Some (q, ix 0 a)" "r = q + 8 * of_nat (ix 0 a)"
      using r by blast
    have wf: "pt_wf e (ram t) root" using w(2) by (simp add: vm_inv_def)
    show thesis
    proof (rule ok [OF w(1) False, of qs])
      have "load64 (ram t) r = xlate (ram t) root a" using q by (simp add: xlate_def ent_def)
      then show "\<not> valid_pte (load64 (ram t) r)" using free w(4) by simp
      fix v
      note st = store_leaf_inv [OF w(2) q(1), OF refl, of v, folded q(2)]
      show "vm_inv e root qs (t\<lparr>ram := store64 (ram t) r v\<rparr>)" by (rule st(1))
      show "vm_ext root ps (ram s) qs (store64 (ram t) r v)"
        using vm_ext_trans [OF w(3)] st(2) by simp
      fix va assume va: "va < MAXVA"
      show "xlate (store64 (ram t) r v) root va =
          (if page_of va = page_of a then v else xlate (ram s) root va)"
        using store_leaf_xlate [OF wf q(1), of v va] slot_eq_iff [OF wf a va q(1)] w(4) q(2) by simp
    qed
  qed
qed

text \<open>The virtual addresses of the \<open>Suc n\<close> pages from \<open>a\<close> on, and the entry each gets.\<close>

definition in_run :: "u64 \<Rightarrow> nat \<Rightarrow> u64 \<Rightarrow> bool" where
  "in_run a n va \<longleftrightarrow> unat a \<le> unat va \<and> unat va < unat a + 4096 * Suc n"

definition run_pte :: "u64 \<Rightarrow> u64 \<Rightarrow> u64 \<Rightarrow> u64 \<Rightarrow> u64" where
  "run_pte a pa perm va = PA2PTE (pa + (page_of va - a)) OR perm OR PTE_V"

lemma in_run_0:
  assumes "page_aligned a"
  shows "in_run a 0 va \<longleftrightarrow> page_of va = a"
proof -
  obtain k where "unat a = 4096 * k" by (rule page_alignedE [OF assms])
  moreover have "unat va = 4096 * (unat va div 4096) + unat va mod 4096" by simp
  ultimately show ?thesis
    unfolding in_run_def word_unat_eq_iff unat_PGROUNDDOWN by auto
qed

lemma in_run_Suc:
  assumes "page_aligned a" and "a < MAXVA"
  shows "in_run a (Suc n) va \<longleftrightarrow> page_of va = a \<or> in_run (a + PGSIZE) n va"
  using in_run_0 [OF assms(1), of va] page_step [OF assms(2)] by (auto simp: in_run_def)

lemma mappages_loop_spec:
  assumes "vm_inv e root ps s" and "page_aligned a" and "unat a + 4096 * n < unat MAXVA"
    and "\<And>va. va < MAXVA \<Longrightarrow> in_run a n va \<Longrightarrow> \<not> valid_pte (xlate (ram s) root va)"
  shows "\<exists>r t qs. mappages_loop root a (a + of_nat (4096 * n)) pa perm s = Ok r t \<and>
    vm_inv e root qs t \<and> vm_ext root ps (ram s) qs (ram t) \<and> (r = 0 \<or> r = -1) \<and>
    (\<forall>va<MAXVA. \<not> in_run a n va \<longrightarrow> xlate (ram t) root va = xlate (ram s) root va) \<and>
    (r = 0 \<longrightarrow> (\<forall>va<MAXVA. in_run a n va \<longrightarrow> xlate (ram t) root va = run_pte a pa perm va))"
  using assms
proof (induction n arbitrary: a pa s ps)
  case 0
  then have a: "a < MAXVA" "page_of a = a" by (simp_all add: word_less_nat_alt page_of_aligned)
  have free: "\<not> valid_pte (xlate (ram s) root a)"
    using 0 a by (simp add: in_run_0)
  show ?case
  proof (rule map_one [OF 0(1) a(1) free], goal_cases)
    case (1 t qs)
    then show ?case by (subst mappages_loop.simps) (auto simp: m_simps)
  next
    case (2 r t qs)
    let ?v = "PA2PTE pa OR perm OR PTE_V"
    have "mappages_loop root a (a + of_nat (4096 * 0)) pa perm s =
        Ok 0 (t\<lparr>ram := store64 (ram t) r ?v\<rparr>)"
      using 2(1-3)
      by (subst mappages_loop.simps) (simp add: m_simps load_pte_def store_pte_def set_ram_def)
    then show ?case using 2(4,5) [of ?v] 2(6) [of _ ?v] 0(2) a
      by (auto simp: in_run_0 run_pte_def)
  qed
next
  case (Suc n)
  have "unat a < unat MAXVA" using Suc.prems(3) by linarith
  then have a: "a < MAXVA" "page_of a = a"
    using Suc.prems(2) by (simp_all only: word_less_nat_alt page_of_aligned)
  note run = in_run_Suc [OF Suc.prems(2) a(1)]
  have free: "\<not> valid_pte (xlate (ram s) root a)" using Suc.prems(4) a run by blast
  have al: "page_aligned (a + PGSIZE)"
    using Suc.prems(2) page_step [OF a(1)] by (simp add: page_aligned_unat)
  have last': "a + of_nat (4096 * Suc n) = a + PGSIZE + of_nat (4096 * n)"
    by (simp add: layout_consts algebra_simps)
  have neq: "a \<noteq> a + of_nat (4096 * Suc n)"
  proof
    assume "a = a + of_nat (4096 * Suc n)"
    then have "(of_nat (4096 * Suc n) :: u64) = 0" by (metis add_cancel_right_right)
    moreover have "4096 * Suc n < 2 ^ 64" using Suc.prems(3) by (simp add: layout_consts)
    ultimately show False using unat_of_nat_lt [of "4096 * Suc n"] by simp
  qed
  show ?case
  proof (rule map_one [OF Suc.prems(1) a(1) free], goal_cases)
    case (1 t qs)
    then show ?case by (subst mappages_loop.simps) (auto simp: m_simps)
  next
    case (2 r t qs)
    let ?v = "PA2PTE pa OR perm OR PTE_V"
    let ?t = "t\<lparr>ram := store64 (ram t) r ?v\<rparr>"
    have loop: "mappages_loop root a (a + of_nat (4096 * Suc n)) pa perm s =
        mappages_loop root (a + PGSIZE) (a + PGSIZE + of_nat (4096 * n)) (pa + PGSIZE) perm ?t"
      using 2(1-3) neq unfolding last'
      by (subst mappages_loop.simps) (simp add: m_simps load_pte_def store_pte_def set_ram_def)
    have not_both: "page_of va \<noteq> a" if "in_run (a + PGSIZE) n va" for va
      using that page_step [OF a(1)] in_run_0 [OF Suc.prems(2), of va] by (auto simp: in_run_def)
    have "\<exists>r t' qs'. mappages_loop root (a + PGSIZE) (a + PGSIZE + of_nat (4096 * n)) (pa + PGSIZE) perm ?t = Ok r t' \<and>
      vm_inv e root qs' t' \<and> vm_ext root qs (ram ?t) qs' (ram t') \<and> (r = 0 \<or> r = -1) \<and>
      (\<forall>va<MAXVA. \<not> in_run (a + PGSIZE) n va \<longrightarrow> xlate (ram t') root va = xlate (ram ?t) root va) \<and>
      (r = 0 \<longrightarrow> (\<forall>va<MAXVA. in_run (a + PGSIZE) n va \<longrightarrow>
         xlate (ram t') root va = run_pte (a + PGSIZE) (pa + PGSIZE) perm va))"
    proof (rule Suc.IH [OF 2(4) al])
      show "unat (a + PGSIZE) + 4096 * n < unat MAXVA"
        using Suc.prems(3) page_step [OF a(1)] by simp
      show "\<not> valid_pte (xlate (ram ?t) root va)" if "va < MAXVA" "in_run (a + PGSIZE) n va" for va
        using that 2(6) [of va ?v] not_both Suc.prems(4) run a(2) by simp
    qed
    then obtain r' t' qs' where IH: "mappages_loop root a (a + of_nat (4096 * Suc n)) pa perm s = Ok r' t'"
      "vm_inv e root qs' t'" "vm_ext root qs (ram ?t) qs' (ram t')" "r' = 0 \<or> r' = -1"
      "\<And>va. va < MAXVA \<Longrightarrow> \<not> in_run (a + PGSIZE) n va \<Longrightarrow> xlate (ram t') root va = xlate (ram ?t) root va"
      "\<And>va. r' = 0 \<Longrightarrow> va < MAXVA \<Longrightarrow> in_run (a + PGSIZE) n va \<Longrightarrow>
        xlate (ram t') root va = run_pte (a + PGSIZE) (pa + PGSIZE) perm va"
      unfolding loop by blast
    have ext: "vm_ext root ps (ram s) qs' (ram t')"
      using vm_ext_trans [OF 2(5) [of ?v]] IH(3) by simp
    have out: "xlate (ram t') root va = xlate (ram s) root va"
      if "va < MAXVA" "\<not> in_run a (Suc n) va" for va
      using that run IH(5) [of va] 2(6) [of va ?v] a(2) by simp
    have inside: "xlate (ram t') root va = run_pte a pa perm va"
      if "r' = 0" "va < MAXVA" "in_run a (Suc n) va" for va
    proof (cases "page_of va = a")
      case True
      then have "xlate (ram t') root va = ?v"
        using that(2) IH(5) [of va] 2(6) [of va ?v] a(2) not_both by auto
      then show ?thesis using True by (simp add: run_pte_def)
    next
      case False
      then show ?thesis using that run IH(6) [of va] by (simp add: run_pte_def)
    qed
    show ?case using IH(1,2,4) ext out inside by blast
  qed
qed

section \<open>An empty table\<close>

lemma empty_table:
  assumes "kpage e root" and "0 < e" and "\<And>i. i < 512 \<Longrightarrow> ent m root i = 0"
  shows "pt_wf e m root" and "nodes m root = {root}" and "xlate m root va = 0"
proof -
  have f: "follow m root is = (if is = [] then Some root else None)" if "path is" for "is"
    using that assms(3) by (cases "is") (auto simp: path_def)
  show "pt_wf e m root" using assms(1,2) f by (auto simp: pt_wf_def split: if_splits)
  show "nodes m root = {root}" using f by (auto simp: nodes_def split: if_splits intro: exI [of _ "[]"])
  have "follow m root [ix 2 va, ix 1 va] = None" using f [OF path_va(2)] by (simp only: if_False) simp
  then show "xlate m root va = 0" by (simp only: xlate_def slot_def) simp
qed

lemma load64_zero [simp]: "load64 (\<lambda>_. 0) a = 0"
proof -
  have "(push_bit 8 ^^ k) (0 :: u64) = 0" for k by (induction k) simp_all
  moreover have "rd (\<lambda>_. 0) a 8 = replicate 8 0" by (simp add: rd_def map_replicate_const)
  ultimately show ?thesis by (simp add: load64_def le_word_def)
qed

section \<open>Properties\<close>

lemma page_aligned_offset:
  assumes "page_aligned a" and "page_aligned b" and "page_aligned c"
  shows "page_aligned (a + (b - c))"
proof -
  have mult: "x = 4096 * (x div 4096)" if "page_aligned x" for x
    using page_of_aligned [OF that] unfolding PGROUNDDOWN_eq by (rule sym)
  obtain a' b' c' where "a = 4096 * a'" "b = 4096 * b'" "c = 4096 * c'"
    using mult assms by blast
  then have "a + (b - c) = 4096 * (a' + (b' - c'))" by (simp add: algebra_simps)
  moreover have "page_aligned (4096 * x)" for x :: u64
  proof -
    have "unat (4096 * x) = (4096 * unat x) mod (4096 * 4503599627370496)"
      by (simp add: unat_word_ariths)
    then have "unat (4096 * x) = 4096 * (unat x mod 4503599627370496)"
      by (simp only: mult_mod_right)
    then show ?thesis by (simp add: page_aligned_unat)
  qed
  ultimately show ?thesis by metis
qed

lemma user_pte:
  assumes "perm AND PTE_U \<noteq> 0"
  shows "(x OR perm OR PTE_V) AND PTE_U \<noteq> 0"
proof
  assume "(x OR perm OR PTE_V) AND PTE_U = 0"
  then have "perm AND PTE_U = 0" by (simp add: and.commute [of _ PTE_U] bit.conj_disj_distrib or_eq_0_iff)
  with assms show False by simp
qed

text \<open>
  C15: On a well-formed page table, \<^verbatim>\<open>mappages\<close> of an aligned, unmapped range below \<^verbatim>\<open>MAXVA\<close>
  returns 0 or -1 and never panics. It keeps the table well-formed and disjoint from the free
  list, and every page it took from the free list is now a page of the table. When it returns 0,
  \<^verbatim>\<open>walkaddr\<close> sends each address of the range to its page of the physical range, and every other
  address where it went before.
\<close>

theorem mappages_walkaddr:
  assumes "vm_inv e root ps s" and "va mod PGSIZE = 0" and "sz mod PGSIZE = 0" and "sz \<noteq> 0"
    and "unat va + unat sz \<le> unat MAXVA" and "pa mod PGSIZE = 0"
    and "perm < 1024" and "perm AND PTE_U \<noteq> 0"
    and "\<forall>a<MAXVA. va \<le> a \<and> unat a < unat va + unat sz \<longrightarrow> \<not> valid_pte (xlate (ram s) root a)"
  shows "\<exists>r t qs. mappages root va sz pa perm s = Ok r t \<and> (r = 0 \<or> r = -1) \<and>
    vm_inv e root qs t \<and>
    nodes (ram t) root \<union> set qs = nodes (ram s) root \<union> set ps \<and>
    (r = 0 \<longrightarrow> (\<forall>a<MAXVA.
      if va \<le> a \<and> unat a < unat va + unat sz
      then walkaddr root a t = Ok (pa + (PGROUNDDOWN a - va)) t
      else \<exists>p. walkaddr root a s = Ok p s \<and> walkaddr root a t = Ok p t))"
proof -
  have al: "page_aligned va" "page_aligned sz" "page_aligned pa"
    using assms by (simp_all add: page_aligned_def)
  obtain k where k: "unat sz = 4096 * k" by (rule page_alignedE [OF al(2)])
  have "k \<noteq> 0" using k assms(4) by (auto simp: word_unat_eq_iff)
  then obtain n where n: "k = Suc n" by (cases k) auto
  have "sz = of_nat (unat sz)" by simp
  then have sz: "sz = of_nat (4096 * Suc n)" by (simp only: k n)
  have last': "va + sz - PGSIZE = va + of_nat (4096 * n)" unfolding sz by (simp add: layout_consts)
  have run: "in_run va n a \<longleftrightarrow> va \<le> a \<and> unat a < unat va + unat sz" for a
    using k n by (simp add: in_run_def word_le_nat_alt)
  have "unat va + 4096 * n < unat MAXVA" using assms(5) k n by simp
  moreover have "\<not> valid_pte (xlate (ram s) root a)" if "a < MAXVA" "in_run va n a" for a
    using assms(9) that run by blast
  ultimately obtain r t qs where
    "mappages_loop root va (va + of_nat (4096 * n)) pa perm s = Ok r t"
    and inv: "vm_inv e root qs t" and ext: "vm_ext root ps (ram s) qs (ram t)" and r: "r = 0 \<or> r = -1"
    and out: "\<forall>a<MAXVA. \<not> in_run va n a \<longrightarrow> xlate (ram t) root a = xlate (ram s) root a"
    and inside: "r = 0 \<longrightarrow> (\<forall>a<MAXVA. in_run va n a \<longrightarrow> xlate (ram t) root a = run_pte va pa perm a)"
    using mappages_loop_spec [OF assms(1) al(1)] by blast
  then have m: "mappages root va sz pa perm s = Ok r t"
    using assms(2-4) unfolding mappages_def last' by (simp add: m_simps)
  have wf: "pt_wf e (ram s) root" "pt_wf e (ram t) root" using assms(1) inv by (simp_all add: vm_inv_def)
  have "walkaddr root a t = Ok (pa + (PGROUNDDOWN a - va)) t"
    if "r = 0" "a < MAXVA" "in_run va n a" for a
    using that inside user_pte [OF assms(8)] valid_map_pte
      PTE2PA_PA2PTE [OF page_aligned_offset [OF al(3) page_aligned_page_of al(1)] assms(7)]
    by (simp add: walkaddr_xlate [OF wf(2)] run_pte_def)
  moreover have "\<exists>p. walkaddr root a s = Ok p s \<and> walkaddr root a t = Ok p t"
    if "a < MAXVA" "\<not> in_run va n a" for a
    using that out by (simp add: walkaddr_xlate [OF wf(1)] walkaddr_xlate [OF wf(2)])
  ultimately show ?thesis using m inv r ext run unfolding vm_ext_def by (intro exI [of _ r] exI [of _ t]) auto
qed

text \<open>Three pages of memory: an empty table and two free pages.\<close>

definition vm_demo :: kmem_st where
  "vm_demo = \<lparr>end_sym = 0x87ffd000, etext_sym = 0x80008000, trampoline_sym = 0x80007000,
     held = [], pr_locking = True, tty = [], ram = store64 (\<lambda>_. 0) 0x87fff000 0x87ffe000, freelist = 0x87fff000\<rparr>"

lemma vm_demo_inv:
  "vm_inv 0x87ffd000 0x87ffd000 [0x87fff000, 0x87ffe000] vm_demo"
  "xlate (ram vm_demo) 0x87ffd000 va = 0"
proof -
  have al: "page_aligned 0x87ffd000" "page_aligned 0x87fff000" "page_aligned 0x87ffe000"
    by (simp_all add: page_aligned_def layout_consts)
  have kp: "kpage 0x87ffd000 0x87ffd000" "kpage 0x87ffd000 0x87fff000" "kpage 0x87ffd000 0x87ffe000"
    by (simp_all add: kpage_def layout_consts)
  have z: "ent (ram vm_demo) 0x87ffd000 i = 0" if "i < 512" for i
    using ent_store [OF al(2,1) _ that, of 0 "\<lambda>_. 0" "0x87ffe000"] by (simp add: vm_demo_def ent_def)
  note E = empty_table [OF kp(1) _ z]
  show "xlate (ram vm_demo) 0x87ffd000 va = 0" using E by simp
  have "free_pages vm_demo [0x87fff000, 0x87ffe000]"
    using kp al by (simp add: free_pages_def vm_demo_def load64_store64_other)
  then show "vm_inv 0x87ffd000 0x87ffd000 [0x87fff000, 0x87ffe000] vm_demo"
    using E by (simp add: vm_inv_def) (simp add: kmem_ready_def vm_demo_def)
qed

theorem mappages_walkaddr_witness:
  "\<exists>r t qs. mappages 0x87ffd000 0x1000 0x2000 0x84000000 (PTE_R OR PTE_U) vm_demo = Ok r t \<and>
    (r = 0 \<or> r = -1) \<and> vm_inv 0x87ffd000 0x87ffd000 qs t \<and>
    (r = 0 \<longrightarrow> walkaddr 0x87ffd000 0x2345 t = Ok 0x84001000 t)"
proof -
  have "page_of 0x2345 = 0x2000" by (simp add: PGROUNDDOWN_eq word_unat_eq_iff unat_word_ariths unat_div)
  then show ?thesis
    using mappages_walkaddr [OF vm_demo_inv(1), of "0x1000" "0x2000" "0x84000000" "PTE_R OR PTE_U"]
    by (auto simp: vm_demo_inv(2) layout_consts word_le_nat_alt word_less_nat_alt dest!: spec [of _ "0x2345 :: u64"])
qed

end
