(* ===== verification/UserCopy.thy ===== *)
theory UserCopy
  imports PageTable
begin

text \<open>
  \<^verbatim>\<open>copyout\<close> and \<^verbatim>\<open>copyin\<close> of \<^verbatim>\<open>kernel/vm.c\<close> as accesses to the user's address space: a user
  byte is the physical byte its page-table entry points to.
\<close>

section \<open>User memory\<close>

definition readable :: "mem \<Rightarrow> u64 \<Rightarrow> u64 \<Rightarrow> bool" where
  "readable m root a \<longleftrightarrow> a < MAXVA \<and> valid_pte (xlate m root a) \<and> xlate m root a AND PTE_U \<noteq> 0"

definition writable :: "mem \<Rightarrow> u64 \<Rightarrow> u64 \<Rightarrow> bool" where
  "writable m root a \<longleftrightarrow> readable m root a \<and> xlate m root a AND PTE_W \<noteq> 0"

definition upage :: "mem \<Rightarrow> u64 \<Rightarrow> u64 \<Rightarrow> u64" where
  "upage m root a = PTE2PA (xlate m root a)"

definition ubyte :: "mem \<Rightarrow> u64 \<Rightarrow> u64 \<Rightarrow> u8" where
  "ubyte m root a = m (upage m root a + (a - page_of a))"

text \<open>
  The user's pages are real pages, apart from the tables, and a writable page is mapped once.
\<close>

definition user_ok :: "mem \<Rightarrow> u64 \<Rightarrow> bool" where
  "user_ok m root \<longleftrightarrow> (\<forall>a. readable m root a \<longrightarrow>
     upage m root a \<noteq> 0 \<and> upage m root a \<notin> nodes m root \<and>
     (\<forall>b. writable m root b \<longrightarrow> upage m root a = upage m root b \<longrightarrow> page_of a = page_of b))"

lemma page_aligned_PTE2PA [simp]: "page_aligned (PTE2PA e)"
  by (simp add: page_aligned_bits PTE2PA_bits)

lemma page_aligned_upage [simp]: "page_aligned (upage m root a)"
  by (simp add: upage_def)

lemma page_of_lt: "a < MAXVA \<Longrightarrow> page_of a < MAXVA"
  using PGROUNDDOWN_le [of a] by (rule order_le_less_trans)

lemma page_of_page_of [simp]: "page_of (page_of a) = page_of a"
  by (rule page_of_aligned) simp

lemma readable_page:
  assumes "readable m root a" and "page_of b = page_of a" and "b < MAXVA"
  shows "readable m root b"
  using assms xlate_page [OF assms(2)] by (simp add: readable_def)

lemma page_of_lt_iff: "page_of a < MAXVA \<longleftrightarrow> a < MAXVA"
proof
  assume "page_of a < MAXVA"
  then have "4096 * (unat a div 4096) < 4096 * 67108864"
    by (simp add: word_less_nat_alt unat_PGROUNDDOWN MAXVA_val)
  then have "unat a div 4096 < 67108864" by simp
  then have "unat a < 0x4000000000" by simp
  then show "a < MAXVA" by (simp add: word_less_nat_alt MAXVA_val)
qed (rule page_of_lt)

section \<open>A store into one user page\<close>

text \<open>The bytes \<open>bs\<close> go to the part of the page of \<open>va\<close> that starts at \<open>va\<close>.\<close>

definition put_user :: "mem \<Rightarrow> u64 \<Rightarrow> u64 \<Rightarrow> u8 list \<Rightarrow> mem" where
  "put_user m root va bs = wr m (upage m root va + (va - page_of va)) bs"

definition in_range :: "u64 \<Rightarrow> nat \<Rightarrow> u64 \<Rightarrow> bool" where
  "in_range va n a \<longleftrightarrow> unat va \<le> unat a \<and> unat a < unat va + n"

lemma within_put_user:
  assumes "unat va mod 4096 + n \<le> 4096" and "page_aligned P"
  shows "within_page P (P + (va - page_of va)) n"
proof -
  let ?o = "unat va mod 4096"
  have "va - page_of va = of_nat (unat (va - page_of va))" by simp
  then have o: "va - page_of va = of_nat ?o" by (simp only: unat_page_offset)
  have "unat (P + of_nat ?o) mod 4096 = ?o"
    using assms(2) by (subst unat_page_plus) (auto simp: page_aligned_unat mod_add_left_eq [symmetric])
  then show ?thesis using assms page_of_plus [of P ?o] unfolding o by (simp add: within_page_def)
qed

lemma put_user_frame:
  assumes "unat va mod 4096 + length bs \<le> 4096" and "page_of x \<noteq> upage m root va"
  shows "put_user m root va bs x = m x"
  using assms by (simp add: put_user_def wr_other_page [OF within_put_user])

lemma put_user_tables:
  assumes "pt_wf e m root" and "user_ok m root" and "readable m root va"
    and "unat va mod 4096 + length bs \<le> 4096"
  shows "pt_wf e (put_user m root va bs) root" and "nodes (put_user m root va bs) root = nodes m root"
    and "xlate (put_user m root va bs) root = xlate m root"
proof -
  have f: "put_user m root va bs x = m x" if "page_of x \<in> nodes m root" for x
    using that assms by (intro put_user_frame) (auto simp: user_ok_def)
  show "pt_wf e (put_user m root va bs) root" "nodes (put_user m root va bs) root = nodes m root"
    using frame_pt_wf [OF assms(1) f] by auto
  show "xlate (put_user m root va bs) root = xlate m root"
    using frame_xlate [OF assms(1) f] by auto
qed

lemma put_user_byte:
  assumes "pt_wf e m root" and "user_ok m root" and "writable m root va" and "readable m root a"
    and "unat va mod 4096 + length bs \<le> 4096"
  shows "ubyte (put_user m root va bs) root a =
    (if page_of a = page_of va \<and> in_range va (length bs) a then bs ! (unat a - unat va)
     else ubyte m root a)"
proof -
  have x: "xlate (put_user m root va bs) root = xlate m root"
    using put_user_tables(3) [OF assms(1,2) _ assms(5)] assms(3) by (simp add: writable_def)
  then have up: "upage (put_user m root va bs) root a = upage m root a" by (simp add: upage_def)
  show ?thesis
  proof (cases "page_of a = page_of va")
    case True
    then have "upage m root a = upage m root va" using xlate_page by (metis upage_def)
    moreover have "unat va < unat a + 4096"
    proof -
      have "4096 * (unat a div 4096) = 4096 * (unat va div 4096)"
        using True by (metis unat_PGROUNDDOWN)
      then show ?thesis
        using mult_div_mod_eq [of 4096 "unat va"] mult_div_mod_eq [of 4096 "unat a"]
          mod_less_divisor [of 4096 "unat va"] by linarith
    qed
    then have "unat (a - va) < length bs \<longleftrightarrow> in_range va (length bs) a"
      "in_range va (length bs) a \<Longrightarrow> unat (a - va) = unat a - unat va"
      using assms(5) by (auto simp: unat_sub_if_size word_size in_range_def)
    ultimately show ?thesis using True up
      by (auto simp: ubyte_def put_user_def wr_def)
  next
    case False
    then have "upage m root a \<noteq> upage m root va" using assms(2-4) by (auto simp: user_ok_def)
    moreover have "within_page (upage m root a) (upage m root a + (a - page_of a)) 0"
      by (rule within_put_user) simp_all
    then have "page_of (upage m root a + (a - page_of a)) = upage m root a"
      by (simp only: within_page_def)
    ultimately have "put_user m root va bs (upage m root a + (a - page_of a)) =
        m (upage m root a + (a - page_of a))"
      by (intro put_user_frame assms(5)) simp
    then show ?thesis using False up by (simp add: ubyte_def)
  qed
qed

lemma put_user_ok:
  assumes "pt_wf e m root" and "user_ok m root" and "readable m root va"
    and "unat va mod 4096 + length bs \<le> 4096"
  shows "user_ok (put_user m root va bs) root"
  using assms(2)
  unfolding user_ok_def readable_def writable_def upage_def put_user_tables(2,3) [OF assms] .

section \<open>copyout\<close>

lemma copyout_step:
  assumes "pt_wf e (ram s) root" and "src \<noteq> []"
  shows "copyout root va src s =
    (if writable (ram s) root (page_of va)
     then copyout root (page_of va + PGSIZE) (drop (page_rest va (length src)) src)
       (s\<lparr>ram := put_user (ram s) root va (take (page_rest va (length src)) src)\<rparr>)
     else Ok (-1) s)"
proof (cases "page_of va < MAXVA")
  case True
  have x: "xlate (ram s) root (page_of va) = xlate (ram s) root va" by (rule xlate_page) simp
  show ?thesis
  proof (cases "slot (ram s) root (page_of va)")
    case None
    then show ?thesis using True assms(2)
      by (subst copyout.simps)
        (simp add: m_simps walk_lookup writable_def readable_def xlate_def not_le [symmetric])
  next
    case (Some pi)
    obtain p i where pi: "pi = (p, i)" by fastforce
    then have nz: "p + 8 * of_nat i \<noteq> 0" using slot_ptr_nonzero [OF assms(1)] Some by blast
    have l: "load64 (ram s) (p + 8 * of_nat i) = xlate (ram s) root (page_of va)"
      using Some pi by (simp add: xlate_def ent_def)
    show ?thesis
      using True assms(2) Some pi nz
      by (subst copyout.simps)
        (auto simp: m_simps walk_lookup load_pte_def l writable_def readable_def set_ram_def
          put_user_def upage_def x not_le [symmetric])
  qed
next
  case False
  then have "\<not> writable (ram s) root (page_of va)" by (simp add: writable_def readable_def)
  then show ?thesis using assms(2) False
    by (subst copyout.simps) (simp add: if_apply ret_apply Let_def not_less)
qed

lemma page_rest_fits: "unat va mod 4096 + page_rest va n \<le> 4096"
  by (simp add: page_rest_eq)

lemma next_page:
  assumes "page_of va < MAXVA" and "page_rest va n < n"
  shows "unat (page_of va + PGSIZE) = unat va + page_rest va n"
proof -
  have "page_rest va n = 4096 - unat va mod 4096" using assms(2) by (auto simp: page_rest_eq)
  then show ?thesis
    using page_step [OF assms(1)] mult_div_mod_eq [of 4096 "unat va"] mod_less_divisor [of 4096 "unat va"]
    unfolding unat_PGROUNDDOWN by linarith
qed

lemma in_range_page:
  assumes "in_range va (page_rest va n) a"
  shows "page_of a = page_of va"
proof -
  have "unat va mod 4096 + (unat a - unat va) < 4096"
    using assms page_rest_fits [of va n] by (auto simp: in_range_def)
  moreover have "unat a = 4096 * (unat va div 4096) + (unat va mod 4096 + (unat a - unat va))"
    using assms mult_div_mod_eq [of 4096 "unat va"] unfolding in_range_def by linarith
  ultimately have "unat a div 4096 = unat va div 4096" by (metis add_right_cancel div_less
    div_mult_self2 mult.commute add.commute add_0 zero_neq_numeral)
  then show ?thesis by (simp add: word_unat_eq_iff unat_PGROUNDDOWN)
qed

text \<open>What a call of \<^verbatim>\<open>copyout\<close> leaves behind.\<close>

definition copied :: "u64 \<Rightarrow> u64 \<Rightarrow> u8 list \<Rightarrow> int \<Rightarrow> mem \<Rightarrow> mem \<Rightarrow> bool" where
  "copied root va src r m m' \<longleftrightarrow> xlate m' root = xlate m root \<and> (r = 0 \<or> r = -1) \<and>
     (\<forall>a. readable m root a \<and> \<not> in_range va (length src) a \<longrightarrow> ubyte m' root a = ubyte m root a) \<and>
     (r = 0 \<longrightarrow> unat va + length src \<le> unat MAXVA \<or> src = []) \<and>
     (r = 0 \<longrightarrow> (\<forall>a. in_range va (length src) a \<longrightarrow>
        readable m root a \<and> ubyte m' root a = src ! (unat a - unat va)))"

lemma copied_step:
  assumes "n \<le> length src" and x: "xlate m1 root = xlate m root"
    and first: "\<And>a. in_range va n a \<Longrightarrow> readable m root a"
    and byte: "\<And>a. readable m root a \<Longrightarrow> ubyte m1 root a =
      (if in_range va n a then src ! (unat a - unat va) else ubyte m root a)"
    and bound: "unat va + n \<le> unat MAXVA" and nx: "n < length src \<Longrightarrow> unat va' = unat va + n"
    and rest: "copied root va' (drop n src) r m1 m2"
  shows "copied root va src r m m2"
proof -
  have rd: "readable m1 root = readable m root" by (rule ext) (simp add: readable_def x)
  have rng: "in_range va (length src) a \<longleftrightarrow> in_range va n a \<or> in_range va' (length src - n) a"
    "\<not> (in_range va n a \<and> in_range va' (length src - n) a)" for a
    using assms(1) nx by (cases "n < length src"; auto simp: in_range_def)+
  have drop: "drop n src ! (unat a - unat va') = src ! (unat a - unat va)"
    if "in_range va' (length src - n) a" for a
    using that assms(1) nx by (cases "n < length src") (auto simp: in_range_def)
  have R: "r = 0 \<or> r = -1" "xlate m2 root = xlate m root" using rest x by (auto simp: copied_def)
  have out: "ubyte m2 root a = ubyte m root a"
    if "readable m root a" "\<not> in_range va (length src) a" for a
    using that rest rd rng byte by (auto simp: copied_def)
  have fit: "unat va + length src \<le> unat MAXVA" if "r = 0"
    using that rest nx bound assms(1) by (cases "n < length src") (auto simp: copied_def)
  have inside: "readable m root a \<and> ubyte m2 root a = src ! (unat a - unat va)"
    if "r = 0" "in_range va (length src) a" for a
  proof (cases "in_range va n a")
    case True
    then have "\<not> in_range va' (length src - n) a" using rng by blast
    then have "ubyte m2 root a = ubyte m1 root a" using rest first [OF True] rd by (simp add: copied_def)
    then show ?thesis using first [OF True] byte True by simp
  next
    case False
    then have "in_range va' (length src - n) a" using that(2) rng by blast
    then show ?thesis using rest that(1) rd drop by (simp add: copied_def)
  qed
  show ?thesis using R out fit inside by (auto simp: copied_def)
qed

lemma copyout_spec:
  assumes "pt_wf e (ram s) root" and "user_ok (ram s) root"
  shows "\<exists>r t. copyout root va src s = Ok r t \<and> pt_wf e (ram t) root \<and> user_ok (ram t) root \<and>
    copied root va src r (ram s) (ram t)"
  using assms
proof (induction "length src" arbitrary: va src s rule: less_induct)
  case less
  show ?case
  proof (cases "src = [] \<or> \<not> writable (ram s) root (page_of va)")
    case True
    then have "copyout root va src s = Ok (if src = [] then 0 else -1) s"
      using copyout_step [OF less.prems(1)] by (auto simp: copyout.simps m_simps)
    then show ?thesis using True less.prems by (auto simp: copied_def in_range_def)
  next
    case False
    define n where "n = page_rest va (length src)"
    let ?m = "put_user (ram s) root va (take n src)" and ?va = "page_of va + PGSIZE"
    have len: "length (take n src) = n" by (simp add: n_def page_rest_eq)
    have fits: "unat va mod 4096 + length (take n src) \<le> 4096"
      using page_rest_fits len by (simp add: n_def)
    have w: "writable (ram s) root (page_of va)" "src \<noteq> []" using False by auto
    then have lt: "page_of va < MAXVA" "va < MAXVA"
      by (simp_all add: writable_def readable_def page_of_lt_iff)
    have x: "xlate (ram s) root (page_of va) = xlate (ram s) root va" by (rule xlate_page) simp
    then have wv: "writable (ram s) root va" "readable (ram s) root va"
      using w lt by (simp_all add: writable_def readable_def)
    note T = put_user_tables [OF less.prems wv(2) fits]
      and ok = put_user_ok [OF less.prems wv(2) fits]
      and byte = put_user_byte [OF less.prems wv(1) _ fits, unfolded len]
    have "0 < n" using w(2) by (simp add: n_def page_rest_pos)
    then have "length (drop n src) < length src" using w(2) by simp
    then obtain r t where IH: "copyout root ?va (drop n src) (s\<lparr>ram := ?m\<rparr>) = Ok r t"
      "pt_wf e (ram t) root" "user_ok (ram t) root" "copied root ?va (drop n src) r ?m (ram t)"
      using less.hyps [of "drop n src" "s\<lparr>ram := ?m\<rparr>" ?va] T(1) ok by auto
    have run: "copyout root va src s = Ok r t"
      using copyout_step [OF less.prems(1) w(2)] w(1) IH(1) by (simp add: n_def)
    have pg: "in_range va n a \<Longrightarrow> page_of a = page_of va" for a
      using in_range_page by (simp add: n_def)
    have "copied root va src r (ram s) (ram t)"
    proof (rule copied_step [OF _ T(3) _ _ _ _ IH(4)])
      show "n \<le> length src" by (simp add: n_def page_rest_eq)
      show "readable (ram s) root a" if "in_range va n a" for a
        using readable_page [OF wv(2) pg [OF that]] page_of_lt_iff [of a] pg [OF that] lt(1) by simp
      show "ubyte ?m root a = (if in_range va n a then src ! (unat a - unat va) else ubyte (ram s) root a)"
        if "readable (ram s) root a" for a
        using byte [OF that] pg [of a] by (auto simp: in_range_def)
      have "unat va div 4096 < 67108864" "unat MAXVA = 274877906944"
        using lt(1) by (simp_all add: word_less_nat_alt unat_PGROUNDDOWN MAXVA_val)
      then show "unat va + n \<le> unat MAXVA"
        using fits len mult_div_mod_eq [of 4096 "unat va"] by linarith
      show "unat ?va = unat va + n" if "n < length src"
        using next_page [OF lt(1)] that by (simp add: n_def)
    qed
    then show ?thesis using run IH(2,3) by blast
  qed
qed

section \<open>copyin\<close>

lemma copyin_spec:
  assumes "pt_wf e (ram s) root" and "user_ok (ram s) root"
    and "\<And>a. in_range va len a \<Longrightarrow> readable (ram s) root a" and "len = 0 \<or> unat va + len \<le> unat MAXVA"
  shows "copyin root va len s =
    Ok (0, map (\<lambda>i. ubyte (ram s) root (va + of_nat i)) [0..<len]) s"
  using assms(3,4)
proof (induction len arbitrary: va rule: less_induct)
  case (less len)
  show ?case
  proof (cases "len = 0")
    case True
    then show ?thesis by (simp add: copyin.simps m_simps)
  next
    case False
    define n where "n = page_rest va len"
    let ?va = "page_of va + PGSIZE" and ?P = "upage (ram s) root va"
    have n: "0 < n" "n \<le> len" "unat va mod 4096 + n \<le> 4096"
      using False by (auto simp: n_def page_rest_pos page_rest_fits) (simp add: page_rest_eq)
    have bound: "unat va + len \<le> unat MAXVA" "unat MAXVA = 274877906944"
      using less.prems(2) False by (simp_all add: MAXVA_val)
    have rv: "readable (ram s) root va" using less.prems(1) [of va] False by (simp add: in_range_def)
    then have va: "va < MAXVA" "page_of va < MAXVA" by (simp_all add: readable_def page_of_lt_iff)
    have x: "xlate (ram s) root (page_of va) = xlate (ram s) root va" by (rule xlate_page) simp
    have P: "walkaddr root (page_of va) s = Ok ?P s" "?P \<noteq> 0"
      using rv va x assms(2) by (auto simp: walkaddr_xlate [OF assms(1)] readable_def upage_def user_ok_def)
    have addr: "unat (va + of_nat i) = unat va + i" if "i < len" for i
    proof -
      have "unat va + i < 2 ^ 64" using that bound by simp
      then show ?thesis by (simp add: unat_word_ariths unat_of_nat)
    qed
    have chunk: "rd (ram s) (?P + (va - page_of va)) n = map (\<lambda>i. ubyte (ram s) root (va + of_nat i)) [0..<n]"
    proof (rule nth_equalityI)
      fix i assume "i < length (rd (ram s) (?P + (va - page_of va)) n)"
      then have i: "i < n" by simp
      have "in_range va (page_rest va len) (va + of_nat i)"
        using i n(2) addr by (simp add: in_range_def n_def)
      then have pg: "page_of (va + of_nat i) = page_of va" by (rule in_range_page)
      then have "upage (ram s) root (va + of_nat i) = ?P" using xlate_page by (metis upage_def)
      then show "rd (ram s) (?P + (va - page_of va)) n ! i =
          map (\<lambda>i. ubyte (ram s) root (va + of_nat i)) [0..<n] ! i"
        using i pg by (simp add: ubyte_def algebra_simps)
    qed simp
    have rest: "copyin root ?va (len - n) s =
        Ok (0, map (\<lambda>i. ubyte (ram s) root (va + of_nat (n + i))) [0..<len - n]) s"
    proof (cases "n < len")
      case True
      then have nx: "unat ?va = unat va + n" using next_page [OF va(2)] by (simp add: n_def)
      have "unat (va + of_nat n) = unat va + n" using addr True by simp
      then have eq: "?va = va + of_nat n" using nx by (simp only: word_unat_eq_iff)
      have "copyin root ?va (len - n) s =
          Ok (0, map (\<lambda>i. ubyte (ram s) root (?va + of_nat i)) [0..<len - n]) s"
        using n True nx less.prems bound
        by (intro less.IH) (auto simp: in_range_def)
      then show ?thesis by (simp add: eq add.assoc)
    qed (simp add: copyin.simps m_simps)
    have "map f [0..<len] = map f [0..<n] @ map (\<lambda>i. f (n + i)) [0..<len - n]" for f :: "nat \<Rightarrow> u8"
    proof -
      have "[0..<len] = [0..<n] @ map (\<lambda>i. n + i) [0..<len - n]"
        using n(2) upt_add_eq_append [of 0 n "len - n"] map_add_upt [of n "len - n"] by (simp add: add.commute)
      then show ?thesis by simp
    qed
    then show ?thesis
      using False P chunk rest by (subst copyin.simps) (simp add: m_simps n_def)
  qed
qed

section \<open>Properties\<close>

text \<open>
  C16: \<^verbatim>\<open>copyout\<close> to any user address returns 0 or -1 and never panics, and leaves the page tables
  and every user byte outside the target range alone. When it returns 0, \<^verbatim>\<open>copyin\<close> from the same
  address reads back exactly the bytes written, across page boundaries.
\<close>

theorem copyout_copyin:
  assumes "pt_wf e (ram s) root" and "user_ok (ram s) root"
  shows "\<exists>r t. copyout root va src s = Ok r t \<and> (r = 0 \<or> r = -1) \<and>
    (r = 0 \<longrightarrow> copyin root va (length src) t = Ok (0, src) t) \<and>
    xlate (ram t) root = xlate (ram s) root \<and>
    (\<forall>a. readable (ram s) root a \<and> \<not> in_range va (length src) a \<longrightarrow>
       ubyte (ram t) root a = ubyte (ram s) root a)"
proof -
  obtain r t where t: "copyout root va src s = Ok r t" "pt_wf e (ram t) root" "user_ok (ram t) root"
    and c: "copied root va src r (ram s) (ram t)"
    using copyout_spec [OF assms] by blast
  have "copyin root va (length src) t = Ok (0, src) t" if r: "r = 0"
  proof -
    have x: "xlate (ram t) root = xlate (ram s) root" using c by (simp add: copied_def)
    have fit: "length src = 0 \<or> unat va + length src \<le> unat MAXVA" using c r by (auto simp: copied_def)
    have rd: "readable (ram t) root a" if "in_range va (length src) a" for a
      using c r that x by (simp add: copied_def readable_def)
    have "map (\<lambda>i. ubyte (ram t) root (va + of_nat i)) [0..<length src] = src"
    proof (rule nth_equalityI)
      fix i assume "i < length (map (\<lambda>i. ubyte (ram t) root (va + of_nat i)) [0..<length src])"
      then have i: "i < length src" by simp
      then have "unat va + i < 2 ^ 64" using fit by (auto simp: MAXVA_val)
      then have "unat (va + of_nat i) = unat va + i" by (simp add: unat_word_ariths unat_of_nat)
      then show "map (\<lambda>i. ubyte (ram t) root (va + of_nat i)) [0..<length src] ! i = src ! i"
        using c r i by (auto simp: copied_def in_range_def)
    qed simp
    then show ?thesis using copyin_spec [OF t(2,3) rd fit] by simp
  qed
  then show ?thesis using t(1) c by (auto simp: copied_def)
qed

text \<open>A three-level table that maps virtual page 0, writable, to the page at 0x84000000.\<close>

definition user_pte_demo :: u64 where
  "user_pte_demo = PA2PTE 0x84000000 OR (PTE_R OR PTE_W OR PTE_U) OR PTE_V"

definition user_demo :: kmem_st where
  "user_demo = vm_demo\<lparr>freelist := 0, ram :=
     store64 (store64 (store64 (\<lambda>_. 0) 0x87ffd000 (PA2PTE 0x87ffe000 OR PTE_V))
       0x87ffe000 (PA2PTE 0x87fff000 OR PTE_V)) 0x87fff000 user_pte_demo\<rparr>"

lemma user_demo_ent:
  assumes "page_aligned p" and "i < 512"
  shows "ent (ram user_demo) p i =
    (if i \<noteq> 0 then 0
     else if p = 0x87ffd000 then PA2PTE 0x87ffe000 OR PTE_V
     else if p = 0x87ffe000 then PA2PTE 0x87fff000 OR PTE_V
     else if p = 0x87fff000 then user_pte_demo else 0)"
proof -
  have al: "page_aligned 0x87ffd000" "page_aligned 0x87fff000" "page_aligned 0x87ffe000"
    by (simp_all add: page_aligned_def layout_consts)
  have "ent (\<lambda>_. 0) p j = 0" for p j by (simp add: ent_def)
  moreover have "ent (store64 m q v) p j = (if p = q \<and> j = 0 then v else ent m p j)"
    if "page_aligned q" "page_aligned p" "j < 512" for m q v p j
    using ent_store [OF that(1,2) _ that(3), of 0] by simp
  ultimately show ?thesis using al assms by (simp add: user_demo_def)
qed

lemma user_demo_follow:
  assumes "path is"
  shows "follow (ram user_demo) 0x87ffd000 is = (if is = [] then Some 0x87ffd000
    else if is = [0] then Some 0x87ffe000 else if is = [0, 0] then Some 0x87fff000 else None)"
proof -
  have al: "page_aligned 0x87ffd000" "page_aligned 0x87fff000" "page_aligned 0x87ffe000"
    by (simp_all add: page_aligned_def layout_consts)
  consider "is = []" | i where "is = [i]" "i < 512" | i j where "is = [i, j]" "i < 512" "j < 512"
    using assms by (cases "is" rule: remdups_adj.cases) (auto simp: path_def)
  then show ?thesis
    by cases (auto simp: user_demo_ent al PTE2PA_table valid_new_pte)
qed

lemma user_demo_wf:
  "pt_wf 0x87ffd000 (ram user_demo) 0x87ffd000"
  "nodes (ram user_demo) 0x87ffd000 = {0x87ffd000, 0x87ffe000, 0x87fff000}"
proof -
  have kp: "kpage 0x87ffd000 0x87ffd000" "kpage 0x87ffd000 0x87fff000" "kpage 0x87ffd000 0x87ffe000"
    by (simp_all add: kpage_def layout_consts)
  show "pt_wf 0x87ffd000 (ram user_demo) 0x87ffd000"
    unfolding pt_wf_def using kp by (auto simp: user_demo_follow split: if_splits)
  have p: "path []" "path [0]" "path [0, 0]" by (simp_all add: path_def)
  have I: "q \<in> nodes (ram user_demo) 0x87ffd000"
    if "path is" "follow (ram user_demo) 0x87ffd000 is = Some q" for q "is"
    using that by (auto simp: nodes_def)
  have sub: "{0x87ffd000, 0x87ffe000, 0x87fff000} \<subseteq> nodes (ram user_demo) 0x87ffd000"
    using I [OF p(1)] I [OF p(2)] I [OF p(3)]
    by (simp add: user_demo_follow [OF p(1)] user_demo_follow [OF p(2)] user_demo_follow [OF p(3)]
      del: follow.simps)
  show "nodes (ram user_demo) 0x87ffd000 = {0x87ffd000, 0x87ffe000, 0x87fff000}"
    using sub by (auto simp: nodes_def user_demo_follow split: if_splits)
qed

lemma user_demo_xlate:
  "xlate (ram user_demo) 0x87ffd000 a =
     (if ix 2 a = 0 \<and> ix 1 a = 0 \<and> ix 0 a = 0 then user_pte_demo else 0)"
proof -
  have "page_aligned 0x87fff000" by (simp add: page_aligned_def layout_consts)
  then have "ent (ram user_demo) 0x87fff000 (ix 0 a) = (if ix 0 a = 0 then user_pte_demo else 0)"
    by (simp add: user_demo_ent)
  then show ?thesis
    using user_demo_follow [OF path_va(2), of a]
    by (cases "ix 2 a = 0 \<and> ix 1 a = 0") (simp_all only: xlate_def slot_def, auto)
qed

lemma user_demo_ok: "user_ok (ram user_demo) 0x87ffd000"
proof -
  have z: "PTE2PA user_pte_demo = 0x84000000"
    unfolding user_pte_demo_def
    by (rule PTE2PA_PA2PTE) (simp_all add: page_aligned_def layout_consts)
  have r: "page_of a = page_of 0" "upage (ram user_demo) 0x87ffd000 a = 0x84000000"
    if "readable (ram user_demo) 0x87ffd000 a" for a
  proof -
    have a: "a < MAXVA" "ix 2 a = 0 \<and> ix 1 a = 0 \<and> ix 0 a = 0"
      using that by (auto simp: readable_def user_demo_xlate split: if_splits)
    moreover have "ix l 0 = 0" for l by (simp add: ix_def PX_def)
    ultimately show "page_of a = page_of 0" using ix_inj [of a 0] by (simp add: MAXVA_val)
    show "upage (ram user_demo) 0x87ffd000 a = 0x84000000"
      using a z by (simp add: upage_def user_demo_xlate)
  qed
  then show ?thesis unfolding user_ok_def user_demo_wf(2) by (auto simp: writable_def)
qed

lemma user_demo_writable:
  assumes "unat a < 4096"
  shows "writable (ram user_demo) 0x87ffd000 a"
proof -
  have "page_of a = page_of 0" using assms by (simp add: word_unat_eq_iff unat_PGROUNDDOWN)
  moreover have "ix l 0 = 0" for l by (simp add: ix_def PX_def)
  ultimately have "ix l a = 0" if "l < 3" for l using ix_page [of a 0] that by metis
  moreover have "user_pte_demo AND PTE_U \<noteq> 0" "user_pte_demo AND PTE_W \<noteq> 0" "valid_pte user_pte_demo"
    by (simp_all add: user_pte_demo_def layout_consts PA2PTE_def)
  ultimately show ?thesis
    using assms by (simp add: writable_def readable_def user_demo_xlate MAXVA_val word_less_nat_alt)
qed

lemma user_demo_dst:
  assumes "k < 4096"
  shows "writable (ram user_demo) 0x87ffd000 (of_nat k)"
  using assms by (intro user_demo_writable) (simp add: unat_of_nat)

theorem copyout_copyin_witness:
  "\<exists>t. copyout 0x87ffd000 0x10 [1, 2, 3] user_demo = Ok 0 t \<and>
     copyin 0x87ffd000 0x10 3 t = Ok (0, [1, 2, 3]) t"
proof -
  have "page_of 0x10 = 0" by (simp add: PGROUNDDOWN_eq word_unat_eq_iff unat_word_ariths unat_div)
  then have "writable (ram user_demo) 0x87ffd000 (page_of 0x10)" using user_demo_writable [of 0] by simp
  then have "\<exists>t. copyout 0x87ffd000 0x10 [1, 2, 3] user_demo = Ok 0 t"
    using copyout_step [OF user_demo_wf(1), of "[1, 2, 3]" "0x10"]
    by (simp add: copyout.simps page_rest_eq m_simps)
  then show ?thesis
    using copyout_copyin [OF user_demo_wf(1) user_demo_ok, of "0x10" "[1, 2, 3]"]
    by (auto simp: numeral_3_eq_3)
qed

end
