(* ===== verification/Proc.thy ===== *)
theory Proc
  imports Vm
begin

text \<open>
  \<^verbatim>\<open>kernel/proc.c\<close>: the process table, scheduling, sleep and wakeup, kill and wait, as seen from
  one hart. A process is its index in \<^verbatim>\<open>proc[NPROC]\<close>. The routines that also need the file system
  (\<^verbatim>\<open>userinit\<close>, \<^verbatim>\<open>fork\<close>, the file part of \<^verbatim>\<open>exit\<close>) are in the theory of system calls.

  \<^verbatim>\<open>swtch()\<close> ends a routine with the outcome \<open>Swtch\<close>; what the thread does when the scheduler
  switches back to it are the \<open>_resume\<close> definitions.
\<close>

section \<open>State\<close>

datatype procstate = UNUSED | USED | SLEEPING | RUNNABLE | RUNNING | ZOMBIE

record pcontext =
  c_ra :: u64
  c_sp :: u64
  c_sregs :: "u64 list"

record proc =
  p_state :: procstate
  p_chan :: "chan option"
  p_killed :: bool
  p_xstate :: u32
  p_pid :: u32
  p_parent :: "nat option"
  p_kstack :: u64
  p_sz :: u64
  p_pagetable :: u64
  p_trapframe :: u64
  p_context :: pcontext
  p_ofile :: "nat \<Rightarrow> nat option"
  p_cwd :: "nat option"
  p_name :: blk

text \<open>
  \<open>curproc\<close> is \<^verbatim>\<open>mycpu()->proc\<close> and \<open>klocal\<close> the local buffer of the running routine that
  \<^verbatim>\<open>either_copyout\<close> and \<^verbatim>\<open>either_copyin\<close> may be pointed at.
\<close>

record proc_st = vm_st +
  procs :: "nat \<Rightarrow> proc"
  curproc :: "nat option"
  nextpid :: u32
  initproc :: "nat option"
  ticks :: u32
  forkret_sym :: u64
  klocal :: blk

definition upd_proc :: "nat \<Rightarrow> (proc \<Rightarrow> proc) \<Rightarrow> (unit, 'a proc_st_scheme) m" where
  "upd_proc p f = modify (\<lambda>s. s\<lparr>procs := (procs s)(p := f (procs s p))\<rparr>)"

text \<open>\<^verbatim>\<open>myproc()->...\<close>: with no current process the null pointer is dereferenced.\<close>

definition myproc :: "('a proc_st_scheme \<Rightarrow> (nat option, 'a proc_st_scheme) outcome)" where
  "myproc = gets curproc"

definition with_myproc :: "(nat \<Rightarrow> ('r, 'a proc_st_scheme) m) \<Rightarrow> ('r, 'a proc_st_scheme) m" where
  "with_myproc k = bnd myproc (\<lambda>p. case p of None \<Rightarrow> panic ''kerneltrap'' | Some p \<Rightarrow> k p)"

section \<open>The process table\<close>

definition procinit :: "(unit, 'a proc_st_scheme) m" where
  "procinit = block [
     init_lock L_pid,
     init_lock L_wait,
     for_each [0..<NPROC] (\<lambda>p. block [
       init_lock (L_proc p),
       upd_proc p (\<lambda>pr. pr\<lparr>p_state := UNUSED\<rparr>),
       upd_proc p (\<lambda>pr. pr\<lparr>p_kstack := KSTACK p\<rparr>)])]"

definition allocpid :: "(u32, 'a proc_st_scheme) m" where
  "allocpid =
     bnd (acquire L_pid) (\<lambda>_.
     bnd (gets nextpid) (\<lambda>pid.
     bnd (modify (\<lambda>s. s\<lparr>nextpid := nextpid s + 1\<rparr>)) (\<lambda>_.
     bnd (release L_pid) (\<lambda>_.
     ret pid))))"

definition proc_pagetable :: "nat \<Rightarrow> (u64, 'a proc_st_scheme) m" where
  "proc_pagetable p =
     bnd uvmcreate (\<lambda>pagetable.
     if pagetable = 0 then ret 0
     else
       bnd (gets trampoline_sym) (\<lambda>trampoline.
       bnd (mappages pagetable TRAMPOLINE PGSIZE trampoline (PTE_R OR PTE_X)) (\<lambda>r.
       if r < 0 then bnd (uvmfree pagetable 0) (\<lambda>_. ret 0)
       else
         bnd (gets (\<lambda>s. p_trapframe (procs s p))) (\<lambda>trapframe.
         bnd (mappages pagetable TRAPFRAME PGSIZE trapframe (PTE_R OR PTE_W)) (\<lambda>r.
         if r < 0
         then
           bnd (uvmunmap pagetable TRAMPOLINE 1 False) (\<lambda>_.
           bnd (uvmfree pagetable 0) (\<lambda>_. ret 0))
         else ret pagetable)))))"

definition proc_freepagetable :: "u64 \<Rightarrow> u64 \<Rightarrow> (unit, 'a proc_st_scheme) m" where
  "proc_freepagetable pagetable sz = block [
     uvmunmap pagetable TRAMPOLINE 1 False,
     uvmunmap pagetable TRAPFRAME 1 False,
     uvmfree pagetable sz]"

definition freeproc :: "nat \<Rightarrow> (unit, 'a proc_st_scheme) m" where
  "freeproc p = block [
     bnd (gets (\<lambda>s. p_trapframe (procs s p))) (\<lambda>tf. if_do (tf \<noteq> 0) (kfree tf)),
     upd_proc p (\<lambda>pr. pr\<lparr>p_trapframe := 0\<rparr>),
     bnd (gets (\<lambda>s. procs s p)) (\<lambda>pr.
       if_do (p_pagetable pr \<noteq> 0) (proc_freepagetable (p_pagetable pr) (p_sz pr))),
     upd_proc p (\<lambda>pr. pr\<lparr>p_pagetable := 0\<rparr>),
     upd_proc p (\<lambda>pr. pr\<lparr>p_sz := 0\<rparr>),
     upd_proc p (\<lambda>pr. pr\<lparr>p_pid := 0\<rparr>),
     upd_proc p (\<lambda>pr. pr\<lparr>p_parent := None\<rparr>),
     upd_proc p (\<lambda>pr. pr\<lparr>p_name := (p_name pr)(0 := 0)\<rparr>),
     upd_proc p (\<lambda>pr. pr\<lparr>p_chan := None\<rparr>),
     upd_proc p (\<lambda>pr. pr\<lparr>p_killed := False\<rparr>),
     upd_proc p (\<lambda>pr. pr\<lparr>p_xstate := 0\<rparr>),
     upd_proc p (\<lambda>pr. pr\<lparr>p_state := UNUSED\<rparr>)]"

definition allocproc_found :: "nat \<Rightarrow> (nat option, 'a proc_st_scheme) m" where
  "allocproc_found p =
     bnd allocpid (\<lambda>pid.
     bnd (upd_proc p (\<lambda>pr. pr\<lparr>p_pid := pid\<rparr>)) (\<lambda>_.
     bnd (upd_proc p (\<lambda>pr. pr\<lparr>p_state := USED\<rparr>)) (\<lambda>_.
     bnd kalloc (\<lambda>tf.
     bnd (upd_proc p (\<lambda>pr. pr\<lparr>p_trapframe := tf\<rparr>)) (\<lambda>_.
     if tf = 0
     then bnd (freeproc p) (\<lambda>_. bnd (release (L_proc p)) (\<lambda>_. ret None))
     else
       bnd (proc_pagetable p) (\<lambda>pagetable.
       bnd (upd_proc p (\<lambda>pr. pr\<lparr>p_pagetable := pagetable\<rparr>)) (\<lambda>_.
       if pagetable = 0
       then bnd (freeproc p) (\<lambda>_. bnd (release (L_proc p)) (\<lambda>_. ret None))
       else
         bnd (gets forkret_sym) (\<lambda>forkret.
         bnd (upd_proc p (\<lambda>pr. pr\<lparr>p_context := \<lparr>c_ra = forkret, c_sp = p_kstack pr + PGSIZE,
           c_sregs = replicate 12 0\<rparr>\<rparr>)) (\<lambda>_.
         ret (Some p))))))))))"

definition allocproc :: "(nat option, 'a proc_st_scheme) m" where
  "allocproc =
     bnd (for_first [0..<NPROC] (\<lambda>p.
       bnd (acquire (L_proc p)) (\<lambda>_.
       bnd (gets (\<lambda>s. p_state (procs s p))) (\<lambda>st.
       if st = UNUSED then ret (Some p)
       else bnd (release (L_proc p)) (\<lambda>_. ret None))))) (\<lambda>found.
     case found of None \<Rightarrow> ret None | Some p \<Rightarrow> allocproc_found p)"

text \<open>\<^verbatim>\<open>growproc(int n)\<close>: \<open>n\<close> is the 32-bit pattern of the argument.\<close>

definition growproc :: "u32 \<Rightarrow> (int, 'a proc_st_scheme) m" where
  "growproc n = with_myproc (\<lambda>p.
     bnd (gets (\<lambda>s. procs s p)) (\<lambda>pr.
     let sz = p_sz pr in
     if sint n > 0
     then bnd (uvmalloc (p_pagetable pr) sz (sz + scast n) PTE_W) (\<lambda>sz'.
       if sz' = 0 then ret (-1)
       else bnd (upd_proc p (\<lambda>pr. pr\<lparr>p_sz := sz'\<rparr>)) (\<lambda>_. ret 0))
     else if sint n < 0
     then bnd (uvmdealloc (p_pagetable pr) sz (sz + scast n)) (\<lambda>sz'.
       bnd (upd_proc p (\<lambda>pr. pr\<lparr>p_sz := sz'\<rparr>)) (\<lambda>_. ret 0))
     else bnd (upd_proc p (\<lambda>pr. pr\<lparr>p_sz := sz\<rparr>)) (\<lambda>_. ret 0)))"

section \<open>Scheduling\<close>

text \<open>
  \<^verbatim>\<open>mycpu()->noff\<close> is the number of locks held, and interrupts are off while one is held, so
  \<^verbatim>\<open>intr_get()\<close> is false when the other checks pass.
\<close>

definition sched :: "('r, 'a proc_st_scheme) m" where
  "sched = with_myproc (\<lambda>p.
     bnd (gets held) (\<lambda>hs.
     bnd (panic_if (L_proc p \<notin> set hs) ''sched p->lock'') (\<lambda>_.
     bnd (panic_if (length hs \<noteq> 1) ''sched locks'') (\<lambda>_.
     bnd (gets (\<lambda>s. p_state (procs s p))) (\<lambda>st.
     bnd (panic_if (st = RUNNING) ''sched running'') (\<lambda>_.
     \<lambda>s. Swtch s))))))"

definition yield :: "(unit, 'a proc_st_scheme) m" where
  "yield = with_myproc (\<lambda>p. block [
     acquire (L_proc p),
     upd_proc p (\<lambda>pr. pr\<lparr>p_state := RUNNABLE\<rparr>),
     sched])"

definition yield_resume :: "nat \<Rightarrow> (unit, 'a proc_st_scheme) m" where
  "yield_resume p = release (L_proc p)"

definition sleep :: "chan option \<Rightarrow> lockid \<Rightarrow> ('r, 'a proc_st_scheme) m" where
  "sleep ch lk = with_myproc (\<lambda>p.
     bnd (acquire (L_proc p)) (\<lambda>_.
     bnd (release lk) (\<lambda>_.
     bnd (upd_proc p (\<lambda>pr. pr\<lparr>p_chan := ch\<rparr>)) (\<lambda>_.
     bnd (upd_proc p (\<lambda>pr. pr\<lparr>p_state := SLEEPING\<rparr>)) (\<lambda>_.
     sched)))))"

definition sleep_resume :: "nat \<Rightarrow> lockid \<Rightarrow> (unit, 'a proc_st_scheme) m" where
  "sleep_resume p lk = block [
     upd_proc p (\<lambda>pr. pr\<lparr>p_chan := None\<rparr>),
     release (L_proc p),
     acquire lk]"

text \<open>
  One turn of the inner loop of \<^verbatim>\<open>scheduler\<close> up to \<^verbatim>\<open>swtch\<close> (true: the process now runs and
  holds its lock), and the rest of the turn when the process has switched back.
\<close>

definition scheduler_pick :: "nat \<Rightarrow> (bool, 'a proc_st_scheme) m" where
  "scheduler_pick p =
     bnd (acquire (L_proc p)) (\<lambda>_.
     bnd (gets (\<lambda>s. p_state (procs s p))) (\<lambda>st.
     if st = RUNNABLE
     then
       bnd (upd_proc p (\<lambda>pr. pr\<lparr>p_state := RUNNING\<rparr>)) (\<lambda>_.
       bnd (modify (\<lambda>s. s\<lparr>curproc := Some p\<rparr>)) (\<lambda>_.
       ret True))
     else bnd (release (L_proc p)) (\<lambda>_. ret False)))"

definition scheduler_resume :: "nat \<Rightarrow> (unit, 'a proc_st_scheme) m" where
  "scheduler_resume p = block [
     modify (\<lambda>s. s\<lparr>curproc := None\<rparr>),
     release (L_proc p)]"

section \<open>wakeup, kill, wait\<close>

text \<open>The body of the loop of \<^verbatim>\<open>wakeup\<close>.\<close>

definition wakeup_one :: "chan option \<Rightarrow> nat \<Rightarrow> (unit, 'a proc_st_scheme) m" where
  "wakeup_one ch p =
     bnd myproc (\<lambda>me.
     if_do (Some p \<noteq> me) (block [
       acquire (L_proc p),
       bnd (gets (\<lambda>s. procs s p)) (\<lambda>pr.
         if_do (p_state pr = SLEEPING \<and> p_chan pr = ch)
           (upd_proc p (\<lambda>pr. pr\<lparr>p_state := RUNNABLE\<rparr>))),
       release (L_proc p)]))"

definition wakeup :: "chan option \<Rightarrow> (unit, 'a proc_st_scheme) m" where
  "wakeup ch = for_each [0..<NPROC] (wakeup_one ch)"

definition kill :: "u32 \<Rightarrow> (int, 'a proc_st_scheme) m" where
  "kill pid =
     bnd (for_first [0..<NPROC] (\<lambda>p.
       bnd (acquire (L_proc p)) (\<lambda>_.
       bnd (gets (\<lambda>s. procs s p)) (\<lambda>pr.
       if p_pid pr = pid
       then
         bnd (upd_proc p (\<lambda>pr. pr\<lparr>p_killed := True\<rparr>)) (\<lambda>_.
         bnd (if_do (p_state pr = SLEEPING)
           (upd_proc p (\<lambda>pr. pr\<lparr>p_state := RUNNABLE\<rparr>))) (\<lambda>_.
         bnd (release (L_proc p)) (\<lambda>_.
         ret (Some 0))))
       else bnd (release (L_proc p)) (\<lambda>_. ret None))))) (\<lambda>r.
     ret (case r of None \<Rightarrow> -1 | Some v \<Rightarrow> v))"

definition setkilled :: "nat \<Rightarrow> (unit, 'a proc_st_scheme) m" where
  "setkilled p = block [
     acquire (L_proc p),
     upd_proc p (\<lambda>pr. pr\<lparr>p_killed := True\<rparr>),
     release (L_proc p)]"

definition killed :: "nat \<Rightarrow> (bool, 'a proc_st_scheme) m" where
  "killed p =
     bnd (acquire (L_proc p)) (\<lambda>_.
     bnd (gets (\<lambda>s. p_killed (procs s p))) (\<lambda>k.
     bnd (release (L_proc p)) (\<lambda>_.
     ret k)))"

definition reparent :: "nat \<Rightarrow> (unit, 'a proc_st_scheme) m" where
  "reparent p = for_each [0..<NPROC] (\<lambda>pp.
     bnd (gets (\<lambda>s. p_parent (procs s pp))) (\<lambda>par.
     if_do (par = Some p) (
       bnd (gets initproc) (\<lambda>init. block [
         upd_proc pp (\<lambda>pr. pr\<lparr>p_parent := init\<rparr>),
         wakeup (map_option Ch_proc init)]))))"

text \<open>The end of \<^verbatim>\<open>exit\<close>, from \<^verbatim>\<open>acquire(&wait_lock)\<close> on.\<close>

definition exit_zombie :: "nat \<Rightarrow> u32 \<Rightarrow> ('r, 'a proc_st_scheme) m" where
  "exit_zombie p status =
     bnd (acquire L_wait) (\<lambda>_.
     bnd (reparent p) (\<lambda>_.
     bnd (gets (\<lambda>s. p_parent (procs s p))) (\<lambda>parent.
     bnd (wakeup (map_option Ch_proc parent)) (\<lambda>_.
     bnd (acquire (L_proc p)) (\<lambda>_.
     bnd (upd_proc p (\<lambda>pr. pr\<lparr>p_xstate := status\<rparr>)) (\<lambda>_.
     bnd (upd_proc p (\<lambda>pr. pr\<lparr>p_state := ZOMBIE\<rparr>)) (\<lambda>_.
     bnd (release L_wait) (\<lambda>_.
     bnd sched (\<lambda>_ :: unit.
     panic ''zombie exit'')))))))))"

text \<open>
  The scan of \<^verbatim>\<open>wait\<close>: \<open>Inl r\<close> when it returns \<open>r\<close>, \<open>Inr havekids\<close> when it reaches the end
  of the table.
\<close>

primrec wait_scan :: "nat \<Rightarrow> u64 \<Rightarrow> nat list \<Rightarrow> bool \<Rightarrow> (int + bool, 'a proc_st_scheme) m" where
  "wait_scan p addr [] havekids = ret (Inr havekids)"
| "wait_scan p addr (pp # pps) havekids =
     bnd (gets (\<lambda>s. p_parent (procs s pp))) (\<lambda>par.
     if par = Some p
     then
       bnd (acquire (L_proc pp)) (\<lambda>_.
       bnd (gets (\<lambda>s. procs s pp)) (\<lambda>pr.
       if p_state pr = ZOMBIE
       then
         bnd (gets (\<lambda>s. p_pagetable (procs s p))) (\<lambda>pagetable.
         bnd (if addr \<noteq> 0 then copyout pagetable addr (le_bytes 4 (p_xstate pr)) else ret 0) (\<lambda>r.
         if r < 0
         then
           bnd (release (L_proc pp)) (\<lambda>_.
           bnd (release L_wait) (\<lambda>_.
           ret (Inl (-1))))
         else
           bnd (freeproc pp) (\<lambda>_.
           bnd (release (L_proc pp)) (\<lambda>_.
           bnd (release L_wait) (\<lambda>_.
           ret (Inl (sint (p_pid pr))))))))
       else
         bnd (release (L_proc pp)) (\<lambda>_.
         wait_scan p addr pps True)))
     else wait_scan p addr pps havekids)"

definition wait :: "u64 \<Rightarrow> (int, 'a proc_st_scheme) m" where
  "wait addr = with_myproc (\<lambda>p.
     bnd (acquire L_wait) (\<lambda>_.
     bnd (wait_scan p addr [0..<NPROC] False) (\<lambda>r.
     case r of
       Inl v \<Rightarrow> ret v
     | Inr havekids \<Rightarrow>
         bnd (if \<not> havekids then ret True else killed p) (\<lambda>stop.
         if stop then bnd (release L_wait) (\<lambda>_. ret (-1))
         else sleep (Some (Ch_proc p)) L_wait))))"

section \<open>Copies to user or kernel addresses\<close>

text \<open>
  A \<^verbatim>\<open>(user_dst, dst)\<close> pair: a user address, a kernel address in physical memory, or an offset in
  the caller's local buffer.
\<close>

datatype addr = UserVA u64 | KernPA u64 | KernLocal nat

fun addr_plus :: "addr \<Rightarrow> nat \<Rightarrow> addr" where
  "addr_plus (UserVA a) n = UserVA (a + of_nat n)"
| "addr_plus (KernPA a) n = KernPA (a + of_nat n)"
| "addr_plus (KernLocal a) n = KernLocal (a + n)"

definition either_copyout :: "addr \<Rightarrow> u8 list \<Rightarrow> (int, 'a proc_st_scheme) m" where
  "either_copyout dst src = (case dst of
       UserVA va \<Rightarrow> with_myproc (\<lambda>p.
         bnd (gets (\<lambda>s. p_pagetable (procs s p))) (\<lambda>pagetable. copyout pagetable va src))
     | KernPA a \<Rightarrow> bnd (set_ram (\<lambda>m. wr m a src)) (\<lambda>_. ret 0)
     | KernLocal off \<Rightarrow>
         bnd (modify (\<lambda>s. s\<lparr>klocal := wrb (klocal s) off src\<rparr>)) (\<lambda>_. ret 0))"

definition either_copyin :: "addr \<Rightarrow> nat \<Rightarrow> (int \<times> u8 list, 'a proc_st_scheme) m" where
  "either_copyin src len = (case src of
       UserVA va \<Rightarrow> with_myproc (\<lambda>p.
         bnd (gets (\<lambda>s. p_pagetable (procs s p))) (\<lambda>pagetable. copyin pagetable va len))
     | KernPA a \<Rightarrow> gets (\<lambda>s. (0, rd (ram s) a len))
     | KernLocal off \<Rightarrow> gets (\<lambda>s. (0, rdb (klocal s) off len)))"

section \<open>What wakeup does\<close>

text \<open>
  \<^verbatim>\<open>wakeup(chan)\<close> as one step: every process of the table that sleeps on the channel, except the
  caller, becomes runnable and nothing else changes.
\<close>

definition wakes :: "nat option \<Rightarrow> chan option \<Rightarrow> proc \<Rightarrow> nat \<Rightarrow> bool" where
  "wakes me ch pr p \<longleftrightarrow> Some p \<noteq> me \<and> p_state pr = SLEEPING \<and> p_chan pr = ch"

definition woken :: "nat option \<Rightarrow> chan option \<Rightarrow> nat set \<Rightarrow> (nat \<Rightarrow> proc) \<Rightarrow> nat \<Rightarrow> proc" where
  "woken me ch P ps = (\<lambda>p. if p \<in> P \<and> wakes me ch (ps p) p then (ps p)\<lparr>p_state := RUNNABLE\<rparr> else ps p)"

definition wakeup_blocked :: "'a proc_st_scheme \<Rightarrow> bool" where
  "wakeup_blocked s \<longleftrightarrow> (\<exists>p < NPROC. Some p \<noteq> curproc s \<and> L_proc p \<in> set (held s))"

lemma wakeup_one_apply:
  "wakeup_one ch p s =
   (if Some p \<noteq> curproc s \<and> L_proc p \<in> set (held s) then Panic ''acquire''
    else Ok () (s\<lparr>procs := woken (curproc s) ch {p} (procs s)\<rparr>))"
  by (auto simp: wakeup_one_def myproc_def upd_proc_def m_simps woken_def wakes_def fun_eq_iff
      intro!: proc_st.fold_congs)

lemma wakeup_list:
  assumes "distinct ps"
  shows "for_each ps (wakeup_one ch) s =
   (if \<exists>p\<in>set ps. Some p \<noteq> curproc s \<and> L_proc p \<in> set (held s) then Panic ''acquire''
    else Ok () (s\<lparr>procs := woken (curproc s) ch (set ps) (procs s)\<rparr>))"
  using assms
proof (induction ps arbitrary: s)
  case Nil
  show ?case by (simp add: m_simps woken_def)
next
  case (Cons p ps)
  have "woken (curproc s) ch (set ps) (woken (curproc s) ch {p} (procs s)) =
      woken (curproc s) ch (set (p # ps)) (procs s)"
    using Cons.prems by (auto simp: woken_def wakes_def fun_eq_iff)
  then show ?case using Cons by (simp add: bnd_def wakeup_one_apply)
qed

lemma wakeup_apply [m_simps]:
  "wakeup ch s =
     (if wakeup_blocked s then Panic ''acquire''
      else Ok () (s\<lparr>procs := woken (curproc s) ch {..<NPROC} (procs s)\<rparr>))"
  unfolding wakeup_def wakeup_list [OF distinct_upt] wakeup_blocked_def
  by (auto simp: lessThan_atLeast0)

lemma bnd_wakeup [m_simps]:
  "bnd (wakeup ch) k s =
     (if wakeup_blocked s then Panic ''acquire''
      else k () (s\<lparr>procs := woken (curproc s) ch {..<NPROC} (procs s)\<rparr>))"
  by (simp add: bnd_def wakeup_apply)

section \<open>What sleep and killed do\<close>

text \<open>\<^verbatim>\<open>sleep\<close> leaves the process asleep on the channel, holding only its own lock.\<close>

definition asleep :: "nat \<Rightarrow> chan \<Rightarrow> 'a proc_st_scheme \<Rightarrow> 'a proc_st_scheme" where
  "asleep p cn s = s\<lparr>held := [L_proc p],
     procs := (procs s)(p := (procs s p)\<lparr>p_chan := Some cn, p_state := SLEEPING\<rparr>)\<rparr>"

lemma sleep_apply:
  assumes "held s = [l]" and "curproc s = Some p" and "l \<noteq> L_proc p"
  shows "sleep (Some cn) l s = Swtch (asleep p cn s)"
  using assms
  by (simp add: sleep_def with_myproc_def myproc_def sched_def upd_proc_def asleep_def m_simps)

lemma killed_apply:
  assumes "L_proc p \<notin> set (held s)"
  shows "killed p s = Ok (p_killed (procs s p)) s"
  using assms by (simp add: killed_def m_simps)

end
