(* ===== verification/Printf.thy ===== *)
theory Printf
  imports Spinlock
begin

text \<open>
  \<^verbatim>\<open>kernel/printf.c\<close> and the output half of \<^verbatim>\<open>kernel/console.c\<close> it uses. What has been sent to
  the UART is the list \<open>tty\<close>. A format string is its list of bytes; a variable argument is the
  64-bit slot it is passed in, or a string.
\<close>

section \<open>Characters\<close>

text \<open>
  The wait for the transmit register is over when the UART is idle; \<^verbatim>\<open>panicked\<close> is never set
  here, because a panic ends the run.
\<close>

definition uartputc_sync :: "u32 \<Rightarrow> (unit, 'a hart_scheme) m" where
  "uartputc_sync c = modify (\<lambda>s. s\<lparr>tty := tty s @ [ucast c]\<rparr>)"

definition BACKSPACE :: u32 where "BACKSPACE = 0x100"

definition consputc :: "u32 \<Rightarrow> (unit, 'a hart_scheme) m" where
  "consputc c =
     (if c = BACKSPACE
      then block [uartputc_sync 8, uartputc_sync 32, uartputc_sync 8]
      else uartputc_sync c)"

definition consputb :: "u8 \<Rightarrow> (unit, 'a hart_scheme) m" where
  "consputb b = consputc (ucast b)"

section \<open>Numbers\<close>

definition digits :: "u8 list" where
  "digits = bytes ''0123456789abcdef''"

text \<open>The \<^verbatim>\<open>do\<close> loop of \<^verbatim>\<open>printint\<close>: the digits, least significant first.\<close>

function digits_rev :: "u64 \<Rightarrow> u64 \<Rightarrow> u8 list" where
  "digits_rev x base = digits ! unat (x mod base) #
     (if base < 2 \<or> x div base = 0 then [] else digits_rev (x div base) base)"
  by auto
termination
proof (relation "measure (\<lambda>(x, base). unat x)", goal_cases)
  case (2 x base)
  then have "x \<noteq> 0" "1 < unat base" by (auto simp: not_less word_le_nat_alt)
  then have "unat x div unat base < unat x" by (intro div_less_dividend) (auto simp: unat_gt_0)
  then show ?case by (simp add: unat_div)
qed simp

declare digits_rev.simps [simp del]

text \<open>What \<^verbatim>\<open>printint\<close> stores in \<^verbatim>\<open>buf\<close>, in the order it stores it.\<close>

definition printint_buf :: "u64 \<Rightarrow> u64 \<Rightarrow> bool \<Rightarrow> u8 list" where
  "printint_buf xx base sign =
     (let neg = (sign \<and> sint xx < 0); x = (if neg then - xx else xx) in
      digits_rev x base @ (if neg then bytes ''-'' else []))"

text \<open>\<^verbatim>\<open>char buf[16]\<close>: storing a seventeenth character is out of bounds.\<close>

definition printint :: "u64 \<Rightarrow> u64 \<Rightarrow> bool \<Rightarrow> (unit, 'a hart_scheme) m" where
  "printint xx base sign =
     (let buf = printint_buf xx base sign in
      if length buf > 16 then undef else for_each (rev buf) consputb)"

primrec printptr_loop :: "nat \<Rightarrow> u64 \<Rightarrow> (unit, 'a hart_scheme) m" where
  "printptr_loop 0 x = ret ()"
| "printptr_loop (Suc n) x = block [
     consputb (digits ! unat (drop_bit 60 x)),
     printptr_loop n (push_bit 4 x)]"

definition printptr :: "u64 \<Rightarrow> (unit, 'a hart_scheme) m" where
  "printptr x = block [
     for_each (bytes ''0x'') consputb,
     printptr_loop 16 x]"

section \<open>printf\<close>

datatype parg = Slot u64 | Str "u8 list option"

definition va_int :: "parg list \<Rightarrow> (u64 \<Rightarrow> parg list \<Rightarrow> ('r, 's) m) \<Rightarrow> ('r, 's) m" where
  "va_int ap k = (case ap of Slot w # ap' \<Rightarrow> k (scast (ucast w :: u32)) ap' | _ \<Rightarrow> undef)"

definition va_uint64 :: "parg list \<Rightarrow> (u64 \<Rightarrow> parg list \<Rightarrow> ('r, 's) m) \<Rightarrow> ('r, 's) m" where
  "va_uint64 ap k = (case ap of Slot w # ap' \<Rightarrow> k w ap' | _ \<Rightarrow> undef)"

definition va_str :: "parg list \<Rightarrow> (u8 list option \<Rightarrow> parg list \<Rightarrow> ('r, 's) m) \<Rightarrow> ('r, 's) m" where
  "va_str ap k = (case ap of Str w # ap' \<Rightarrow> k w ap' | _ \<Rightarrow> undef)"

text \<open>\<^verbatim>\<open>fmt[i]\<close> on the rest of the format, 0 at its end.\<close>

definition at :: "u8 list \<Rightarrow> nat \<Rightarrow> u8" where
  "at fmt i = (if i < length fmt then fmt ! i else 0)"

definition nl :: string where
  "nl = [CHR 0x0A]"

definition ch :: "string \<Rightarrow> u8" where
  "ch c = bytes c ! 0"

text \<open>
  One conversion: \<open>c0\<close>, \<open>c1\<close>, \<open>c2\<close> are the characters after the percent sign. The result is
  how many of them were used and the arguments left, or \<open>None\<close> at the end of the format.
\<close>

definition printf_conv :: "u8 \<Rightarrow> u8 \<Rightarrow> u8 \<Rightarrow> parg list \<Rightarrow> ((nat \<times> parg list) option, 'a hart_scheme) m" where
  "printf_conv c0 c1 c2 ap =
     (let used = (\<lambda>n ap'. ret (Some (n, ap'))) in
      if c0 = ch ''d'' then va_int ap (\<lambda>x ap'. bnd (printint x 10 True) (\<lambda>_. used 1 ap'))
      else if c0 = ch ''l'' \<and> c1 = ch ''d''
        then va_uint64 ap (\<lambda>x ap'. bnd (printint x 10 True) (\<lambda>_. used 2 ap'))
      else if c0 = ch ''l'' \<and> c1 = ch ''l'' \<and> c2 = ch ''d''
        then va_uint64 ap (\<lambda>x ap'. bnd (printint x 10 True) (\<lambda>_. used 3 ap'))
      else if c0 = ch ''u'' then va_int ap (\<lambda>x ap'. bnd (printint x 10 False) (\<lambda>_. used 1 ap'))
      else if c0 = ch ''l'' \<and> c1 = ch ''u''
        then va_uint64 ap (\<lambda>x ap'. bnd (printint x 10 False) (\<lambda>_. used 2 ap'))
      else if c0 = ch ''l'' \<and> c1 = ch ''l'' \<and> c2 = ch ''u''
        then va_uint64 ap (\<lambda>x ap'. bnd (printint x 10 False) (\<lambda>_. used 3 ap'))
      else if c0 = ch ''x'' then va_int ap (\<lambda>x ap'. bnd (printint x 16 False) (\<lambda>_. used 1 ap'))
      else if c0 = ch ''l'' \<and> c1 = ch ''x''
        then va_uint64 ap (\<lambda>x ap'. bnd (printint x 16 False) (\<lambda>_. used 2 ap'))
      else if c0 = ch ''l'' \<and> c1 = ch ''l'' \<and> c2 = ch ''x''
        then va_uint64 ap (\<lambda>x ap'. bnd (printint x 16 False) (\<lambda>_. used 3 ap'))
      else if c0 = ch ''p'' then va_uint64 ap (\<lambda>x ap'. bnd (printptr x) (\<lambda>_. used 1 ap'))
      else if c0 = ch ''s'' then va_str ap (\<lambda>x ap'.
        bnd (for_each (case x of None \<Rightarrow> bytes ''(null)'' | Some bs \<Rightarrow> bs) consputb) (\<lambda>_. used 1 ap'))
      else if c0 = ch ''%'' then bnd (consputb (ch ''%'')) (\<lambda>_. used 1 ap)
      else if c0 = 0 then ret None
      else bnd (consputb (ch ''%'')) (\<lambda>_. bnd (consputb c0) (\<lambda>_. used 1 ap)))"

function printf_loop :: "u8 list \<Rightarrow> parg list \<Rightarrow> (unit, 'a hart_scheme) m" where
  "printf_loop fmt ap s =
     (if fmt = [] then ret ()
      else if hd fmt \<noteq> ch ''%'' then bnd (consputb (hd fmt)) (\<lambda>_. printf_loop (tl fmt) ap)
      else
        bnd (printf_conv (at fmt 1) (at fmt 2) (at fmt 3) ap) (\<lambda>r.
        case r of None \<Rightarrow> ret ()
        | Some u \<Rightarrow> printf_loop (drop (Suc (fst u)) fmt) (snd u))) s"
  by auto
termination by (relation "measure (\<lambda>(fmt, ap, s). length fmt)") auto

declare printf_loop.simps [simp del]

definition printf :: "string \<Rightarrow> parg list \<Rightarrow> (unit, 'a hart_scheme) m" where
  "printf fmt ap =
     bnd (gets pr_locking) (\<lambda>locking. block [
       if_do locking (acquire L_pr),
       printf_loop (bytes fmt) ap,
       if_do locking (release L_pr)])"

definition printfinit :: "(unit, 'a hart_scheme) m" where
  "printfinit = block [
     init_lock L_pr,
     modify (\<lambda>s. s\<lparr>pr_locking := True\<rparr>)]"

end
