(* ===== verification/Console.thy ===== *)
theory Console
  imports Proc Printf
begin

text \<open>
  \<^verbatim>\<open>kernel/uart.c\<close> and \<^verbatim>\<open>kernel/console.c\<close>, and the debugging routine \<^verbatim>\<open>procdump\<close>. The device
  is a parameter: \<open>lsr_idle k\<close> is the transmit-idle bit the \<open>k\<close>-th read of the line status
  register returns, \<open>uart_rx\<close> the characters that have arrived, \<open>uart_ctl\<close> the writes to the
  control registers, and \<open>tty\<close> the characters sent.
\<close>

text \<open>\<^verbatim>\<open>struct devsw\<close>: the two driver functions the sources ever store are named.\<close>

datatype devfn = F_consoleread | F_consolewrite

record devsw =
  dev_read :: "devfn option"
  dev_write :: "devfn option"

definition CONSOLE :: nat where "CONSOLE = 1"

record con_st = proc_st +
  devsw_tab :: "nat \<Rightarrow> devsw"
  uart_tx_buf :: "nat \<Rightarrow> u8"
  uart_tx_w :: u64
  uart_tx_r :: u64
  uart_rx :: "u8 list"
  uart_ctl :: "(nat \<times> u8) list"
  lsr_idle :: "nat \<Rightarrow> bool"
  lsr_reads :: nat
  cons_buf :: "nat \<Rightarrow> u8"
  cons_r :: u32
  cons_w :: u32
  cons_e :: u32

section \<open>uart.c\<close>

definition UART_TX_BUF_SIZE :: nat where "UART_TX_BUF_SIZE = 32"

definition uart_write :: "nat \<Rightarrow> u8 \<Rightarrow> (unit, 'a con_st_scheme) m" where
  "uart_write reg v = modify (\<lambda>s. s\<lparr>uart_ctl := uart_ctl s @ [(reg, v)]\<rparr>)"

definition uartinit :: "(unit, 'a con_st_scheme) m" where
  "uartinit = block [
     uart_write 1 0,
     uart_write 3 0x80,
     uart_write 0 0x03,
     uart_write 1 0,
     uart_write 3 0x03,
     uart_write 2 0x07,
     uart_write 1 0x03,
     init_lock L_uart]"

text \<open>\<^verbatim>\<open>ReadReg(LSR) & LSR_TX_IDLE\<close>.\<close>

definition read_lsr_idle :: "(bool, 'a con_st_scheme) m" where
  "read_lsr_idle =
     bnd (gets (\<lambda>s. lsr_idle s (lsr_reads s))) (\<lambda>b.
     bnd (modify (\<lambda>s. s\<lparr>lsr_reads := Suc (lsr_reads s)\<rparr>)) (\<lambda>_.
     ret b))"

text \<open>
  \<^verbatim>\<open>uartstart\<close>, with the two indices as the loop reads them; each turn sends one character, so
  the loop ends.
\<close>

function uartstart_loop :: "u64 \<Rightarrow> u64 \<Rightarrow> (unit, 'a con_st_scheme) m" where
  "uartstart_loop w r s =
     (if w = r then ret ()
      else
        bnd read_lsr_idle (\<lambda>idle.
        if \<not> idle then ret ()
        else
          bnd (gets (\<lambda>s. uart_tx_buf s (unat r mod UART_TX_BUF_SIZE))) (\<lambda>c.
          bnd (modify (\<lambda>s. s\<lparr>uart_tx_r := r + 1\<rparr>)) (\<lambda>_.
          bnd (wakeup (Some Ch_uart)) (\<lambda>_.
          bnd (modify (\<lambda>s. s\<lparr>tty := tty s @ [c]\<rparr>)) (\<lambda>_.
          uartstart_loop w (r + 1))))))) s"
  by auto
termination
proof (relation "measure (\<lambda>(w, r, s). unat (w - r))", goal_cases)
  case (2 w r s)
  then have "w - r \<noteq> 0" by auto
  then have "unat (w - r - 1) < unat (w - r)" by (simp add: unat_minus_one unat_gt_0)
  then show ?case by (simp add: algebra_simps)
qed simp

declare uartstart_loop.simps [simp del]

definition uartstart :: "(unit, 'a con_st_scheme) m" where
  "uartstart = bnd (gets (\<lambda>s. (uart_tx_w s, uart_tx_r s))) (\<lambda>wr. uartstart_loop (fst wr) (snd wr))"

definition uartputc :: "u8 \<Rightarrow> (unit, 'a con_st_scheme) m" where
  "uartputc c =
     bnd (acquire L_uart) (\<lambda>_.
     bnd (gets (\<lambda>s. uart_tx_w s = uart_tx_r s + of_nat UART_TX_BUF_SIZE)) (\<lambda>full.
     if full then sleep (Some Ch_uart) L_uart
     else block [
       modify (\<lambda>s. s\<lparr>uart_tx_buf := (uart_tx_buf s)(unat (uart_tx_w s) mod UART_TX_BUF_SIZE := c)\<rparr>),
       modify (\<lambda>s. s\<lparr>uart_tx_w := uart_tx_w s + 1\<rparr>),
       uartstart,
       release L_uart]))"

definition uartgetc :: "(u8 option, 'a con_st_scheme) m" where
  "uartgetc =
     bnd (gets uart_rx) (\<lambda>rx.
     case rx of
       [] \<Rightarrow> ret None
     | c # cs \<Rightarrow> bnd (modify (\<lambda>s. s\<lparr>uart_rx := cs\<rparr>)) (\<lambda>_. ret (Some c)))"

section \<open>procdump\<close>

fun state_name :: "procstate \<Rightarrow> string" where
  "state_name UNUSED = ''unused''"
| "state_name USED = ''used''"
| "state_name SLEEPING = ''sleep ''"
| "state_name RUNNABLE = ''runble''"
| "state_name RUNNING = ''run   ''"
| "state_name ZOMBIE = ''zombie''"

definition procdump :: "(unit, 'a proc_st_scheme) m" where
  "procdump = block [
     printf nl [],
     for_each [0..<NPROC] (\<lambda>p.
       bnd (gets (\<lambda>s. procs s p)) (\<lambda>pr.
       if_do (p_state pr \<noteq> UNUSED) (block [
         printf ''%d %s %s'' [Slot (ucast (p_pid pr)), Str (Some (bytes (state_name (p_state pr)))),
           Str (Some (cstr (p_name pr) 16))],
         printf nl []])))]"

section \<open>console.c\<close>

definition INPUT_BUF_SIZE :: nat where "INPUT_BUF_SIZE = 128"

text \<open>\<^verbatim>\<open>C(x)\<close>.\<close>

definition Ctrl :: "string \<Rightarrow> u8" where
  "Ctrl c = ch c - 0x40"

primrec consolewrite_loop :: "nat \<Rightarrow> nat \<Rightarrow> addr \<Rightarrow> (nat, 'a con_st_scheme) m" where
  "consolewrite_loop 0 i src = ret i"
| "consolewrite_loop (Suc k) i src =
     bnd (either_copyin (addr_plus src i) 1) (\<lambda>r.
     if fst r = -1 then ret i
     else bnd (uartputc (hd (snd r))) (\<lambda>_. consolewrite_loop k (Suc i) src))"

definition consolewrite :: "addr \<Rightarrow> int \<Rightarrow> (int, 'a con_st_scheme) m" where
  "consolewrite src n = bnd (consolewrite_loop (nat n) 0 src) (\<lambda>i. ret (int i))"

text \<open>
  The loop of \<^verbatim>\<open>consoleread\<close> with \<open>n\<close> characters left; a negative count reads nothing and
  returns \<^verbatim>\<open>target - n\<close>, zero, as a count of zero does. A reader that sleeps here resumes with the
  same arguments.
\<close>

primrec consoleread_loop :: "nat \<Rightarrow> nat \<Rightarrow> addr \<Rightarrow> (int, 'a con_st_scheme) m" where
  "consoleread_loop 0 target dst = bnd (release L_cons) (\<lambda>_. ret (int target))"
| "consoleread_loop (Suc n) target dst =
     bnd (gets (\<lambda>s. cons_r s = cons_w s)) (\<lambda>none.
     if none
     then with_myproc (\<lambda>p.
       bnd (killed p) (\<lambda>k.
       if k then bnd (release L_cons) (\<lambda>_. ret (-1))
       else sleep (Some Ch_cons) L_cons))
     else
       bnd (gets (\<lambda>s. cons_buf s (unat (cons_r s) mod INPUT_BUF_SIZE))) (\<lambda>c.
       bnd (modify (\<lambda>s. s\<lparr>cons_r := cons_r s + 1\<rparr>)) (\<lambda>_.
       let done = bnd (release L_cons) (\<lambda>_. ret (int target - int (Suc n))) in
       if c = Ctrl ''D''
       then
         bnd (if_do (Suc n < target) (modify (\<lambda>s. s\<lparr>cons_r := cons_r s - 1\<rparr>))) (\<lambda>_. done)
       else
         bnd (either_copyout dst [c]) (\<lambda>r.
         if r = -1 then done
         else if c = 10 then bnd (release L_cons) (\<lambda>_. ret (int target - int n))
         else consoleread_loop n target (addr_plus dst 1)))))"

definition consoleread :: "addr \<Rightarrow> int \<Rightarrow> (int, 'a con_st_scheme) m" where
  "consoleread dst n = bnd (acquire L_cons) (\<lambda>_. consoleread_loop (nat n) (nat n) dst)"

text \<open>Kill line: the edit index \<open>e\<close> goes back to the write index or to the last newline.\<close>

function kill_line :: "u32 \<Rightarrow> u32 \<Rightarrow> (unit, 'a con_st_scheme) m" where
  "kill_line e w s =
     (if e \<noteq> w
      then
        bnd (gets (\<lambda>s. cons_buf s (unat (e - 1) mod INPUT_BUF_SIZE))) (\<lambda>c.
        if c \<noteq> 10
        then
          bnd (modify (\<lambda>s. s\<lparr>cons_e := e - 1\<rparr>)) (\<lambda>_.
          bnd (consputc BACKSPACE) (\<lambda>_.
          kill_line (e - 1) w))
        else ret ())
      else ret ()) s"
  by auto
termination
proof (relation "measure (\<lambda>(e, w, s). unat (e - w))", goal_cases)
  case (2 e w s)
  then have "e - w \<noteq> 0" by auto
  then have "unat (e - w - 1) < unat (e - w)" by (simp add: unat_minus_one unat_gt_0)
  then show ?case by (simp add: algebra_simps)
qed simp

declare kill_line.simps [simp del]

definition consoleintr :: "u8 \<Rightarrow> (unit, 'a con_st_scheme) m" where
  "consoleintr c = block [
     acquire L_cons,
     (if c = Ctrl ''P'' then procdump
      else if c = Ctrl ''U''
      then bnd (gets (\<lambda>s. (cons_e s, cons_w s))) (\<lambda>ew. kill_line (fst ew) (snd ew))
      else if c = Ctrl ''H'' \<or> c = 0x7F
      then bnd (gets (\<lambda>s. cons_e s \<noteq> cons_w s)) (\<lambda>some.
        if_do some (block [
          modify (\<lambda>s. s\<lparr>cons_e := cons_e s - 1\<rparr>),
          consputc BACKSPACE]))
      else bnd (gets (\<lambda>s. cons_e s - cons_r s < of_nat INPUT_BUF_SIZE)) (\<lambda>room.
        if_do (c \<noteq> 0 \<and> room) (
          let c = (if c = 13 then 10 else c) in
          block [
            consputb c,
            modify (\<lambda>s. s\<lparr>cons_buf := (cons_buf s)(unat (cons_e s) mod INPUT_BUF_SIZE := c)\<rparr>),
            modify (\<lambda>s. s\<lparr>cons_e := cons_e s + 1\<rparr>),
            bnd (gets (\<lambda>s. cons_e s - cons_r s = of_nat INPUT_BUF_SIZE)) (\<lambda>full.
            if_do (c = 10 \<or> c = Ctrl ''D'' \<or> full) (block [
              modify (\<lambda>s. s\<lparr>cons_w := cons_e s\<rparr>),
              wakeup (Some Ch_cons)]))]))),
     release L_cons]"

text \<open>\<^verbatim>\<open>uartintr\<close> handles every character that has arrived.\<close>

definition uartintr :: "(unit, 'a con_st_scheme) m" where
  "uartintr =
     bnd (gets (\<lambda>s. length (uart_rx s))) (\<lambda>k. block [
       repeat_m k (bnd uartgetc (\<lambda>c. case c of None \<Rightarrow> ret () | Some c \<Rightarrow> consoleintr c)),
       acquire L_uart,
       uartstart,
       release L_uart])"

definition consoleinit :: "(unit, 'a con_st_scheme) m" where
  "consoleinit = block [
     init_lock L_cons,
     uartinit,
     modify (\<lambda>s. s\<lparr>devsw_tab := (devsw_tab s)
       (CONSOLE := \<lparr>dev_read = Some F_consoleread, dev_write = Some F_consolewrite\<rparr>)\<rparr>)]"

end
