(* ===== verification/Sleeplock.thy ===== *)
theory Sleeplock
  imports Console
begin

text \<open>
  \<^verbatim>\<open>kernel/sleeplock.c\<close>. The wait loop of \<^verbatim>\<open>acquiresleep\<close> is one attempt: when the lock is taken
  the thread sleeps (outcome \<open>Swtch\<close>) and the attempt starts again when it is woken.
\<close>

record sleeplock =
  sl_locked :: bool
  sl_pid :: u32

record slock_st = con_st +
  slocks :: "slid \<Rightarrow> sleeplock"

definition upd_slock :: "slid \<Rightarrow> (sleeplock \<Rightarrow> sleeplock) \<Rightarrow> (unit, 'a slock_st_scheme) m" where
  "upd_slock l f = modify (\<lambda>s. s\<lparr>slocks := (slocks s)(l := f (slocks s l))\<rparr>)"

definition initsleeplock :: "slid \<Rightarrow> (unit, 'a slock_st_scheme) m" where
  "initsleeplock l = block [
     init_lock (L_sleep l),
     upd_slock l (\<lambda>lk. lk\<lparr>sl_locked := False\<rparr>),
     upd_slock l (\<lambda>lk. lk\<lparr>sl_pid := 0\<rparr>)]"

definition acquiresleep :: "slid \<Rightarrow> (unit, 'a slock_st_scheme) m" where
  "acquiresleep l =
     bnd (acquire (L_sleep l)) (\<lambda>_.
     bnd (gets (\<lambda>s. sl_locked (slocks s l))) (\<lambda>taken.
     if taken then sleep (Some (Ch_sleep l)) (L_sleep l)
     else
       bnd (upd_slock l (\<lambda>lk. lk\<lparr>sl_locked := True\<rparr>)) (\<lambda>_.
       bnd (with_myproc (\<lambda>p. gets (\<lambda>s. p_pid (procs s p)))) (\<lambda>pid.
       bnd (upd_slock l (\<lambda>lk. lk\<lparr>sl_pid := pid\<rparr>)) (\<lambda>_.
       release (L_sleep l))))))"

definition releasesleep :: "slid \<Rightarrow> (unit, 'a slock_st_scheme) m" where
  "releasesleep l = block [
     acquire (L_sleep l),
     upd_slock l (\<lambda>lk. lk\<lparr>sl_locked := False\<rparr>),
     upd_slock l (\<lambda>lk. lk\<lparr>sl_pid := 0\<rparr>),
     wakeup (Some (Ch_sleep l)),
     release (L_sleep l)]"

text \<open>\<^verbatim>\<open>lk->locked && (lk->pid == myproc()->pid)\<close>: the second test only when the first holds.\<close>

definition holdingsleep :: "slid \<Rightarrow> (bool, 'a slock_st_scheme) m" where
  "holdingsleep l =
     bnd (acquire (L_sleep l)) (\<lambda>_.
     bnd (gets (\<lambda>s. slocks s l)) (\<lambda>lk.
     bnd (if sl_locked lk
          then with_myproc (\<lambda>p. gets (\<lambda>s. sl_pid lk = p_pid (procs s p)))
          else ret False) (\<lambda>r.
     bnd (release (L_sleep l)) (\<lambda>_.
     ret r))))"

section \<open>What the routines do\<close>

lemma bnd_upd_slock [m_simps]:
  "bnd (upd_slock l f) k s = k () (s\<lparr>slocks := (slocks s)(l := f (slocks s l))\<rparr>)"
  by (simp add: upd_slock_def m_simps)

lemma sleeplock_both [simp]: "(r :: sleeplock)\<lparr>sl_locked := a, sl_pid := b\<rparr> = \<lparr>sl_locked = a, sl_pid = b\<rparr>"
  by (cases r) simp

lemma acquiresleep_free:
  assumes "L_sleep l \<notin> set (held s)" and "\<not> sl_locked (slocks s l)" and "curproc s = Some p"
  shows "acquiresleep l s = Ok () (s\<lparr>slocks := (slocks s)(l := \<lparr>sl_locked = True, sl_pid = p_pid (procs s p)\<rparr>)\<rparr>)"
  using assms by (simp add: acquiresleep_def with_myproc_def myproc_def m_simps)

lemma acquiresleep_taken:
  assumes "held s = []" and "sl_locked (slocks s l)" and "curproc s = Some p"
  shows "acquiresleep l s = Swtch (s\<lparr>held := [L_proc p],
    procs := (procs s)(p := (procs s p)\<lparr>p_chan := Some (Ch_sleep l), p_state := SLEEPING\<rparr>)\<rparr>)"
  using assms
  by (simp add: acquiresleep_def with_myproc_def myproc_def sleep_def sched_def upd_proc_def m_simps)

lemma releasesleep_apply:
  assumes "L_sleep l \<notin> set (held s)" and "\<not> wakeup_blocked s"
  shows "releasesleep l s = Ok () (s\<lparr>
    slocks := (slocks s)(l := \<lparr>sl_locked = False, sl_pid = 0\<rparr>),
    procs := woken (curproc s) (Some (Ch_sleep l)) {..<NPROC} (procs s)\<rparr>)"
  using assms by (simp add: releasesleep_def m_simps wakeup_blocked_def)

lemma holdingsleep_apply:
  assumes "L_sleep l \<notin> set (held s)" and "curproc s = Some p"
  shows "holdingsleep l s = Ok (sl_locked (slocks s l) \<and> sl_pid (slocks s l) = p_pid (procs s p)) s"
  using assms by (simp add: holdingsleep_def with_myproc_def myproc_def m_simps)

end
