(* ===== verification/Bio.thy ===== *)
theory Bio
  imports Sleeplock
begin

text \<open>
  \<^verbatim>\<open>kernel/bio.c\<close>: the buffer cache, with the doubly linked list threaded through the buffers as
  the code has it. Buffers are \<^verbatim>\<open>bcache.buf[0..NBUF-1]\<close>; index \<open>NBUF\<close> is \<^verbatim>\<open>bcache.head\<close>.

  \<^verbatim>\<open>virtio_disk_rw\<close> is used through its contract: when it returns, the block has been
  transferred. \<open>disk\<close> is the content of the disk and \<open>dtrace\<close> the sequence of blocks written
  to it, most recent first, which is what survives a crash.
\<close>

definition BSIZE :: nat where "BSIZE = 1024"

record buf =
  b_valid :: bool
  b_disk :: bool
  b_dev :: u32
  b_blockno :: u32
  b_refcnt :: u32
  b_prev :: nat
  b_next :: nat
  b_data :: blk

record bio_st = slock_st +
  bufs :: "nat \<Rightarrow> buf"
  disk :: "u32 \<Rightarrow> blk"
  dtrace :: "(u32 \<times> blk) list"

abbreviation bhead :: nat where
  "bhead \<equiv> NBUF"

definition upd_buf :: "nat \<Rightarrow> (buf \<Rightarrow> buf) \<Rightarrow> (unit, 'a bio_st_scheme) m" where
  "upd_buf b f = modify (\<lambda>s. s\<lparr>bufs := (bufs s)(b := f (bufs s b))\<rparr>)"

definition get_buf :: "nat \<Rightarrow> (buf, 'a bio_st_scheme) m" where
  "get_buf b = gets (\<lambda>s. bufs s b)"

definition set_next :: "nat \<Rightarrow> nat \<Rightarrow> (unit, 'a bio_st_scheme) m" where
  "set_next b n = upd_buf b (\<lambda>bf. bf\<lparr>b_next := n\<rparr>)"

definition set_prev :: "nat \<Rightarrow> nat \<Rightarrow> (unit, 'a bio_st_scheme) m" where
  "set_prev b n = upd_buf b (\<lambda>bf. bf\<lparr>b_prev := n\<rparr>)"

definition set_data :: "nat \<Rightarrow> blk \<Rightarrow> (unit, 'a bio_st_scheme) m" where
  "set_data b d = upd_buf b (\<lambda>bf. bf\<lparr>b_data := d\<rparr>)"

text \<open>The four assignments that put \<open>b\<close> behind the head of the list.\<close>

definition link_front :: "nat \<Rightarrow> (unit, 'a bio_st_scheme) m" where
  "link_front b = block [
     bnd (get_buf bhead) (\<lambda>h. set_prev (b_next h) b),
     set_next bhead b]"

definition binit_one :: "nat \<Rightarrow> (unit, 'a bio_st_scheme) m" where
  "binit_one b = block [
     bnd (get_buf bhead) (\<lambda>h. set_next b (b_next h)),
     set_prev b bhead,
     initsleeplock (SL_buf b),
     link_front b]"

definition binit :: "(unit, 'a bio_st_scheme) m" where
  "binit = block [
     init_lock L_bcache,
     set_prev bhead bhead,
     set_next bhead bhead,
     for_each [0..<NBUF] binit_one]"

definition virtio_disk_rw :: "nat \<Rightarrow> bool \<Rightarrow> (unit, 'a bio_st_scheme) m" where
  "virtio_disk_rw b write =
     bnd (get_buf b) (\<lambda>bf.
     if write
     then modify (\<lambda>s. s\<lparr>disk := (disk s)(b_blockno bf := b_data bf),
       dtrace := (b_blockno bf, b_data bf) # dtrace s\<rparr>)
     else bnd (gets (\<lambda>s. disk s (b_blockno bf))) (\<lambda>d. set_data b d))"

text \<open>
  The two searches of \<^verbatim>\<open>bget\<close>, from \<open>b\<close> along the list until the head: \<open>Some None\<close> when the
  head is reached, \<open>None\<close> when the search never ends.
\<close>

partial_function (option) scan_next ::
  "(nat \<Rightarrow> buf) \<Rightarrow> u32 \<Rightarrow> u32 \<Rightarrow> nat \<Rightarrow> nat option option" where
  "scan_next bs dev blockno b =
     (if b = bhead then Some None
      else if b_dev (bs b) = dev \<and> b_blockno (bs b) = blockno then Some (Some b)
      else scan_next bs dev blockno (b_next (bs b)))"

partial_function (option) scan_prev :: "(nat \<Rightarrow> buf) \<Rightarrow> nat \<Rightarrow> nat option option" where
  "scan_prev bs b =
     (if b = bhead then Some None
      else if b_refcnt (bs b) = 0 then Some (Some b)
      else scan_prev bs (b_prev (bs b)))"

definition ends :: "'r option \<Rightarrow> ('r \<Rightarrow> ('b, 's) m) \<Rightarrow> ('b, 's) m" where
  "ends r k = (case r of None \<Rightarrow> forever | Some x \<Rightarrow> k x)"

definition bget :: "u32 \<Rightarrow> u32 \<Rightarrow> (nat, 'a bio_st_scheme) m" where
  "bget dev blockno =
     bnd (acquire L_bcache) (\<lambda>_.
     bnd (gets bufs) (\<lambda>bs.
     ends (scan_next bs dev blockno (b_next (bs bhead))) (\<lambda>hit.
     case hit of
       Some b \<Rightarrow>
         bnd (upd_buf b (\<lambda>bf. bf\<lparr>b_refcnt := b_refcnt bf + 1\<rparr>)) (\<lambda>_.
         bnd (release L_bcache) (\<lambda>_.
         bnd (acquiresleep (SL_buf b)) (\<lambda>_.
         ret b)))
     | None \<Rightarrow>
         ends (scan_prev bs (b_prev (bs bhead))) (\<lambda>free.
         case free of
           Some b \<Rightarrow>
             bnd (upd_buf b (\<lambda>bf. bf\<lparr>b_dev := dev\<rparr>)) (\<lambda>_.
             bnd (upd_buf b (\<lambda>bf. bf\<lparr>b_blockno := blockno\<rparr>)) (\<lambda>_.
             bnd (upd_buf b (\<lambda>bf. bf\<lparr>b_valid := False\<rparr>)) (\<lambda>_.
             bnd (upd_buf b (\<lambda>bf. bf\<lparr>b_refcnt := 1\<rparr>)) (\<lambda>_.
             bnd (release L_bcache) (\<lambda>_.
             bnd (acquiresleep (SL_buf b)) (\<lambda>_.
             ret b))))))
         | None \<Rightarrow> panic ''bget: no buffers''))))"

definition bread :: "u32 \<Rightarrow> u32 \<Rightarrow> (nat, 'a bio_st_scheme) m" where
  "bread dev blockno =
     bnd (bget dev blockno) (\<lambda>b.
     bnd (get_buf b) (\<lambda>bf.
     bnd (if_do (\<not> b_valid bf) (block [
       virtio_disk_rw b False,
       upd_buf b (\<lambda>bf. bf\<lparr>b_valid := True\<rparr>)])) (\<lambda>_.
     ret b)))"

definition bwrite :: "nat \<Rightarrow> (unit, 'a bio_st_scheme) m" where
  "bwrite b =
     bnd (holdingsleep (SL_buf b)) (\<lambda>h. block [
       panic_if (\<not> h) ''bwrite'',
       virtio_disk_rw b True])"

definition brelse :: "nat \<Rightarrow> (unit, 'a bio_st_scheme) m" where
  "brelse b =
     bnd (holdingsleep (SL_buf b)) (\<lambda>h. block [
       panic_if (\<not> h) ''brelse'',
       releasesleep (SL_buf b),
       acquire L_bcache,
       upd_buf b (\<lambda>bf. bf\<lparr>b_refcnt := b_refcnt bf - 1\<rparr>),
       bnd (get_buf b) (\<lambda>bf. if_do (b_refcnt bf = 0) (block [
         set_prev (b_next bf) (b_prev bf),
         bnd (get_buf b) (\<lambda>bf. set_next (b_prev bf) (b_next bf)),
         bnd (get_buf bhead) (\<lambda>h. set_next b (b_next h)),
         set_prev b bhead,
         link_front b])),
       release L_bcache])"

definition bpin :: "nat \<Rightarrow> (unit, 'a bio_st_scheme) m" where
  "bpin b = block [
     acquire L_bcache,
     upd_buf b (\<lambda>bf. bf\<lparr>b_refcnt := b_refcnt bf + 1\<rparr>),
     release L_bcache]"

definition bunpin :: "nat \<Rightarrow> (unit, 'a bio_st_scheme) m" where
  "bunpin b = block [
     acquire L_bcache,
     upd_buf b (\<lambda>bf. bf\<lparr>b_refcnt := b_refcnt bf - 1\<rparr>),
     release L_bcache]"

end
