(* ===== verification/Log.thy ===== *)
theory Log
  imports Bio
begin

text \<open>
  \<^verbatim>\<open>kernel/log.c\<close>: the write-ahead log. The in-memory log header is the list of block numbers
  \<open>lh\<close> (\<^verbatim>\<open>log.lh.n\<close> is its length). \<^verbatim>\<open>begin_op\<close> is one attempt, like \<^verbatim>\<open>acquiresleep\<close>.
\<close>

record log_st = bio_st +
  log_start :: u32
  log_size :: int
  outstanding :: int
  committing :: bool
  log_dev :: u32
  lh :: "u32 list"

text \<open>The superblock, as far as the log and the file system use it.\<close>

record superblock =
  sb_magic :: u32
  sb_size :: u32
  sb_nblocks :: u32
  sb_ninodes :: u32
  sb_nlog :: u32
  sb_logstart :: u32
  sb_inodestart :: u32
  sb_bmapstart :: u32

text \<open>\<^verbatim>\<open>struct logheader\<close> in the data of a block: \<^verbatim>\<open>n\<close>, then \<^verbatim>\<open>block[]\<close>.\<close>

definition lh_n :: "blk \<Rightarrow> int" where
  "lh_n d = sint (le_word (rdb d 0 4) :: u32)"

definition lh_block :: "blk \<Rightarrow> nat \<Rightarrow> u32" where
  "lh_block d i = le_word (rdb d (4 + 4 * i) 4)"

primrec put_lh_blocks :: "blk \<Rightarrow> nat \<Rightarrow> u32 list \<Rightarrow> blk" where
  "put_lh_blocks d i [] = d"
| "put_lh_blocks d i (b # bs) = put_lh_blocks (wrb d (4 + 4 * i) (le_bytes 4 b)) (Suc i) bs"

definition put_lh :: "blk \<Rightarrow> u32 list \<Rightarrow> blk" where
  "put_lh d bs = put_lh_blocks (wrb d 0 (le_bytes 4 (of_nat (length bs) :: u32))) 0 bs"

definition install_trans :: "bool \<Rightarrow> (unit, 'a log_st_scheme) m" where
  "install_trans recovering =
     bnd (gets lh) (\<lambda>blocks.
     for_each [0..<length blocks] (\<lambda>tail.
       bnd (gets log_dev) (\<lambda>dev.
       bnd (gets log_start) (\<lambda>start.
       bnd (bread dev (start + of_nat tail + 1)) (\<lambda>lbuf.
       bnd (bread dev (blocks ! tail)) (\<lambda>dbuf.
       bnd (get_buf lbuf) (\<lambda>l. block [
         set_data dbuf (b_data l),
         bwrite dbuf,
         if_do (\<not> recovering) (bunpin dbuf),
         brelse lbuf,
         brelse dbuf])))))))"

text \<open>
  \<^verbatim>\<open>read_head\<close> trusts the count on the disk; a count above \<^verbatim>\<open>LOGSIZE\<close> writes past the array.
\<close>

definition read_head :: "(unit, 'a log_st_scheme) m" where
  "read_head =
     bnd (gets log_dev) (\<lambda>dev.
     bnd (gets log_start) (\<lambda>start.
     bnd (bread dev start) (\<lambda>b.
     bnd (get_buf b) (\<lambda>bf.
     let n = lh_n (b_data bf) in
     block [
       if_do (n > int LOGSIZE) undef,
       modify (\<lambda>s. s\<lparr>lh := map (lh_block (b_data bf)) [0..<nat n]\<rparr>),
       brelse b]))))"

definition write_head :: "(unit, 'a log_st_scheme) m" where
  "write_head =
     bnd (gets log_dev) (\<lambda>dev.
     bnd (gets log_start) (\<lambda>start.
     bnd (bread dev start) (\<lambda>b.
     bnd (get_buf b) (\<lambda>bf.
     bnd (gets lh) (\<lambda>blocks. block [
       set_data b (put_lh (b_data bf) blocks),
       bwrite b,
       brelse b])))))"

definition recover_from_log :: "(unit, 'a log_st_scheme) m" where
  "recover_from_log = block [
     read_head,
     install_trans True,
     modify (\<lambda>s. s\<lparr>lh := []\<rparr>),
     write_head]"

text \<open>\<^verbatim>\<open>sizeof(struct logheader)\<close> is \<open>4 + 4 * LOGSIZE\<close>.\<close>

definition initlog :: "u32 \<Rightarrow> superblock \<Rightarrow> (unit, 'a log_st_scheme) m" where
  "initlog dev sb = block [
     panic_if (4 + 4 * LOGSIZE \<ge> BSIZE) ''initlog: too big logheader'',
     init_lock L_log,
     modify (\<lambda>s. s\<lparr>log_start := sb_logstart sb\<rparr>),
     modify (\<lambda>s. s\<lparr>log_size := sint (sb_nlog sb)\<rparr>),
     modify (\<lambda>s. s\<lparr>log_dev := dev\<rparr>),
     recover_from_log]"

definition begin_op :: "(unit, 'a log_st_scheme) m" where
  "begin_op =
     bnd (acquire L_log) (\<lambda>_.
     bnd (gets committing) (\<lambda>c.
     if c then sleep (Some Ch_log) L_log
     else
       bnd (gets (\<lambda>s. int (length (lh s)) + (outstanding s + 1) * int MAXOPBLOCKS)) (\<lambda>need.
       if need > int LOGSIZE then sleep (Some Ch_log) L_log
       else block [
         modify (\<lambda>s. s\<lparr>outstanding := outstanding s + 1\<rparr>),
         release L_log])))"

definition write_log :: "(unit, 'a log_st_scheme) m" where
  "write_log =
     bnd (gets lh) (\<lambda>blocks.
     for_each [0..<length blocks] (\<lambda>tail.
       bnd (gets log_dev) (\<lambda>dev.
       bnd (gets log_start) (\<lambda>start.
       bnd (bread dev (start + of_nat tail + 1)) (\<lambda>to.
       bnd (bread dev (blocks ! tail)) (\<lambda>from.
       bnd (get_buf from) (\<lambda>f. block [
         set_data to (b_data f),
         bwrite to,
         brelse from,
         brelse to])))))))"

definition commit :: "(unit, 'a log_st_scheme) m" where
  "commit =
     bnd (gets lh) (\<lambda>blocks.
     if_do (length blocks > 0) (block [
       write_log,
       write_head,
       install_trans False,
       modify (\<lambda>s. s\<lparr>lh := []\<rparr>),
       write_head]))"

definition end_op :: "(unit, 'a log_st_scheme) m" where
  "end_op =
     bnd (acquire L_log) (\<lambda>_.
     bnd (modify (\<lambda>s. s\<lparr>outstanding := outstanding s - 1\<rparr>)) (\<lambda>_.
     bnd (gets committing) (\<lambda>c.
     bnd (panic_if c ''log.committing'') (\<lambda>_.
     bnd (gets (\<lambda>s. outstanding s = 0)) (\<lambda>do_commit.
     bnd (if do_commit then modify (\<lambda>s. s\<lparr>committing := True\<rparr>) else wakeup (Some Ch_log)) (\<lambda>_.
     bnd (release L_log) (\<lambda>_.
     if_do do_commit (block [
       commit,
       acquire L_log,
       modify (\<lambda>s. s\<lparr>committing := False\<rparr>),
       wakeup (Some Ch_log),
       release L_log]))))))))"

text \<open>The search of \<^verbatim>\<open>log_write\<close>: the index of the block in the header, or its length.\<close>

primrec lh_index :: "u32 list \<Rightarrow> u32 \<Rightarrow> nat" where
  "lh_index [] n = 0"
| "lh_index (b # bs) n = (if b = n then 0 else Suc (lh_index bs n))"

definition log_write :: "nat \<Rightarrow> (unit, 'a log_st_scheme) m" where
  "log_write b =
     bnd (acquire L_log) (\<lambda>_.
     bnd (gets (\<lambda>s. length (lh s))) (\<lambda>n.
     bnd (gets log_size) (\<lambda>size.
     bnd (panic_if (n \<ge> LOGSIZE \<or> int n \<ge> size - 1) ''too big a transaction'') (\<lambda>_.
     bnd (gets outstanding) (\<lambda>out.
     bnd (panic_if (out < 1) ''log_write outside of trans'') (\<lambda>_.
     bnd (get_buf b) (\<lambda>bf.
     bnd (gets (\<lambda>s. lh_index (lh s) (b_blockno bf))) (\<lambda>i.
     block [
       if_do (i < n) (modify (\<lambda>s. s\<lparr>lh := (lh s)[i := b_blockno bf]\<rparr>)),
       if_do (i = n) (block [
         bpin b,
         modify (\<lambda>s. s\<lparr>lh := lh s @ [b_blockno bf]\<rparr>)]),
       release L_log]))))))))"

end
