(* ===== verification/Fs.thy ===== *)
theory Fs
  imports Log Printf
begin

text \<open>
  \<^verbatim>\<open>kernel/fs.c\<close>: block allocation, inodes, file contents, directories and path names, on top of
  the log and the buffer cache. An in-memory inode is its index in \<^verbatim>\<open>itable.inode[NINODE]\<close>; a
  path is its list of bytes without the final NUL.
\<close>

section \<open>On-disk structures\<close>

definition ROOTINO :: u32 where "ROOTINO = 1"
definition FSMAGIC :: u32 where "FSMAGIC = 0x10203040"
definition NDIRECT :: nat where "NDIRECT = 12"
definition NINDIRECT :: nat where "NINDIRECT = BSIZE div 4"
definition MAXFILE :: nat where "MAXFILE = NDIRECT + NINDIRECT"
definition IPB :: nat where "IPB = BSIZE div 64"
definition BPB :: nat where "BPB = BSIZE * 8"
definition DIRSIZ :: nat where "DIRSIZ = 14"

definition T_DIR :: u16 where "T_DIR = 1"
definition T_FILE :: u16 where "T_FILE = 2"
definition T_DEVICE :: u16 where "T_DEVICE = 3"

definition IBLOCK :: "u32 \<Rightarrow> superblock \<Rightarrow> u32" where
  "IBLOCK i sb = i div of_nat IPB + sb_inodestart sb"

definition BBLOCK :: "u32 \<Rightarrow> superblock \<Rightarrow> u32" where
  "BBLOCK b sb = b div of_nat BPB + sb_bmapstart sb"

text \<open>\<^verbatim>\<open>struct dinode\<close>, 64 bytes, in the data of a block at offset \<open>o\<close>.\<close>

record dinode =
  d_type :: u16
  d_major :: u16
  d_minor :: u16
  d_nlink :: u16
  d_size :: u32
  d_addrs :: "u32 list"

definition get_dinode :: "blk \<Rightarrow> nat \<Rightarrow> dinode" where
  "get_dinode d off = \<lparr>
     d_type = le_word (rdb d off 2),
     d_major = le_word (rdb d (off + 2) 2),
     d_minor = le_word (rdb d (off + 4) 2),
     d_nlink = le_word (rdb d (off + 6) 2),
     d_size = le_word (rdb d (off + 8) 4),
     d_addrs = map (\<lambda>i. le_word (rdb d (off + 12 + 4 * i) 4)) [0..<NDIRECT + 1]\<rparr>"

definition put_dinode :: "blk \<Rightarrow> nat \<Rightarrow> dinode \<Rightarrow> blk" where
  "put_dinode d off di =
     (let d = wrb d off (le_bytes 2 (d_type di));
          d = wrb d (off + 2) (le_bytes 2 (d_major di));
          d = wrb d (off + 4) (le_bytes 2 (d_minor di));
          d = wrb d (off + 6) (le_bytes 2 (d_nlink di));
          d = wrb d (off + 8) (le_bytes 4 (d_size di))
      in wrb d (off + 12) (concat (map (le_bytes 4) (d_addrs di))))"

text \<open>\<^verbatim>\<open>struct superblock\<close> is eight 32-bit words.\<close>

definition get_superblock :: "blk \<Rightarrow> superblock" where
  "get_superblock d =
     (let w = (\<lambda>i. le_word (rdb d (4 * i) 4)) in \<lparr>
     sb_magic = w 0, sb_size = w 1, sb_nblocks = w 2, sb_ninodes = w 3,
     sb_nlog = w 4, sb_logstart = w 5, sb_inodestart = w 6, sb_bmapstart = w 7\<rparr>)"

section \<open>State\<close>

record inode =
  i_dev :: u32
  i_inum :: u32
  i_ref :: int
  i_valid :: bool
  i_type :: u16
  i_major :: u16
  i_minor :: u16
  i_nlink :: u16
  i_size :: u32
  i_addrs :: "nat \<Rightarrow> u32"

record fs_st = log_st +
  fs_sb :: superblock
  itable :: "nat \<Rightarrow> inode"

definition get_inode :: "nat \<Rightarrow> (inode, 'a fs_st_scheme) m" where
  "get_inode ip = gets (\<lambda>s. itable s ip)"

definition upd_inode :: "nat \<Rightarrow> (inode \<Rightarrow> inode) \<Rightarrow> (unit, 'a fs_st_scheme) m" where
  "upd_inode ip f = modify (\<lambda>s. s\<lparr>itable := (itable s)(ip := f (itable s ip))\<rparr>)"

text \<open>Changing the data of a locked buffer in place.\<close>

definition mod_data :: "nat \<Rightarrow> (blk \<Rightarrow> blk) \<Rightarrow> (unit, 'a bio_st_scheme) m" where
  "mod_data b f = bnd (get_buf b) (\<lambda>bf. set_data b (f (b_data bf)))"

section \<open>Super block and blocks\<close>

definition readsb :: "u32 \<Rightarrow> (unit, 'a fs_st_scheme) m" where
  "readsb dev =
     bnd (bread dev 1) (\<lambda>bp.
     bnd (get_buf bp) (\<lambda>bf. block [
       modify (\<lambda>s. s\<lparr>fs_sb := get_superblock (b_data bf)\<rparr>),
       brelse bp]))"

definition fsinit :: "u32 \<Rightarrow> (unit, 'a fs_st_scheme) m" where
  "fsinit dev = block [
     readsb dev,
     bnd (gets fs_sb) (\<lambda>sb. block [
       panic_if (sb_magic sb \<noteq> FSMAGIC) ''invalid file system'',
       initlog dev sb])]"

definition bzero :: "u32 \<Rightarrow> u32 \<Rightarrow> (unit, 'a log_st_scheme) m" where
  "bzero dev bno =
     bnd (bread dev bno) (\<lambda>bp. block [
       mod_data bp (\<lambda>d. wrb d 0 (replicate BSIZE 0)),
       log_write bp,
       brelse bp])"

definition bitmask :: "nat \<Rightarrow> u8" where
  "bitmask bi = push_bit (bi mod 8) 1"

text \<open>The inner loop of \<^verbatim>\<open>balloc\<close>: the first clear bit among the bits for blocks below \<open>sz\<close>.\<close>

definition free_bit :: "blk \<Rightarrow> nat \<Rightarrow> nat \<Rightarrow> nat option" where
  "free_bit d b sz =
     find (\<lambda>bi. d (bi div 8) AND bitmask bi = 0) [0..<min BPB (sz - b)]"

function balloc_loop :: "u32 \<Rightarrow> nat \<Rightarrow> (u32, 'a fs_st_scheme) m" where
  "balloc_loop dev b s =
     bnd (gets fs_sb) (\<lambda>sb.
     if b < unat (sb_size sb)
     then
       bnd (bread dev (BBLOCK (of_nat b) sb)) (\<lambda>bp.
       bnd (get_buf bp) (\<lambda>bf.
       case free_bit (b_data bf) b (unat (sb_size sb)) of
         Some bi \<Rightarrow>
           bnd (block [
             mod_data bp (\<lambda>d. d(bi div 8 := d (bi div 8) OR bitmask bi)),
             log_write bp,
             brelse bp,
             bzero dev (of_nat (b + bi))]) (\<lambda>_.
           ret (of_nat (b + bi)))
       | None \<Rightarrow>
           bnd (brelse bp) (\<lambda>_. balloc_loop dev (b + BPB))))
     else bnd (printf (''balloc: out of blocks'' @ nl) []) (\<lambda>_. ret 0)) s"
  by auto
termination
proof (relation "measure (\<lambda>(dev, b, s). 2 ^ 32 - b)", goal_cases)
  case (2 dev b s sb t)
  then have "b < 2 ^ 32" using u32_lt [of "sb_size sb"] by simp
  then show ?case by (simp add: BPB_def BSIZE_def)
qed simp

declare balloc_loop.simps [simp del]

definition balloc :: "u32 \<Rightarrow> (u32, 'a fs_st_scheme) m" where
  "balloc dev = balloc_loop dev 0"

definition bfree :: "u32 \<Rightarrow> u32 \<Rightarrow> (unit, 'a fs_st_scheme) m" where
  "bfree dev b =
     bnd (gets fs_sb) (\<lambda>sb.
     bnd (bread dev (BBLOCK b sb)) (\<lambda>bp.
     bnd (get_buf bp) (\<lambda>bf.
     let bi = unat b mod BPB in
     block [
       panic_if (b_data bf (bi div 8) AND bitmask bi = 0) ''freeing free block'',
       mod_data bp (\<lambda>d. d(bi div 8 := d (bi div 8) AND NOT (bitmask bi))),
       log_write bp,
       brelse bp])))"

section \<open>Inodes\<close>

definition iinit :: "(unit, 'a fs_st_scheme) m" where
  "iinit = block [
     init_lock L_itable,
     for_each [0..<NINODE] (\<lambda>i. initsleeplock (SL_inode i))]"

definition iget :: "u32 \<Rightarrow> u32 \<Rightarrow> (nat, 'a fs_st_scheme) m" where
  "iget dev inum =
     bnd (acquire L_itable) (\<lambda>_.
     bnd (gets itable) (\<lambda>it.
     case find (\<lambda>ip. i_ref (it ip) > 0 \<and> i_dev (it ip) = dev \<and> i_inum (it ip) = inum) [0..<NINODE] of
       Some ip \<Rightarrow>
         bnd (upd_inode ip (\<lambda>i. i\<lparr>i_ref := i_ref i + 1\<rparr>)) (\<lambda>_.
         bnd (release L_itable) (\<lambda>_.
         ret ip))
     | None \<Rightarrow>
         (case find (\<lambda>ip. i_ref (it ip) = 0) [0..<NINODE] of
           None \<Rightarrow> panic ''iget: no inodes''
         | Some ip \<Rightarrow>
             bnd (upd_inode ip (\<lambda>i. i\<lparr>i_dev := dev\<rparr>)) (\<lambda>_.
             bnd (upd_inode ip (\<lambda>i. i\<lparr>i_inum := inum\<rparr>)) (\<lambda>_.
             bnd (upd_inode ip (\<lambda>i. i\<lparr>i_ref := 1\<rparr>)) (\<lambda>_.
             bnd (upd_inode ip (\<lambda>i. i\<lparr>i_valid := False\<rparr>)) (\<lambda>_.
             bnd (release L_itable) (\<lambda>_.
             ret ip))))))))"

definition dinode_off :: "u32 \<Rightarrow> nat" where
  "dinode_off inum = 64 * (unat inum mod IPB)"

text \<open>
  The loop of \<^verbatim>\<open>ialloc\<close> over the inode numbers from \<open>inum\<close> on. The result is the index of the
  in-memory inode, or \<open>None\<close>.
\<close>

definition ialloc_try :: "u32 \<Rightarrow> u16 \<Rightarrow> nat \<Rightarrow> (nat option, 'a fs_st_scheme) m" where
  "ialloc_try dev type inum =
     bnd (gets fs_sb) (\<lambda>sb.
     bnd (bread dev (IBLOCK (of_nat inum) sb)) (\<lambda>bp.
     bnd (get_buf bp) (\<lambda>bf.
     let off = dinode_off (of_nat inum) in
     if d_type (get_dinode (b_data bf) off) = 0
     then
       bnd (mod_data bp (\<lambda>d. wrb (wrb d off (replicate 64 0)) off (le_bytes 2 type))) (\<lambda>_.
       bnd (log_write bp) (\<lambda>_.
       bnd (brelse bp) (\<lambda>_.
       bnd (iget dev (of_nat inum)) (\<lambda>ip.
       ret (Some ip)))))
     else bnd (brelse bp) (\<lambda>_. ret None))))"

definition ialloc :: "u32 \<Rightarrow> u16 \<Rightarrow> (nat option, 'a fs_st_scheme) m" where
  "ialloc dev type =
     bnd (gets (\<lambda>s. unat (sb_ninodes (fs_sb s)))) (\<lambda>n.
     bnd (for_first [1..<n] (ialloc_try dev type)) (\<lambda>r.
     case r of
       Some ip \<Rightarrow> ret (Some ip)
     | None \<Rightarrow> bnd (printf (''ialloc: no inodes'' @ nl) []) (\<lambda>_. ret None)))"

definition inode_dinode :: "inode \<Rightarrow> dinode" where
  "inode_dinode i = \<lparr>d_type = i_type i, d_major = i_major i, d_minor = i_minor i,
     d_nlink = i_nlink i, d_size = i_size i, d_addrs = map (i_addrs i) [0..<NDIRECT + 1]\<rparr>"

definition iupdate :: "nat \<Rightarrow> (unit, 'a fs_st_scheme) m" where
  "iupdate ip =
     bnd (get_inode ip) (\<lambda>i.
     bnd (gets fs_sb) (\<lambda>sb.
     bnd (bread (i_dev i) (IBLOCK (i_inum i) sb)) (\<lambda>bp. block [
       mod_data bp (\<lambda>d. put_dinode d (dinode_off (i_inum i)) (inode_dinode i)),
       log_write bp,
       brelse bp])))"

definition idup :: "nat \<Rightarrow> (nat, 'a fs_st_scheme) m" where
  "idup ip =
     bnd (acquire L_itable) (\<lambda>_.
     bnd (upd_inode ip (\<lambda>i. i\<lparr>i_ref := i_ref i + 1\<rparr>)) (\<lambda>_.
     bnd (release L_itable) (\<lambda>_.
     ret ip)))"

definition load_inode :: "dinode \<Rightarrow> inode \<Rightarrow> inode" where
  "load_inode di i = i\<lparr>i_type := d_type di, i_major := d_major di, i_minor := d_minor di,
     i_nlink := d_nlink di, i_size := d_size di,
     i_addrs := (\<lambda>k. if k < length (d_addrs di) then d_addrs di ! k else i_addrs i k)\<rparr>"

definition ilock :: "nat \<Rightarrow> (unit, 'a fs_st_scheme) m" where
  "ilock ip =
     bnd (get_inode ip) (\<lambda>i. block [
       panic_if (i_ref i < 1) ''ilock'',
       acquiresleep (SL_inode ip),
       bnd (get_inode ip) (\<lambda>i.
       if_do (\<not> i_valid i) (
         bnd (gets fs_sb) (\<lambda>sb.
         bnd (bread (i_dev i) (IBLOCK (i_inum i) sb)) (\<lambda>bp.
         bnd (get_buf bp) (\<lambda>bf.
         let di = get_dinode (b_data bf) (dinode_off (i_inum i)) in
         block [
           upd_inode ip (load_inode di),
           brelse bp,
           upd_inode ip (\<lambda>i. i\<lparr>i_valid := True\<rparr>),
           panic_if (d_type di = 0) ''ilock: no type''])))))])"

definition iunlock :: "nat \<Rightarrow> (unit, 'a fs_st_scheme) m" where
  "iunlock ip =
     bnd (holdingsleep (SL_inode ip)) (\<lambda>h.
     bnd (get_inode ip) (\<lambda>i. block [
       panic_if (\<not> h \<or> i_ref i < 1) ''iunlock'',
       releasesleep (SL_inode ip)]))"

section \<open>Inode contents\<close>

definition balloc_inode :: "nat \<Rightarrow> nat \<Rightarrow> (u32, 'a fs_st_scheme) m" where
  "balloc_inode ip k =
     bnd (get_inode ip) (\<lambda>i.
     if i_addrs i k \<noteq> 0 then ret (i_addrs i k)
     else bnd (balloc (i_dev i)) (\<lambda>addr.
       if addr = 0 then ret 0
       else bnd (upd_inode ip (\<lambda>i. i\<lparr>i_addrs := (i_addrs i)(k := addr)\<rparr>)) (\<lambda>_. ret addr)))"

text \<open>\<^verbatim>\<open>a[j]\<close> of an indirect block.\<close>

definition ind_entry :: "blk \<Rightarrow> nat \<Rightarrow> u32" where
  "ind_entry d j = le_word (rdb d (4 * j) 4)"

definition bmap :: "nat \<Rightarrow> nat \<Rightarrow> (u32, 'a fs_st_scheme) m" where
  "bmap ip bn =
     (if bn < NDIRECT then balloc_inode ip bn
      else if bn - NDIRECT < NINDIRECT
      then
        bnd (balloc_inode ip NDIRECT) (\<lambda>ind.
        if ind = 0 then ret 0
        else
          bnd (get_inode ip) (\<lambda>i.
          bnd (bread (i_dev i) ind) (\<lambda>bp.
          bnd (get_buf bp) (\<lambda>bf.
          let k = bn - NDIRECT; addr = ind_entry (b_data bf) k in
          bnd (if addr \<noteq> 0 then ret addr
               else bnd (balloc (i_dev i)) (\<lambda>addr.
                 bnd (if_do (addr \<noteq> 0) (block [
                   mod_data bp (\<lambda>d. wrb d (4 * k) (le_bytes 4 addr)),
                   log_write bp])) (\<lambda>_.
                 ret addr))) (\<lambda>addr.
          bnd (brelse bp) (\<lambda>_.
          ret addr))))))
      else panic ''bmap: out of range'')"

definition itrunc :: "nat \<Rightarrow> (unit, 'a fs_st_scheme) m" where
  "itrunc ip = block [
     for_each [0..<NDIRECT] (\<lambda>i.
       bnd (get_inode ip) (\<lambda>ino.
       if_do (i_addrs ino i \<noteq> 0) (block [
         bfree (i_dev ino) (i_addrs ino i),
         upd_inode ip (\<lambda>ino. ino\<lparr>i_addrs := (i_addrs ino)(i := 0)\<rparr>)]))),
     bnd (get_inode ip) (\<lambda>ino.
     if_do (i_addrs ino NDIRECT \<noteq> 0) (
       bnd (bread (i_dev ino) (i_addrs ino NDIRECT)) (\<lambda>bp. block [
         for_each [0..<NINDIRECT] (\<lambda>j.
           bnd (get_buf bp) (\<lambda>bf.
           if_do (ind_entry (b_data bf) j \<noteq> 0) (bfree (i_dev ino) (ind_entry (b_data bf) j)))),
         brelse bp,
         bfree (i_dev ino) (i_addrs ino NDIRECT),
         upd_inode ip (\<lambda>ino. ino\<lparr>i_addrs := (i_addrs ino)(NDIRECT := 0)\<rparr>)]))),
     upd_inode ip (\<lambda>ino. ino\<lparr>i_size := 0\<rparr>),
     iupdate ip]"

definition iput :: "nat \<Rightarrow> (unit, 'a fs_st_scheme) m" where
  "iput ip = block [
     acquire L_itable,
     bnd (get_inode ip) (\<lambda>i.
     if_do (i_ref i = 1 \<and> i_valid i \<and> i_nlink i = 0) (block [
       acquiresleep (SL_inode ip),
       release L_itable,
       itrunc ip,
       upd_inode ip (\<lambda>i. i\<lparr>i_type := 0\<rparr>),
       iupdate ip,
       upd_inode ip (\<lambda>i. i\<lparr>i_valid := False\<rparr>),
       releasesleep (SL_inode ip),
       acquire L_itable])),
     upd_inode ip (\<lambda>i. i\<lparr>i_ref := i_ref i - 1\<rparr>),
     release L_itable]"

definition iunlockput :: "nat \<Rightarrow> (unit, 'a fs_st_scheme) m" where
  "iunlockput ip = block [iunlock ip, iput ip]"

text \<open>\<^verbatim>\<open>stati\<close> fills a \<^verbatim>\<open>struct stat\<close> in the caller's local buffer; bytes 12 to 15 are padding.\<close>

definition stati :: "nat \<Rightarrow> (unit, 'a fs_st_scheme) m" where
  "stati ip =
     bnd (get_inode ip) (\<lambda>i. modify (\<lambda>s. s\<lparr>klocal :=
       (let d = wrb (klocal s) 0 (le_bytes 4 (i_dev i));
            d = wrb d 4 (le_bytes 4 (i_inum i));
            d = wrb d 8 (le_bytes 2 (i_type i));
            d = wrb d 10 (le_bytes 2 (i_nlink i))
        in wrb d 16 (le_bytes 8 (ucast (i_size i) :: u64)))\<rparr>))"

text \<open>
  The loops of \<^verbatim>\<open>readi\<close> and \<^verbatim>\<open>writei\<close>. \<open>chunk\<close> is \<^verbatim>\<open>m = min(n - tot, BSIZE - off%BSIZE)\<close>; a
  result is the \<^verbatim>\<open>uint\<close> the routine returns, all ones for -1.
\<close>

definition chunk :: "u32 \<Rightarrow> u32 \<Rightarrow> u32 \<Rightarrow> u32" where
  "chunk off tot n = min (n - tot) (of_nat BSIZE - off mod of_nat BSIZE)"

lemma chunk_pos:
  assumes "tot < n"
  shows "0 < chunk off tot n" and "chunk off tot n \<le> n - tot"
proof -
  have "n - tot \<noteq> 0" using assms by auto
  moreover have "unat (off mod 1024) < 1024" by (simp add: unat_mod)
  then have "off mod 1024 \<noteq> 1024" by auto
  then have "1024 - off mod 1024 \<noteq> 0" by (metis right_minus_eq)
  ultimately show "0 < chunk off tot n" by (simp add: chunk_def BSIZE_def min_def word_gt_0)
  show "chunk off tot n \<le> n - tot" by (simp add: chunk_def)
qed

lemma chunk_progress:
  assumes "tot < n"
  shows "unat (n - (tot + chunk off tot n)) < unat (n - tot)"
proof -
  have eq: "n - (tot + chunk off tot n) = (n - tot) - chunk off tot n" by simp
  have "0 < unat (chunk off tot n)" "unat (chunk off tot n) \<le> unat (n - tot)"
    using chunk_pos [OF assms, of off] by (simp_all add: word_less_nat_alt word_le_nat_alt)
  then show ?thesis unfolding eq using unat_sub [OF chunk_pos(2) [OF assms, of off]] by linarith
qed

function readi_loop :: "nat \<Rightarrow> addr \<Rightarrow> u32 \<Rightarrow> u32 \<Rightarrow> u32 \<Rightarrow> (u32, 'a fs_st_scheme) m" where
  "readi_loop ip dst off tot n s =
     (if tot < n
      then
        bnd (bmap ip (unat (off div of_nat BSIZE))) (\<lambda>addr.
        if addr = 0 then ret tot
        else
          bnd (get_inode ip) (\<lambda>i.
          bnd (bread (i_dev i) addr) (\<lambda>bp.
          bnd (get_buf bp) (\<lambda>bf.
          let mm = chunk off tot n in
          bnd (either_copyout dst (rdb (b_data bf) (unat (off mod of_nat BSIZE)) (unat mm))) (\<lambda>r.
          if r = -1 then bnd (brelse bp) (\<lambda>_. ret (-1))
          else bnd (brelse bp) (\<lambda>_.
            readi_loop ip (addr_plus dst (unat mm)) (off + mm) (tot + mm) n))))))
      else ret tot) s"
  by auto
termination
  by (relation "measure (\<lambda>(ip, dst, off, tot, n, s). unat (n - tot))") (simp_all add: chunk_progress)

declare readi_loop.simps [simp del]

definition readi :: "nat \<Rightarrow> addr \<Rightarrow> u32 \<Rightarrow> u32 \<Rightarrow> (u32, 'a fs_st_scheme) m" where
  "readi ip dst off n =
     bnd (get_inode ip) (\<lambda>i.
     if off > i_size i \<or> off + n < off then ret 0
     else readi_loop ip dst off 0 (if off + n > i_size i then i_size i - off else n))"

text \<open>The result of the loop of \<^verbatim>\<open>writei\<close> is \<^verbatim>\<open>tot\<close> and the final \<^verbatim>\<open>off\<close>.\<close>

function writei_loop ::
  "nat \<Rightarrow> addr \<Rightarrow> u32 \<Rightarrow> u32 \<Rightarrow> u32 \<Rightarrow> (u32 \<times> u32, 'a fs_st_scheme) m" where
  "writei_loop ip src off tot n s =
     (if tot < n
      then
        bnd (bmap ip (unat (off div of_nat BSIZE))) (\<lambda>addr.
        if addr = 0 then ret (tot, off)
        else
          bnd (get_inode ip) (\<lambda>i.
          bnd (bread (i_dev i) addr) (\<lambda>bp.
          let mm = chunk off tot n in
          bnd (either_copyin src (unat mm)) (\<lambda>r.
          bnd (mod_data bp (\<lambda>d. wrb d (unat (off mod of_nat BSIZE)) (snd r))) (\<lambda>_.
          if fst r = -1 then bnd (brelse bp) (\<lambda>_. ret (tot, off))
          else
            bnd (log_write bp) (\<lambda>_.
            bnd (brelse bp) (\<lambda>_.
            writei_loop ip (addr_plus src (unat mm)) (off + mm) (tot + mm) n)))))))
      else ret (tot, off)) s"
  by auto
termination
  by (relation "measure (\<lambda>(ip, dst, off, tot, n, s). unat (n - tot))") (simp_all add: chunk_progress)

declare writei_loop.simps [simp del]

definition writei :: "nat \<Rightarrow> addr \<Rightarrow> u32 \<Rightarrow> u32 \<Rightarrow> (u32, 'a fs_st_scheme) m" where
  "writei ip src off n =
     bnd (get_inode ip) (\<lambda>i.
     if off > i_size i \<or> off + n < off then ret (-1)
     else if unat (off + n) > MAXFILE * BSIZE then ret (-1)
     else
       bnd (writei_loop ip src off 0 n) (\<lambda>r.
       bnd (get_inode ip) (\<lambda>i.
       bnd (if_do (snd r > i_size i) (upd_inode ip (\<lambda>i. i\<lparr>i_size := snd r\<rparr>))) (\<lambda>_.
       bnd (iupdate ip) (\<lambda>_.
       ret (fst r))))))"

section \<open>Directories\<close>

definition namecmp :: "blk \<Rightarrow> blk \<Rightarrow> int" where
  "namecmp p q = strncmp p q DIRSIZ"

text \<open>
  \<^verbatim>\<open>struct dirent\<close> is a 16-bit inode number and 14 bytes of name; the routines keep one in their
  local buffer. A name is the bytes found from a pointer on.
\<close>

definition de_inum :: "blk \<Rightarrow> u16" where
  "de_inum d = le_word (rdb d 0 2)"

definition de_name :: "blk \<Rightarrow> blk" where
  "de_name d = (\<lambda>i. d (2 + i))"

lemma readi_no_wrap:
  assumes "readi ip dst off n s = Ok r t" and "r \<noteq> 0"
  shows "off \<le> off + n"
  using assms by (auto simp: readi_def get_inode_def m_simps not_less split: if_splits)

lemma dirent_progress:
  assumes "readi ip dst off 16 s = Ok 16 t"
  shows "2 ^ 32 - unat (off + 16) < 2 ^ 32 - unat off"
proof -
  have "off \<le> off + 16" using readi_no_wrap [OF assms] by simp
  then have "unat off \<le> (unat off + 16) mod 4294967296"
    by (simp add: word_le_nat_alt unat_word_ariths)
  moreover have "(unat off + 16) mod 4294967296 = unat off + 16 - 4294967296"
    if "\<not> unat off + 16 < 4294967296"
    using that u32_lt [of off] by (simp add: le_mod_geq)
  ultimately have "unat off + 16 < 4294967296" using u32_lt [of off] by fastforce
  then have "(unat off + 16) mod 4294967296 = unat off + 16" by simp
  then have "unat (off + 16) = unat off + 16" by (simp add: unat_word_ariths)
  then show ?thesis using u32_lt [of "off + 16"] by simp
qed

function dirlookup_loop :: "nat \<Rightarrow> blk \<Rightarrow> u32 \<Rightarrow> ((nat \<times> u32) option, 'a fs_st_scheme) m" where
  "dirlookup_loop dp name off s =
     bnd (get_inode dp) (\<lambda>d.
     if off < i_size d
     then
       bnd (readi dp (KernLocal 0) off 16) (\<lambda>r.
       if r \<noteq> 16 then panic ''dirlookup read''
       else
         bnd (gets klocal) (\<lambda>de.
         if de_inum de = 0 then dirlookup_loop dp name (off + 16)
         else if namecmp name (de_name de) = 0
         then bnd (iget (i_dev d) (ucast (de_inum de))) (\<lambda>ip. ret (Some (ip, off)))
         else dirlookup_loop dp name (off + 16)))
     else ret None) s"
  by auto
termination
proof (relation "measure (\<lambda>(dp, name, off, s). 2 ^ 32 - unat off)", goal_cases)
  case (2 dp name off s d s1 r s2 de s3)
  then show ?case using dirent_progress by (simp only: in_measure prod.case not_not) blast
next
  case (3 dp name off s d s1 r s2 de s3)
  then show ?case using dirent_progress by (simp only: in_measure prod.case not_not) blast
qed simp

declare dirlookup_loop.simps [simp del]

definition dirlookup :: "nat \<Rightarrow> blk \<Rightarrow> ((nat \<times> u32) option, 'a fs_st_scheme) m" where
  "dirlookup dp name =
     bnd (get_inode dp) (\<lambda>d.
     bnd (panic_if (i_type d \<noteq> T_DIR) ''dirlookup not DIR'') (\<lambda>_.
     dirlookup_loop dp name 0))"

text \<open>The search for an empty entry: the offset where \<^verbatim>\<open>dirlink\<close> writes.\<close>

function dirlink_loop :: "nat \<Rightarrow> u32 \<Rightarrow> (u32, 'a fs_st_scheme) m" where
  "dirlink_loop dp off s =
     bnd (get_inode dp) (\<lambda>d.
     if off < i_size d
     then
       bnd (readi dp (KernLocal 0) off 16) (\<lambda>r.
       if r \<noteq> 16 then panic ''dirlink read''
       else
         bnd (gets klocal) (\<lambda>de.
         if de_inum de = 0 then ret off else dirlink_loop dp (off + 16)))
     else ret off) s"
  by auto
termination
proof (relation "measure (\<lambda>(dp, off, s). 2 ^ 32 - unat off)", goal_cases)
  case (2 dp off s d s1 r s2 de s3)
  then show ?case using dirent_progress by (simp only: in_measure prod.case not_not) blast
qed simp

declare dirlink_loop.simps [simp del]

definition dirlink :: "nat \<Rightarrow> blk \<Rightarrow> u32 \<Rightarrow> (int, 'a fs_st_scheme) m" where
  "dirlink dp name inum =
     bnd (dirlookup dp name) (\<lambda>r.
     case r of
       Some (ip, off) \<Rightarrow> bnd (iput ip) (\<lambda>_. ret (-1))
     | None \<Rightarrow>
         bnd (dirlink_loop dp 0) (\<lambda>off.
         bnd (modify (\<lambda>s. s\<lparr>klocal := strncpy (klocal s) 2 name DIRSIZ\<rparr>)) (\<lambda>_.
         bnd (modify (\<lambda>s. s\<lparr>klocal := wrb (klocal s) 0 (le_bytes 2 (ucast inum :: u16))\<rparr>)) (\<lambda>_.
         bnd (writei dp (KernLocal 0) off 16) (\<lambda>n.
         ret (if n \<noteq> 16 then -1 else 0))))))"

section \<open>Paths\<close>

definition slash :: u8 where
  "slash = 0x2F"

text \<open>
  \<^verbatim>\<open>skipelem(path, name)\<close>: the rest of the path and the new content of \<^verbatim>\<open>name\<close>, or \<open>None\<close> for the
  null pointer.
\<close>

definition skipelem :: "u8 list \<Rightarrow> blk \<Rightarrow> (u8 list \<times> blk) option" where
  "skipelem path name =
     (let p = dropWhile (\<lambda>c. c = slash) path in
      if p = [] then None
      else
        let s = takeWhile (\<lambda>c. c \<noteq> slash) p;
            rest = dropWhile (\<lambda>c. c \<noteq> slash) p;
            name' = (if length s \<ge> DIRSIZ then wrb name 0 (take DIRSIZ s)
                     else (wrb name 0 s)(length s := 0))
        in Some (dropWhile (\<lambda>c. c = slash) rest, name'))"

lemma skipelem_shorter:
  assumes "skipelem path name = Some pn"
  shows "length (fst pn) < length path"
proof -
  define rest where "rest = fst pn"
  let ?p = "dropWhile (\<lambda>c. c = slash) path"
  have p: "?p \<noteq> []" and rest: "rest = dropWhile (\<lambda>c. c = slash) (dropWhile (\<lambda>c. c \<noteq> slash) ?p)"
    using assms by (auto simp: rest_def skipelem_def Let_def split: if_splits)
  have "hd ?p \<noteq> slash" using hd_dropWhile [OF p] .
  then have "length (dropWhile (\<lambda>c. c \<noteq> slash) ?p) < length ?p"
    using p length_dropWhile_le [of "\<lambda>c. c \<noteq> slash" "tl ?p"] by (cases ?p) auto
  moreover have "length rest \<le> length (dropWhile (\<lambda>c. c \<noteq> slash) ?p)"
    unfolding rest by (rule length_dropWhile_le)
  ultimately show ?thesis
    using length_dropWhile_le [of "\<lambda>c. c = slash" path] unfolding rest_def by linarith
qed

function namex_loop ::
  "u8 list \<Rightarrow> bool \<Rightarrow> blk \<Rightarrow> nat \<Rightarrow> (nat option \<times> blk, 'a fs_st_scheme) m" where
  "namex_loop path parent name ip s =
     (case skipelem path name of
        None \<Rightarrow> if parent then bnd (iput ip) (\<lambda>_. ret (None, name)) else ret (Some ip, name)
      | Some pn \<Rightarrow>
          bnd (ilock ip) (\<lambda>_.
          bnd (get_inode ip) (\<lambda>i.
          if i_type i \<noteq> T_DIR then bnd (iunlockput ip) (\<lambda>_. ret (None, snd pn))
          else if parent \<and> fst pn = [] then bnd (iunlock ip) (\<lambda>_. ret (Some ip, snd pn))
          else
            bnd (dirlookup ip (snd pn)) (\<lambda>r.
            case r of
              None \<Rightarrow> bnd (iunlockput ip) (\<lambda>_. ret (None, snd pn))
            | Some nx \<Rightarrow>
                bnd (iunlockput ip) (\<lambda>_.
                namex_loop (fst pn) parent (snd pn) (fst nx)))))) s"
  by auto
termination
  by (relation "measure (\<lambda>(path, parent, name, ip, s). length path)")
    (simp, simp only: in_measure prod.case, erule skipelem_shorter)

declare namex_loop.simps [simp del]

definition namex :: "u8 list \<Rightarrow> bool \<Rightarrow> blk \<Rightarrow> (nat option \<times> blk, 'a fs_st_scheme) m" where
  "namex path parent name =
     bnd (if path \<noteq> [] \<and> hd path = slash then iget ROOTDEV ROOTINO
          else with_myproc (\<lambda>p.
            bnd (gets (\<lambda>s. p_cwd (procs s p))) (\<lambda>cwd.
            case cwd of None \<Rightarrow> panic ''kerneltrap'' | Some ip \<Rightarrow> idup ip))) (\<lambda>ip.
     namex_loop path parent name ip)"

text \<open>\<^verbatim>\<open>char name[DIRSIZ]\<close> of \<^verbatim>\<open>namei\<close> is not initialised; its content does not matter.\<close>

definition namei :: "u8 list \<Rightarrow> (nat option, 'a fs_st_scheme) m" where
  "namei path = bnd (gets klocal) (\<lambda>name. bnd (namex path False name) (\<lambda>r. ret (fst r)))"

definition nameiparent :: "u8 list \<Rightarrow> blk \<Rightarrow> (nat option \<times> blk, 'a fs_st_scheme) m" where
  "nameiparent path name = namex path True name"

end
