(* ===== verification/Pipe.thy ===== *)
theory Pipe
  imports Fs
begin

text \<open>
  \<^verbatim>\<open>kernel/pipe.c\<close>, apart from \<^verbatim>\<open>pipealloc\<close>, which needs the file table. A \<^verbatim>\<open>struct pipe\<close> lives in
  a page of its own; \<open>pipes\<close> is the view of those pages, by address.
\<close>

definition PIPESIZE :: nat where "PIPESIZE = 512"

record pipe =
  pi_data :: "nat \<Rightarrow> u8"
  pi_nread :: u32
  pi_nwrite :: u32
  pi_readopen :: bool
  pi_writeopen :: bool

record pipe_st = fs_st +
  pipes :: "u64 \<Rightarrow> pipe"

definition get_pipe :: "u64 \<Rightarrow> (pipe, 'a pipe_st_scheme) m" where
  "get_pipe a = gets (\<lambda>s. pipes s a)"

definition upd_pipe :: "u64 \<Rightarrow> (pipe \<Rightarrow> pipe) \<Rightarrow> (unit, 'a pipe_st_scheme) m" where
  "upd_pipe a f = modify (\<lambda>s. s\<lparr>pipes := (pipes s)(a := f (pipes s a))\<rparr>)"

definition pipeclose :: "u64 \<Rightarrow> bool \<Rightarrow> (unit, 'a pipe_st_scheme) m" where
  "pipeclose pi writable =
     bnd (acquire (L_pipe pi)) (\<lambda>_.
     bnd (if writable
          then block [upd_pipe pi (\<lambda>p. p\<lparr>pi_writeopen := False\<rparr>), wakeup (Some (Ch_nread pi))]
          else block [upd_pipe pi (\<lambda>p. p\<lparr>pi_readopen := False\<rparr>), wakeup (Some (Ch_nwrite pi))]) (\<lambda>_.
     bnd (get_pipe pi) (\<lambda>p.
     if \<not> pi_readopen p \<and> \<not> pi_writeopen p
     then block [release (L_pipe pi), kfree pi]
     else release (L_pipe pi))))"

text \<open>\<^verbatim>\<open>pi->data[pi->nwrite++ % PIPESIZE] = ch\<close> and \<^verbatim>\<open>ch = pi->data[pi->nread++ % PIPESIZE]\<close>.\<close>

definition pipe_put :: "u8 \<Rightarrow> pipe \<Rightarrow> pipe" where
  "pipe_put c p = p\<lparr>pi_data := (pi_data p)(unat (pi_nwrite p) mod PIPESIZE := c),
     pi_nwrite := pi_nwrite p + 1\<rparr>"

definition pipe_next :: "pipe \<Rightarrow> u8" where
  "pipe_next p = pi_data p (unat (pi_nread p) mod PIPESIZE)"

definition pipe_get :: "pipe \<Rightarrow> pipe" where
  "pipe_get p = p\<lparr>pi_nread := pi_nread p + 1\<rparr>"

text \<open>
  The loop of \<^verbatim>\<open>pipewrite\<close> with \<open>k = n - i\<close> bytes to go; a writer that sleeps on a full pipe
  resumes with the same arguments.
\<close>

definition pipewrite_end :: "u64 \<Rightarrow> nat \<Rightarrow> (int, 'a pipe_st_scheme) m" where
  "pipewrite_end pi i =
     bnd (wakeup (Some (Ch_nread pi))) (\<lambda>_.
     bnd (release (L_pipe pi)) (\<lambda>_.
     ret (int i)))"

primrec pipewrite_loop :: "nat \<Rightarrow> nat \<Rightarrow> u64 \<Rightarrow> nat \<Rightarrow> u64 \<Rightarrow> (int, 'a pipe_st_scheme) m" where
  "pipewrite_loop 0 i pi pr addr = pipewrite_end pi i"
| "pipewrite_loop (Suc k) i pi pr addr =
     bnd (get_pipe pi) (\<lambda>p.
     bnd (if \<not> pi_readopen p then ret True else killed pr) (\<lambda>stop.
     if stop
     then bnd (release (L_pipe pi)) (\<lambda>_. ret (-1))
     else if pi_nwrite p = pi_nread p + of_nat PIPESIZE
     then
       bnd (wakeup (Some (Ch_nread pi))) (\<lambda>_.
       sleep (Some (Ch_nwrite pi)) (L_pipe pi))
     else
       bnd (gets (\<lambda>s. p_pagetable (procs s pr))) (\<lambda>pagetable.
       bnd (copyin pagetable (addr + of_nat i) 1) (\<lambda>r.
       if fst r = -1
       then pipewrite_end pi i
       else
         bnd (upd_pipe pi (pipe_put (hd (snd r)))) (\<lambda>_.
         pipewrite_loop k (Suc i) pi pr addr)))))"

definition pipewrite :: "u64 \<Rightarrow> u64 \<Rightarrow> int \<Rightarrow> (int, 'a pipe_st_scheme) m" where
  "pipewrite pi addr n = with_myproc (\<lambda>pr.
     bnd (acquire (L_pipe pi)) (\<lambda>_.
     pipewrite_loop (nat n) 0 pi pr addr))"

definition piperead_end :: "u64 \<Rightarrow> nat \<Rightarrow> (int, 'a pipe_st_scheme) m" where
  "piperead_end pi i =
     bnd (wakeup (Some (Ch_nwrite pi))) (\<lambda>_.
     bnd (release (L_pipe pi)) (\<lambda>_.
     ret (int i)))"

primrec piperead_loop :: "nat \<Rightarrow> nat \<Rightarrow> u64 \<Rightarrow> nat \<Rightarrow> u64 \<Rightarrow> (int, 'a pipe_st_scheme) m" where
  "piperead_loop 0 i pi pr addr = piperead_end pi i"
| "piperead_loop (Suc k) i pi pr addr =
     bnd (get_pipe pi) (\<lambda>p.
     if pi_nread p = pi_nwrite p
     then piperead_end pi i
     else
       bnd (upd_pipe pi pipe_get) (\<lambda>_.
       bnd (gets (\<lambda>s. p_pagetable (procs s pr))) (\<lambda>pagetable.
       bnd (copyout pagetable (addr + of_nat i) [pipe_next p]) (\<lambda>r.
       if r = -1
       then piperead_end pi i
       else piperead_loop k (Suc i) pi pr addr))))"

definition piperead :: "u64 \<Rightarrow> u64 \<Rightarrow> int \<Rightarrow> (int, 'a pipe_st_scheme) m" where
  "piperead pi addr n = with_myproc (\<lambda>pr.
     bnd (acquire (L_pipe pi)) (\<lambda>_.
     bnd (get_pipe pi) (\<lambda>p.
     if pi_nread p = pi_nwrite p \<and> pi_writeopen p
     then
       bnd (killed pr) (\<lambda>k.
       if k then bnd (release (L_pipe pi)) (\<lambda>_. ret (-1))
       else sleep (Some (Ch_nread pi)) (L_pipe pi))
     else piperead_loop (nat n) 0 pi pr addr)))"

end
