(* ===== verification/File.thy ===== *)
theory File
  imports Pipe
begin

text \<open>
  \<^verbatim>\<open>kernel/file.c\<close>, and \<^verbatim>\<open>pipealloc\<close> of \<^verbatim>\<open>kernel/pipe.c\<close>. A \<^verbatim>\<open>struct file\<close> is its index in
  \<^verbatim>\<open>ftable.file[NFILE]\<close>.
\<close>

datatype fdtype = FD_NONE | FD_PIPE | FD_INODE | FD_DEVICE

record kfile =
  f_type :: fdtype
  f_ref :: int
  f_readable :: bool
  f_writable :: bool
  f_pipe :: u64
  f_ip :: nat
  f_off :: u32
  f_major :: u16

record file_st = pipe_st +
  ftable :: "nat \<Rightarrow> kfile"

definition get_file :: "nat \<Rightarrow> (kfile, 'a file_st_scheme) m" where
  "get_file f = gets (\<lambda>s. ftable s f)"

definition upd_file :: "nat \<Rightarrow> (kfile \<Rightarrow> kfile) \<Rightarrow> (unit, 'a file_st_scheme) m" where
  "upd_file f g = modify (\<lambda>s. s\<lparr>ftable := (ftable s)(f := g (ftable s f))\<rparr>)"

definition fileinit :: "(unit, 'a file_st_scheme) m" where
  "fileinit = init_lock L_ftable"

definition filealloc :: "(nat option, 'a file_st_scheme) m" where
  "filealloc =
     bnd (acquire L_ftable) (\<lambda>_.
     bnd (for_first [0..<NFILE] (\<lambda>f.
       bnd (get_file f) (\<lambda>fl.
       if f_ref fl = 0
       then
         bnd (upd_file f (\<lambda>fl. fl\<lparr>f_ref := 1\<rparr>)) (\<lambda>_.
         bnd (release L_ftable) (\<lambda>_.
         ret (Some f)))
       else ret None))) (\<lambda>r.
     case r of
       Some f \<Rightarrow> ret (Some f)
     | None \<Rightarrow> bnd (release L_ftable) (\<lambda>_. ret None)))"

definition filedup :: "nat \<Rightarrow> (nat, 'a file_st_scheme) m" where
  "filedup f =
     bnd (acquire L_ftable) (\<lambda>_.
     bnd (get_file f) (\<lambda>fl.
     bnd (panic_if (f_ref fl < 1) ''filedup'') (\<lambda>_.
     bnd (upd_file f (\<lambda>fl. fl\<lparr>f_ref := f_ref fl + 1\<rparr>)) (\<lambda>_.
     bnd (release L_ftable) (\<lambda>_.
     ret f)))))"

definition fileclose :: "nat \<Rightarrow> (unit, 'a file_st_scheme) m" where
  "fileclose f =
     bnd (acquire L_ftable) (\<lambda>_.
     bnd (get_file f) (\<lambda>fl.
     bnd (panic_if (f_ref fl < 1) ''fileclose'') (\<lambda>_.
     bnd (upd_file f (\<lambda>fl. fl\<lparr>f_ref := f_ref fl - 1\<rparr>)) (\<lambda>_.
     bnd (get_file f) (\<lambda>ff.
     if f_ref ff > 0
     then release L_ftable
     else block [
       upd_file f (\<lambda>fl. fl\<lparr>f_ref := 0\<rparr>),
       upd_file f (\<lambda>fl. fl\<lparr>f_type := FD_NONE\<rparr>),
       release L_ftable,
       (if f_type ff = FD_PIPE
        then pipeclose (f_pipe ff) (f_writable ff)
        else if_do (f_type ff = FD_INODE \<or> f_type ff = FD_DEVICE) (block [
          begin_op,
          iput (f_ip ff),
          end_op]))])))))"

text \<open>\<^verbatim>\<open>struct stat\<close> is 24 bytes, filled by \<^verbatim>\<open>stati\<close> in the routine's local buffer.\<close>

definition filestat :: "nat \<Rightarrow> u64 \<Rightarrow> (int, 'a file_st_scheme) m" where
  "filestat f addr = with_myproc (\<lambda>p.
     bnd (get_file f) (\<lambda>fl.
     if f_type fl = FD_INODE \<or> f_type fl = FD_DEVICE
     then
       bnd (ilock (f_ip fl)) (\<lambda>_.
       bnd (stati (f_ip fl)) (\<lambda>_.
       bnd (iunlock (f_ip fl)) (\<lambda>_.
       bnd (gets (\<lambda>s. (p_pagetable (procs s p), rdb (klocal s) 0 24))) (\<lambda>ps.
       bnd (copyout (fst ps) addr (snd ps)) (\<lambda>r.
       if r < 0 then ret (-1) else ret 0)))))
     else ret (-1)))"

text \<open>A call through \<^verbatim>\<open>devsw[major]\<close> with \<^verbatim>\<open>user_dst = 1\<close>.\<close>

fun devsw_call :: "devfn \<Rightarrow> u64 \<Rightarrow> int \<Rightarrow> (int, 'a con_st_scheme) m" where
  "devsw_call F_consoleread addr n = consoleread (UserVA addr) n"
| "devsw_call F_consolewrite addr n = consolewrite (UserVA addr) n"

definition fileread :: "nat \<Rightarrow> u64 \<Rightarrow> int \<Rightarrow> (int, 'a file_st_scheme) m" where
  "fileread f addr n =
     bnd (get_file f) (\<lambda>fl.
     if \<not> f_readable fl then ret (-1)
     else case f_type fl of
       FD_PIPE \<Rightarrow> piperead (f_pipe fl) addr n
     | FD_DEVICE \<Rightarrow>
         bnd (gets (\<lambda>s. dev_read (devsw_tab s (nat (sint (f_major fl)))))) (\<lambda>rd.
         if sint (f_major fl) < 0 \<or> sint (f_major fl) \<ge> int NDEV
         then ret (-1)
         else case rd of None \<Rightarrow> ret (-1) | Some fn \<Rightarrow> devsw_call fn addr n)
     | FD_INODE \<Rightarrow>
         bnd (ilock (f_ip fl)) (\<lambda>_.
         bnd (get_file f) (\<lambda>fl.
         bnd (readi (f_ip fl) (UserVA addr) (f_off fl) (of_int n)) (\<lambda>r.
         bnd (if_do (0 < sint r) (upd_file f (\<lambda>fl. fl\<lparr>f_off := f_off fl + r\<rparr>))) (\<lambda>_.
         bnd (iunlock (f_ip fl)) (\<lambda>_.
         ret (sint r))))))
     | FD_NONE \<Rightarrow> panic ''fileread'')"

text \<open>
  The loop of \<^verbatim>\<open>filewrite\<close> for an inode, one transaction a turn; its result is the final \<open>i\<close>. A
  turn that goes on has written \<open>n1 > 0\<close> bytes, so the loop ends.
\<close>

definition filewrite_max :: int where
  "filewrite_max = ((int MAXOPBLOCKS - 1 - 1 - 2) div 2) * int BSIZE"

function filewrite_loop :: "nat \<Rightarrow> u64 \<Rightarrow> int \<Rightarrow> int \<Rightarrow> (int, 'a file_st_scheme) m" where
  "filewrite_loop f addr n i s =
     (if i < n
      then
        let n1 = min (n - i) filewrite_max in
        bnd begin_op (\<lambda>_.
        bnd (get_file f) (\<lambda>fl.
        bnd (ilock (f_ip fl)) (\<lambda>_.
        bnd (get_file f) (\<lambda>fl.
        bnd (writei (f_ip fl) (UserVA (addr + of_int i)) (f_off fl) (of_int n1)) (\<lambda>r.
        bnd (if_do (0 < sint r) (upd_file f (\<lambda>fl. fl\<lparr>f_off := f_off fl + r\<rparr>))) (\<lambda>_.
        bnd (iunlock (f_ip fl)) (\<lambda>_.
        bnd end_op (\<lambda>_.
        if sint r \<noteq> n1 then ret i
        else filewrite_loop f addr n (i + n1)))))))))
      else ret i) s"
  by auto
termination
  by (relation "measure (\<lambda>(f, addr, n, i, s). nat (n - i))")
    (simp_all add: filewrite_max_def MAXOPBLOCKS_def BSIZE_def)

declare filewrite_loop.simps [simp del]

definition filewrite :: "nat \<Rightarrow> u64 \<Rightarrow> int \<Rightarrow> (int, 'a file_st_scheme) m" where
  "filewrite f addr n =
     bnd (get_file f) (\<lambda>fl.
     if \<not> f_writable fl then ret (-1)
     else case f_type fl of
       FD_PIPE \<Rightarrow> pipewrite (f_pipe fl) addr n
     | FD_DEVICE \<Rightarrow>
         bnd (gets (\<lambda>s. dev_write (devsw_tab s (nat (sint (f_major fl)))))) (\<lambda>wr.
         if sint (f_major fl) < 0 \<or> sint (f_major fl) \<ge> int NDEV
         then ret (-1)
         else case wr of None \<Rightarrow> ret (-1) | Some fn \<Rightarrow> devsw_call fn addr n)
     | FD_INODE \<Rightarrow>
         bnd (filewrite_loop f addr n 0) (\<lambda>i.
         ret (if i = n then n else -1))
     | FD_NONE \<Rightarrow> panic ''filewrite'')"

section \<open>pipealloc\<close>

definition pipealloc_bad :: "u64 \<Rightarrow> nat option \<Rightarrow> nat option \<Rightarrow> (int, 'a file_st_scheme) m" where
  "pipealloc_bad pi f0 f1 =
     bnd (if_do (pi \<noteq> 0) (kfree pi)) (\<lambda>_.
     bnd (case f0 of None \<Rightarrow> ret () | Some f \<Rightarrow> fileclose f) (\<lambda>_.
     bnd (case f1 of None \<Rightarrow> ret () | Some f \<Rightarrow> fileclose f) (\<lambda>_.
     ret (-1))))"

text \<open>The results are the return value and the two files stored through \<^verbatim>\<open>f0\<close> and \<^verbatim>\<open>f1\<close>.\<close>

definition pipealloc :: "(int \<times> nat option \<times> nat option, 'a file_st_scheme) m" where
  "pipealloc =
     bnd filealloc (\<lambda>f0.
     case f0 of
       None \<Rightarrow> bnd (pipealloc_bad 0 None None) (\<lambda>r. ret (r, None, None))
     | Some a \<Rightarrow>
         bnd filealloc (\<lambda>f1.
         case f1 of
           None \<Rightarrow> bnd (pipealloc_bad 0 (Some a) None) (\<lambda>r. ret (r, Some a, None))
         | Some b \<Rightarrow>
             bnd kalloc (\<lambda>pi.
             if pi = 0
             then bnd (pipealloc_bad 0 (Some a) (Some b)) (\<lambda>r. ret (r, Some a, Some b))
             else bnd (block [
               upd_pipe pi (\<lambda>p. p\<lparr>pi_readopen := True\<rparr>),
               upd_pipe pi (\<lambda>p. p\<lparr>pi_writeopen := True\<rparr>),
               upd_pipe pi (\<lambda>p. p\<lparr>pi_nwrite := 0\<rparr>),
               upd_pipe pi (\<lambda>p. p\<lparr>pi_nread := 0\<rparr>),
               init_lock (L_pipe pi),
               upd_file a (\<lambda>f. f\<lparr>f_type := FD_PIPE, f_readable := True, f_writable := False, f_pipe := pi\<rparr>),
               upd_file b (\<lambda>f. f\<lparr>f_type := FD_PIPE, f_readable := False, f_writable := True, f_pipe := pi\<rparr>)])
               (\<lambda>_. ret (0, Some a, Some b)))))"

end
