(* ===== verification/Process.thy ===== *)
theory Process
  imports File
begin

text \<open>
  The part of \<^verbatim>\<open>kernel/proc.c\<close> that works on files: \<^verbatim>\<open>userinit\<close>, \<^verbatim>\<open>fork\<close> and \<^verbatim>\<open>exit\<close>, and access to
  the fields of a process's trapframe page.
\<close>

section \<open>The trapframe\<close>

text \<open>Offsets of the fields of \<^verbatim>\<open>struct trapframe\<close> that C code touches, and its size.\<close>

definition TF_kernel_satp :: u64 where "TF_kernel_satp = 0"
definition TF_kernel_sp :: u64 where "TF_kernel_sp = 8"
definition TF_kernel_trap :: u64 where "TF_kernel_trap = 16"
definition TF_epc :: u64 where "TF_epc = 24"
definition TF_kernel_hartid :: u64 where "TF_kernel_hartid = 32"
definition TF_sp :: u64 where "TF_sp = 48"
definition TF_a0 :: u64 where "TF_a0 = 112"
definition TF_a1 :: u64 where "TF_a1 = 120"
definition TF_a2 :: u64 where "TF_a2 = 128"
definition TF_a3 :: u64 where "TF_a3 = 136"
definition TF_a4 :: u64 where "TF_a4 = 144"
definition TF_a5 :: u64 where "TF_a5 = 152"
definition TF_a7 :: u64 where "TF_a7 = 168"
definition TF_size :: nat where "TF_size = 288"

definition tf_get :: "nat \<Rightarrow> u64 \<Rightarrow> (u64, 'a proc_st_scheme) m" where
  "tf_get p off =
     bnd (gets (\<lambda>s. p_trapframe (procs s p))) (\<lambda>tf.
     deref tf (gets (\<lambda>s. load64 (ram s) (tf + off))))"

definition tf_set :: "nat \<Rightarrow> u64 \<Rightarrow> u64 \<Rightarrow> (unit, 'a proc_st_scheme) m" where
  "tf_set p off v =
     bnd (gets (\<lambda>s. p_trapframe (procs s p))) (\<lambda>tf.
     deref tf (set_ram (\<lambda>m. store64 m (tf + off) v)))"

section \<open>userinit\<close>

definition initcode :: "u8 list" where
  "initcode = [
     0x17, 0x05, 0x00, 0x00, 0x13, 0x05, 0x45, 0x02,
     0x97, 0x05, 0x00, 0x00, 0x93, 0x85, 0x35, 0x02,
     0x93, 0x08, 0x70, 0x00, 0x73, 0x00, 0x00, 0x00,
     0x93, 0x08, 0x20, 0x00, 0x73, 0x00, 0x00, 0x00,
     0xef, 0xf0, 0x9f, 0xff, 0x2f, 0x69, 0x6e, 0x69,
     0x74, 0x00, 0x00, 0x24, 0x00, 0x00, 0x00, 0x00,
     0x00, 0x00, 0x00, 0x00]"

definition userinit :: "(unit, 'a file_st_scheme) m" where
  "userinit =
     bnd allocproc (\<lambda>po.
     bnd (modify (\<lambda>s. s\<lparr>initproc := po\<rparr>)) (\<lambda>_.
     case po of
       None \<Rightarrow> panic ''kerneltrap''
     | Some p \<Rightarrow> block [
         bnd (gets (\<lambda>s. p_pagetable (procs s p))) (\<lambda>pagetable. uvmfirst pagetable initcode),
         upd_proc p (\<lambda>pr. pr\<lparr>p_sz := PGSIZE\<rparr>),
         tf_set p TF_epc 0,
         tf_set p TF_sp PGSIZE,
         upd_proc p (\<lambda>pr. pr\<lparr>p_name := safestrcpy (p_name pr) 0 (ptr (bytes ''initcode'')) 16\<rparr>),
         bnd (namei (bytes ''/'')) (\<lambda>cwd. upd_proc p (\<lambda>pr. pr\<lparr>p_cwd := cwd\<rparr>)),
         upd_proc p (\<lambda>pr. pr\<lparr>p_state := RUNNABLE\<rparr>),
         release (L_proc p)]))"

section \<open>fork\<close>

text \<open>\<^verbatim>\<open>*(np->trapframe) = *(p->trapframe)\<close>.\<close>

definition copy_trapframe :: "nat \<Rightarrow> nat \<Rightarrow> (unit, 'a proc_st_scheme) m" where
  "copy_trapframe np p =
     bnd (gets (\<lambda>s. (p_trapframe (procs s np), p_trapframe (procs s p)))) (\<lambda>t.
     deref (fst t) (deref (snd t) (set_ram (\<lambda>m. wr m (fst t) (rd m (snd t) TF_size)))))"

text \<open>Following a null \<^verbatim>\<open>struct inode *\<close> or \<^verbatim>\<open>struct file *\<close> traps in the kernel.\<close>

definition deref_opt :: "'p option \<Rightarrow> ('p \<Rightarrow> ('r, 's) m) \<Rightarrow> ('r, 's) m" where
  "deref_opt po k = (case po of None \<Rightarrow> panic ''kerneltrap'' | Some p \<Rightarrow> k p)"

definition fork :: "(int, 'a file_st_scheme) m" where
  "fork = with_myproc (\<lambda>p.
     bnd allocproc (\<lambda>npo.
     case npo of
       None \<Rightarrow> ret (-1)
     | Some np \<Rightarrow>
         bnd (gets (\<lambda>s. (p_pagetable (procs s p), p_pagetable (procs s np), p_sz (procs s p)))) (\<lambda>(old, new, sz).
         bnd (uvmcopy old new sz) (\<lambda>r.
         if r < 0
         then
           bnd (freeproc np) (\<lambda>_.
           bnd (release (L_proc np)) (\<lambda>_.
           ret (-1)))
         else
           bnd (block [
             upd_proc np (\<lambda>pr. pr\<lparr>p_sz := sz\<rparr>),
             copy_trapframe np p,
             tf_set np TF_a0 0,
             for_each [0..<NOFILE] (\<lambda>i.
               bnd (gets (\<lambda>s. p_ofile (procs s p) i)) (\<lambda>fo.
               case fo of
                 None \<Rightarrow> ret ()
               | Some f \<Rightarrow>
                   bnd (filedup f) (\<lambda>f.
                   upd_proc np (\<lambda>pr. pr\<lparr>p_ofile := (p_ofile pr)(i := Some f)\<rparr>)))),
             bnd (gets (\<lambda>s. p_cwd (procs s p))) (\<lambda>cwd.
               bnd (deref_opt cwd idup) (\<lambda>ip.
               upd_proc np (\<lambda>pr. pr\<lparr>p_cwd := Some ip\<rparr>))),
             bnd (gets (\<lambda>s. p_name (procs s p))) (\<lambda>name.
               upd_proc np (\<lambda>pr. pr\<lparr>p_name := safestrcpy (p_name pr) 0 name 16\<rparr>))]) (\<lambda>_.
           bnd (gets (\<lambda>s. p_pid (procs s np))) (\<lambda>pid.
           bnd (block [
             release (L_proc np),
             acquire L_wait,
             upd_proc np (\<lambda>pr. pr\<lparr>p_parent := Some p\<rparr>),
             release L_wait,
             acquire (L_proc np),
             upd_proc np (\<lambda>pr. pr\<lparr>p_state := RUNNABLE\<rparr>),
             release (L_proc np)]) (\<lambda>_.
           ret (sint pid))))))))"

section \<open>exit\<close>

definition close_files :: "nat \<Rightarrow> (unit, 'a file_st_scheme) m" where
  "close_files p = for_each [0..<NOFILE] (\<lambda>fd.
     bnd (gets (\<lambda>s. p_ofile (procs s p) fd)) (\<lambda>fo.
     case fo of
       None \<Rightarrow> ret ()
     | Some f \<Rightarrow> block [
         fileclose f,
         upd_proc p (\<lambda>pr. pr\<lparr>p_ofile := (p_ofile pr)(fd := None)\<rparr>)]))"

definition exit :: "u32 \<Rightarrow> ('r, 'a file_st_scheme) m" where
  "exit status = with_myproc (\<lambda>p.
     bnd (gets initproc) (\<lambda>init.
     bnd (panic_if (init = Some p) ''init exiting'') (\<lambda>_.
     bnd (close_files p) (\<lambda>_.
     bnd begin_op (\<lambda>_.
     bnd (gets (\<lambda>s. p_cwd (procs s p))) (\<lambda>cwd.
     bnd (deref_opt cwd iput) (\<lambda>_.
     bnd end_op (\<lambda>_.
     bnd (upd_proc p (\<lambda>pr. pr\<lparr>p_cwd := None\<rparr>)) (\<lambda>_.
     exit_zombie p status)))))))))"

end
