(* ===== verification/Exec.thy ===== *)
theory Exec
  imports Process
begin

text \<open>
  \<^verbatim>\<open>kernel/exec.c\<close> and the ELF headers of \<^verbatim>\<open>kernel/elf.h\<close> (the fields \<^verbatim>\<open>exec\<close> reads, at their offsets
  in the header). \<open>argv\<close> is the list of the pages that hold the argument strings.
\<close>

definition ELF_MAGIC :: u32 where "ELF_MAGIC = 0x464C457F"
definition ELF_PROG_LOAD :: u32 where "ELF_PROG_LOAD = 1"

record elfhdr =
  e_magic :: u32
  e_entry :: u64
  e_phoff :: u64
  e_phnum :: u16

definition get_elfhdr :: "blk \<Rightarrow> elfhdr" where
  "get_elfhdr d = \<lparr>e_magic = le_word (rdb d 0 4), e_entry = le_word (rdb d 24 8),
     e_phoff = le_word (rdb d 32 8), e_phnum = le_word (rdb d 56 2)\<rparr>"

record proghdr =
  ph_type :: u32
  ph_flags :: u32
  ph_off :: u64
  ph_vaddr :: u64
  ph_filesz :: u64
  ph_memsz :: u64

definition get_proghdr :: "blk \<Rightarrow> proghdr" where
  "get_proghdr d = \<lparr>ph_type = le_word (rdb d 0 4), ph_flags = le_word (rdb d 4 4),
     ph_off = le_word (rdb d 8 8), ph_vaddr = le_word (rdb d 16 8),
     ph_filesz = le_word (rdb d 32 8), ph_memsz = le_word (rdb d 40 8)\<rparr>"

definition flags2perm :: "u32 \<Rightarrow> u64" where
  "flags2perm flags =
     (let perm = (if flags AND 0x1 \<noteq> 0 then PTE_X else 0)
      in if flags AND 0x2 \<noteq> 0 then perm OR PTE_W else perm)"

text \<open>
  \<^verbatim>\<open>loadseg\<close>. When \<^verbatim>\<open>sz\<close> is within a page of \<open>2\<^sup>3\<^sup>2\<close> the \<^verbatim>\<open>uint\<close> index wraps to zero and the loop
  starts over.
\<close>

function loadseg_loop ::
  "u64 \<Rightarrow> u64 \<Rightarrow> nat \<Rightarrow> u32 \<Rightarrow> u32 \<Rightarrow> u32 \<Rightarrow> (int, 'a fs_st_scheme) m" where
  "loadseg_loop pagetable va ip offset sz i s =
     (if i < sz
      then
        bnd (walkaddr pagetable (va + ucast i)) (\<lambda>pa.
        if pa = 0 then panic ''loadseg: address should exist''
        else
          let n = (if sz - i < ucast PGSIZE then sz - i else ucast PGSIZE) in
          bnd (readi ip (KernPA pa) (offset + i) n) (\<lambda>r.
          if r \<noteq> n then ret (-1)
          else if i + ucast PGSIZE < i then forever
          else loadseg_loop pagetable va ip offset sz (i + ucast PGSIZE)))
      else ret 0) s"
  by auto
termination
proof (relation "measure (\<lambda>(pt, va, ip, off, sz, i, s). 2 ^ 32 - unat i)", goal_cases)
  case (2 pagetable va ip offset sz i s)
  have "unat i < 2 ^ 32" using u32_lt [of i] by simp
  moreover have "i < i + 4096"
  proof -
    have "i \<noteq> i + 4096" by simp
    moreover have "\<not> i + 4096 < i" using 2 by (simp add: PGSIZE_def)
    ultimately show ?thesis by (metis less_linear)
  qed
  ultimately show ?case
    by (simp add: PGSIZE_def word_less_nat_alt del: unat_add_lem)
qed simp

declare loadseg_loop.simps [simp del]

definition loadseg :: "u64 \<Rightarrow> u64 \<Rightarrow> nat \<Rightarrow> u32 \<Rightarrow> u32 \<Rightarrow> (int, 'a fs_st_scheme) m" where
  "loadseg pagetable va ip offset sz = loadseg_loop pagetable va ip offset sz 0"

text \<open>
  The loop over the program headers with \<open>k\<close> of them left: whether it ended without \<^verbatim>\<open>goto bad\<close>,
  and \<^verbatim>\<open>sz\<close>.
\<close>

primrec load_program :: "nat \<Rightarrow> u32 \<Rightarrow> u64 \<Rightarrow> nat \<Rightarrow> u64 \<Rightarrow> (bool \<times> u64, 'a fs_st_scheme) m" where
  "load_program 0 off pagetable ip sz = ret (True, sz)"
| "load_program (Suc k) off pagetable ip sz =
     bnd (readi ip (KernLocal 0) off 56) (\<lambda>r.
     if r \<noteq> 56 then ret (False, sz)
     else
       bnd (gets (\<lambda>s. get_proghdr (klocal s))) (\<lambda>ph.
       if ph_type ph \<noteq> ELF_PROG_LOAD then load_program k (off + 56) pagetable ip sz
       else if ph_memsz ph < ph_filesz ph then ret (False, sz)
       else if ph_vaddr ph + ph_memsz ph < ph_vaddr ph then ret (False, sz)
       else if ph_vaddr ph mod PGSIZE \<noteq> 0 then ret (False, sz)
       else
         bnd (uvmalloc pagetable sz (ph_vaddr ph + ph_memsz ph) (flags2perm (ph_flags ph))) (\<lambda>sz1.
         if sz1 = 0 then ret (False, sz)
         else
           bnd (loadseg pagetable (ph_vaddr ph) ip (ucast (ph_off ph)) (ucast (ph_filesz ph))) (\<lambda>r.
           if r < 0 then ret (False, sz1)
           else load_program k (off + 56) pagetable ip sz1))))"

text \<open>\<^verbatim>\<open>strlen\<close> of a string in kernel memory, and the string with its NUL.\<close>

definition with_kstr :: "u64 \<Rightarrow> (u8 list \<Rightarrow> ('r, 'a kmem_st_scheme) m) \<Rightarrow> ('r, 'a kmem_st_scheme) m" where
  "with_kstr a k =
     bnd (gets (\<lambda>s. (strlen (\<lambda>i. ram s (a + of_nat i)), ram s))) (\<lambda>nm.
     case fst nm of
       None \<Rightarrow> forever
     | Some n \<Rightarrow> k (rd (snd nm) a (n + 1)))"

text \<open>
  Pushing the argument strings: \<open>None\<close> for \<^verbatim>\<open>goto bad\<close>, otherwise \<^verbatim>\<open>sp\<close> and the filled part of
  \<^verbatim>\<open>ustack\<close>.
\<close>

primrec push_args ::
  "u64 list \<Rightarrow> u64 \<Rightarrow> u64 \<Rightarrow> u64 \<Rightarrow> u64 list \<Rightarrow> ((u64 \<times> u64 list) option, 'a kmem_st_scheme) m" where
  "push_args [] pagetable stackbase sp ustack = ret (Some (sp, ustack))"
| "push_args (a # argv) pagetable stackbase sp ustack =
     (if length ustack \<ge> MAXARG then ret None
      else with_kstr a (\<lambda>str.
        let sp = sp - of_nat (length str);
            sp = sp - sp mod 16
        in if sp < stackbase then ret None
           else
             bnd (copyout pagetable sp str) (\<lambda>r.
             if r < 0 then ret None
             else push_args argv pagetable stackbase sp (ustack @ [sp]))))"

text \<open>The bytes of \<^verbatim>\<open>ustack[0..argc]\<close>, and the program name after the last slash.\<close>

definition ustack_bytes :: "u64 list \<Rightarrow> u8 list" where
  "ustack_bytes us = concat (map (le_bytes 8) us)"

fun last_elem :: "u8 list \<Rightarrow> u8 list \<Rightarrow> u8 list" where
  "last_elem l [] = l"
| "last_elem l (c # s) = last_elem (if c = slash then s else l) s"

definition exec_bad :: "u64 \<Rightarrow> u64 \<Rightarrow> nat option \<Rightarrow> (int, 'a fs_st_scheme) m" where
  "exec_bad pagetable sz ipo =
     bnd (if_do (pagetable \<noteq> 0) (proc_freepagetable pagetable sz)) (\<lambda>_.
     bnd (case ipo of None \<Rightarrow> ret () | Some ip \<Rightarrow> block [iunlockput ip, end_op]) (\<lambda>_.
     ret (-1)))"

text \<open>The last part of \<^verbatim>\<open>exec\<close>: save the name and commit to the new image.\<close>

definition exec_commit ::
  "nat \<Rightarrow> u8 list \<Rightarrow> u64 \<Rightarrow> u64 \<Rightarrow> u64 \<Rightarrow> u64 \<Rightarrow> u64 \<Rightarrow> nat \<Rightarrow> (int, 'a fs_st_scheme) m" where
  "exec_commit p path pagetable sz oldsz entry sp argc =
     bnd (tf_set p TF_a1 sp) (\<lambda>_.
     bnd (upd_proc p (\<lambda>pr. pr\<lparr>p_name := safestrcpy (p_name pr) 0 (ptr (last_elem path path)) 16\<rparr>)) (\<lambda>_.
     bnd (gets (\<lambda>s. p_pagetable (procs s p))) (\<lambda>oldpagetable.
     bnd (upd_proc p (\<lambda>pr. pr\<lparr>p_pagetable := pagetable\<rparr>)) (\<lambda>_.
     bnd (upd_proc p (\<lambda>pr. pr\<lparr>p_sz := sz\<rparr>)) (\<lambda>_.
     bnd (tf_set p TF_epc entry) (\<lambda>_.
     bnd (tf_set p TF_sp sp) (\<lambda>_.
     bnd (proc_freepagetable oldpagetable oldsz) (\<lambda>_.
     ret (int argc)))))))))"

text \<open>The middle: the user stack and the arguments, after the program has been loaded.\<close>

definition exec_stack ::
  "nat \<Rightarrow> u8 list \<Rightarrow> u64 list \<Rightarrow> u64 \<Rightarrow> u64 \<Rightarrow> u64 \<Rightarrow> (int, 'a fs_st_scheme) m" where
  "exec_stack p path argv pagetable sz entry =
     bnd (gets (\<lambda>s. p_sz (procs s p))) (\<lambda>oldsz.
     let sz = PGROUNDUP sz in
     bnd (uvmalloc pagetable sz (sz + (USERSTACK + 1) * PGSIZE) PTE_W) (\<lambda>sz1.
     if sz1 = 0 then exec_bad pagetable sz None
     else
       let sz = sz1 in
       bnd (uvmclear pagetable (sz - (USERSTACK + 1) * PGSIZE)) (\<lambda>_.
       let stackbase = sz - USERSTACK * PGSIZE in
       bnd (push_args argv pagetable stackbase sz []) (\<lambda>r.
       case r of
         None \<Rightarrow> exec_bad pagetable sz None
       | Some (sp, ustack) \<Rightarrow>
           let argc = length ustack in
           if argc \<ge> MAXARG then undef
           else
             let sp = sp - of_nat ((argc + 1) * 8);
                 sp = sp - sp mod 16
             in if sp < stackbase then exec_bad pagetable sz None
                else
                  bnd (copyout pagetable sp (ustack_bytes (ustack @ [0]))) (\<lambda>r.
                  if r < 0 then exec_bad pagetable sz None
                  else exec_commit p path pagetable sz oldsz entry sp argc)))))"

definition exec :: "u8 list \<Rightarrow> u64 list \<Rightarrow> (int, 'a fs_st_scheme) m" where
  "exec path argv = with_myproc (\<lambda>p.
     bnd begin_op (\<lambda>_.
     bnd (namei path) (\<lambda>ipo.
     case ipo of
       None \<Rightarrow> bnd end_op (\<lambda>_. ret (-1))
     | Some ip \<Rightarrow>
         bnd (ilock ip) (\<lambda>_.
         bnd (readi ip (KernLocal 0) 0 64) (\<lambda>r.
         if r \<noteq> 64 then exec_bad 0 0 (Some ip)
         else
           bnd (gets (\<lambda>s. get_elfhdr (klocal s))) (\<lambda>elf.
           if e_magic elf \<noteq> ELF_MAGIC then exec_bad 0 0 (Some ip)
           else
             bnd (proc_pagetable p) (\<lambda>pagetable.
             if pagetable = 0 then exec_bad 0 0 (Some ip)
             else
               bnd (load_program (unat (e_phnum elf)) (ucast (e_phoff elf)) pagetable ip 0) (\<lambda>(ok, sz).
               if \<not> ok then exec_bad pagetable sz (Some ip)
               else
                 bnd (iunlockput ip) (\<lambda>_.
                 bnd end_op (\<lambda>_.
                 exec_stack p path argv pagetable sz (e_entry elf)))))))))))"

end
