(* ===== verification/Syscall.thy ===== *)
theory Syscall
  imports Exec
begin

text \<open>
  \<^verbatim>\<open>kernel/syscall.c\<close>, \<^verbatim>\<open>kernel/sysproc.c\<close> and \<^verbatim>\<open>kernel/sysfile.c\<close>: fetching arguments from the user
  process, the twenty-one system calls, and the dispatch on \<^verbatim>\<open>a7\<close>. An \<^verbatim>\<open>int\<close> argument is its 32-bit
  pattern; a system call returns the \<^verbatim>\<open>uint64\<close> that goes to \<^verbatim>\<open>a0\<close>.
\<close>

section \<open>Arguments\<close>

definition fetchaddr :: "u64 \<Rightarrow> (int \<times> u64, 'a proc_st_scheme) m" where
  "fetchaddr addr = with_myproc (\<lambda>p.
     bnd (gets (\<lambda>s. procs s p)) (\<lambda>pr.
     if addr \<ge> p_sz pr \<or> addr + 8 > p_sz pr then ret (-1, 0)
     else
       bnd (copyin (p_pagetable pr) addr 8) (\<lambda>r.
       if fst r \<noteq> 0 then ret (-1, 0) else ret (0, le_word (snd r)))))"

text \<open>The string at the start of a buffer, up to its NUL.\<close>

definition str_of :: "u8 list \<Rightarrow> u8 list" where
  "str_of buf = takeWhile (\<lambda>c. c \<noteq> 0) buf"

text \<open>\<^verbatim>\<open>fetchstr\<close>: the result and the bytes stored in \<^verbatim>\<open>buf\<close>.\<close>

definition fetchstr :: "u64 \<Rightarrow> nat \<Rightarrow> (int \<times> u8 list, 'a proc_st_scheme) m" where
  "fetchstr addr mx = with_myproc (\<lambda>p.
     bnd (gets (\<lambda>s. p_pagetable (procs s p))) (\<lambda>pagetable.
     bnd (copyinstr pagetable addr mx) (\<lambda>r.
     ret (if fst r < 0 then -1 else int (length (str_of (snd r))), snd r))))"

definition argraw :: "nat \<Rightarrow> (u64, 'a proc_st_scheme) m" where
  "argraw n = with_myproc (\<lambda>p.
     if n = 0 then tf_get p TF_a0
     else if n = 1 then tf_get p TF_a1
     else if n = 2 then tf_get p TF_a2
     else if n = 3 then tf_get p TF_a3
     else if n = 4 then tf_get p TF_a4
     else if n = 5 then tf_get p TF_a5
     else panic ''argraw'')"

definition argint :: "nat \<Rightarrow> (u32, 'a proc_st_scheme) m" where
  "argint n = bnd (argraw n) (\<lambda>w. ret (ucast w))"

definition argaddr :: "nat \<Rightarrow> (u64, 'a proc_st_scheme) m" where
  "argaddr n = argraw n"

definition argstr :: "nat \<Rightarrow> nat \<Rightarrow> (int \<times> u8 list, 'a proc_st_scheme) m" where
  "argstr n mx = bnd (argaddr n) (\<lambda>addr. fetchstr addr mx)"

section \<open>sysproc.c\<close>

text \<open>\<^verbatim>\<open>return -1\<close> and an \<^verbatim>\<open>int\<close> result, as \<^verbatim>\<open>uint64\<close>.\<close>

definition ret_err :: "(u64, 's) m" where
  "ret_err = ret (-1)"

definition ret_int :: "int \<Rightarrow> (u64, 's) m" where
  "ret_int i = ret (of_int i)"

definition sys_exit :: "(u64, 'a file_st_scheme) m" where
  "sys_exit = bnd (argint 0) (\<lambda>n. exit n)"

definition sys_getpid :: "(u64, 'a proc_st_scheme) m" where
  "sys_getpid = with_myproc (\<lambda>p. gets (\<lambda>s. scast (p_pid (procs s p))))"

definition sys_fork :: "(u64, 'a file_st_scheme) m" where
  "sys_fork = bnd fork ret_int"

definition sys_wait :: "(u64, 'a proc_st_scheme) m" where
  "sys_wait = bnd (argaddr 0) (\<lambda>p. bnd (wait p) ret_int)"

definition sys_sbrk :: "(u64, 'a proc_st_scheme) m" where
  "sys_sbrk =
     bnd (argint 0) (\<lambda>n.
     with_myproc (\<lambda>p.
     bnd (gets (\<lambda>s. p_sz (procs s p))) (\<lambda>addr.
     bnd (growproc n) (\<lambda>r.
     if r < 0 then ret_err else ret addr))))"

text \<open>The wait loop of \<^verbatim>\<open>sys_sleep\<close>; a thread that sleeps resumes with the same arguments.\<close>

definition sys_sleep_wait :: "u32 \<Rightarrow> u32 \<Rightarrow> (u64, 'a proc_st_scheme) m" where
  "sys_sleep_wait ticks0 n =
     bnd (gets ticks) (\<lambda>t.
     if t - ticks0 < n
     then with_myproc (\<lambda>p.
       bnd (killed p) (\<lambda>k.
       if k then bnd (release L_ticks) (\<lambda>_. ret_err)
       else sleep (Some Ch_ticks) L_ticks))
     else bnd (release L_ticks) (\<lambda>_. ret 0))"

definition sys_sleep :: "(u64, 'a proc_st_scheme) m" where
  "sys_sleep =
     bnd (argint 0) (\<lambda>n.
     bnd (acquire L_ticks) (\<lambda>_.
     bnd (gets ticks) (\<lambda>ticks0.
     sys_sleep_wait ticks0 (if sint n < 0 then 0 else n))))"

definition sys_kill :: "(u64, 'a proc_st_scheme) m" where
  "sys_kill = bnd (argint 0) (\<lambda>pid. bnd (kill pid) ret_int)"

definition sys_uptime :: "(u64, 'a proc_st_scheme) m" where
  "sys_uptime =
     bnd (acquire L_ticks) (\<lambda>_.
     bnd (gets ticks) (\<lambda>xticks.
     bnd (release L_ticks) (\<lambda>_.
     ret (ucast xticks))))"

section \<open>sysfile.c\<close>

definition O_RDONLY :: u32 where "O_RDONLY = 0x000"
definition O_WRONLY :: u32 where "O_WRONLY = 0x001"
definition O_RDWR :: u32 where "O_RDWR = 0x002"
definition O_CREATE :: u32 where "O_CREATE = 0x200"
definition O_TRUNC :: u32 where "O_TRUNC = 0x400"

text \<open>\<^verbatim>\<open>argfd\<close>: \<open>None\<close> for -1, otherwise the descriptor and its file.\<close>

definition argfd :: "nat \<Rightarrow> ((nat \<times> nat) option, 'a proc_st_scheme) m" where
  "argfd n =
     bnd (argint n) (\<lambda>fd.
     if sint fd < 0 \<or> sint fd \<ge> int NOFILE then ret None
     else with_myproc (\<lambda>p.
       bnd (gets (\<lambda>s. p_ofile (procs s p) (nat (sint fd)))) (\<lambda>f.
       ret (map_option (\<lambda>f. (nat (sint fd), f)) f))))"

definition fdalloc :: "nat \<Rightarrow> (int, 'a proc_st_scheme) m" where
  "fdalloc f = with_myproc (\<lambda>p.
     bnd (for_first [0..<NOFILE] (\<lambda>fd.
       bnd (gets (\<lambda>s. p_ofile (procs s p) fd)) (\<lambda>o'.
       if o' = None
       then
         bnd (upd_proc p (\<lambda>pr. pr\<lparr>p_ofile := (p_ofile pr)(fd := Some f)\<rparr>)) (\<lambda>_.
         ret (Some (int fd)))
       else ret None))) (\<lambda>r.
     ret (case r of Some fd \<Rightarrow> fd | None \<Rightarrow> -1)))"

text \<open>The calls that start with \<^verbatim>\<open>if(argfd(0, ...) < 0) return -1;\<close>.\<close>

definition with_argfd :: "(nat \<Rightarrow> nat \<Rightarrow> (u64, 'a proc_st_scheme) m) \<Rightarrow> (u64, 'a proc_st_scheme) m" where
  "with_argfd k = bnd (argfd 0) (\<lambda>r. case r of None \<Rightarrow> ret_err | Some (fd, f) \<Rightarrow> k fd f)"

definition sys_dup :: "(u64, 'a file_st_scheme) m" where
  "sys_dup = with_argfd (\<lambda>_ f.
     bnd (fdalloc f) (\<lambda>fd.
     if fd < 0 then ret_err
     else bnd (filedup f) (\<lambda>_. ret_int fd)))"

definition sys_read :: "(u64, 'a file_st_scheme) m" where
  "sys_read =
     bnd (argaddr 1) (\<lambda>p.
     bnd (argint 2) (\<lambda>n.
     with_argfd (\<lambda>_ f. bnd (fileread f p (sint n)) ret_int)))"

definition sys_write :: "(u64, 'a file_st_scheme) m" where
  "sys_write =
     bnd (argaddr 1) (\<lambda>p.
     bnd (argint 2) (\<lambda>n.
     with_argfd (\<lambda>_ f. bnd (filewrite f p (sint n)) ret_int)))"

definition sys_close :: "(u64, 'a file_st_scheme) m" where
  "sys_close = with_argfd (\<lambda>fd f.
     with_myproc (\<lambda>p.
     bnd (upd_proc p (\<lambda>pr. pr\<lparr>p_ofile := (p_ofile pr)(fd := None)\<rparr>)) (\<lambda>_.
     bnd (fileclose f) (\<lambda>_.
     ret 0))))"

definition sys_fstat :: "(u64, 'a file_st_scheme) m" where
  "sys_fstat =
     bnd (argaddr 1) (\<lambda>st.
     with_argfd (\<lambda>_ f. bnd (filestat f st) ret_int))"

text \<open>\<^verbatim>\<open>end_op(); return -1;\<close> and \<^verbatim>\<open>iunlockput(ip); end_op(); return -1;\<close>.\<close>

definition end_err :: "(u64, 'a fs_st_scheme) m" where
  "end_err = bnd end_op (\<lambda>_. ret_err)"

definition put_end_err :: "nat \<Rightarrow> (u64, 'a fs_st_scheme) m" where
  "put_end_err ip = bnd (iunlockput ip) (\<lambda>_. end_err)"

definition sys_link_bad :: "nat \<Rightarrow> (u64, 'a fs_st_scheme) m" where
  "sys_link_bad ip =
     bnd (ilock ip) (\<lambda>_.
     bnd (upd_inode ip (\<lambda>i. i\<lparr>i_nlink := i_nlink i - 1\<rparr>)) (\<lambda>_.
     bnd (iupdate ip) (\<lambda>_.
     put_end_err ip)))"

definition sys_link :: "(u64, 'a fs_st_scheme) m" where
  "sys_link =
     bnd (argstr 0 MAXPATH) (\<lambda>old.
     if fst old < 0 then ret_err
     else
     bnd (argstr 1 MAXPATH) (\<lambda>new.
     if fst new < 0 then ret_err
     else
     bnd begin_op (\<lambda>_.
     bnd (namei (str_of (snd old))) (\<lambda>ipo.
     case ipo of
       None \<Rightarrow> end_err
     | Some ip \<Rightarrow>
         bnd (ilock ip) (\<lambda>_.
         bnd (get_inode ip) (\<lambda>i.
         if i_type i = T_DIR then put_end_err ip
         else
           bnd (upd_inode ip (\<lambda>i. i\<lparr>i_nlink := i_nlink i + 1\<rparr>)) (\<lambda>_.
           bnd (iupdate ip) (\<lambda>_.
           bnd (iunlock ip) (\<lambda>_.
           bnd (gets klocal) (\<lambda>name.
           bnd (nameiparent (str_of (snd new)) name) (\<lambda>(dpo, name).
           case dpo of
             None \<Rightarrow> sys_link_bad ip
           | Some dp \<Rightarrow>
               bnd (ilock dp) (\<lambda>_.
               bnd (get_inode dp) (\<lambda>d.
               bnd (get_inode ip) (\<lambda>i.
               bnd (if i_dev d \<noteq> i_dev i then ret (-1) else dirlink dp name (i_inum i)) (\<lambda>r.
               if r < 0
               then bnd (iunlockput dp) (\<lambda>_. sys_link_bad ip)
               else
                 bnd (iunlockput dp) (\<lambda>_.
                 bnd (iput ip) (\<lambda>_.
                 bnd end_op (\<lambda>_.
                 ret 0))))))))))))))))))"

function isdirempty_loop :: "nat \<Rightarrow> u32 \<Rightarrow> (bool, 'a fs_st_scheme) m" where
  "isdirempty_loop dp off s =
     bnd (get_inode dp) (\<lambda>d.
     if off < i_size d
     then
       bnd (readi dp (KernLocal 0) off 16) (\<lambda>r.
       if r \<noteq> 16 then panic ''isdirempty: readi''
       else
         bnd (gets klocal) (\<lambda>de.
         if de_inum de \<noteq> 0 then ret False else isdirempty_loop dp (off + 16)))
     else ret True) s"
  by auto
termination
proof (relation "measure (\<lambda>(dp, off, s). 2 ^ 32 - unat off)", goal_cases)
  case (2 dp off s d s1 r s2 de s3)
  then show ?case using dirent_progress by (simp only: in_measure prod.case not_not) blast
qed simp

declare isdirempty_loop.simps [simp del]

definition isdirempty :: "nat \<Rightarrow> (bool, 'a fs_st_scheme) m" where
  "isdirempty dp = isdirempty_loop dp (2 * 16)"

text \<open>The part of \<^verbatim>\<open>sys_unlink\<close> after both inodes are locked and the checks have passed.\<close>

definition unlink_entry :: "nat \<Rightarrow> nat \<Rightarrow> u32 \<Rightarrow> (u64, 'a fs_st_scheme) m" where
  "unlink_entry dp ip off =
     bnd (modify (\<lambda>s. s\<lparr>klocal := wrb (klocal s) 0 (replicate 16 0)\<rparr>)) (\<lambda>_.
     bnd (writei dp (KernLocal 0) off 16) (\<lambda>n.
     bnd (panic_if (n \<noteq> 16) ''unlink: writei'') (\<lambda>_.
     bnd (get_inode ip) (\<lambda>i.
     bnd (if_do (i_type i = T_DIR) (block [
       upd_inode dp (\<lambda>d. d\<lparr>i_nlink := i_nlink d - 1\<rparr>),
       iupdate dp])) (\<lambda>_.
     bnd (iunlockput dp) (\<lambda>_.
     bnd (upd_inode ip (\<lambda>i. i\<lparr>i_nlink := i_nlink i - 1\<rparr>)) (\<lambda>_.
     bnd (iupdate ip) (\<lambda>_.
     bnd (iunlockput ip) (\<lambda>_.
     bnd end_op (\<lambda>_.
     ret 0))))))))))"

definition sys_unlink :: "(u64, 'a fs_st_scheme) m" where
  "sys_unlink =
     bnd (argstr 0 MAXPATH) (\<lambda>path.
     if fst path < 0 then ret_err
     else
     bnd begin_op (\<lambda>_.
     bnd (gets klocal) (\<lambda>name.
     bnd (nameiparent (str_of (snd path)) name) (\<lambda>(dpo, name).
     case dpo of
       None \<Rightarrow> end_err
     | Some dp \<Rightarrow>
         bnd (ilock dp) (\<lambda>_.
         if namecmp name (ptr (bytes ''.'')) = 0 \<or> namecmp name (ptr (bytes ''..'')) = 0
         then put_end_err dp
         else
           bnd (dirlookup dp name) (\<lambda>r.
           case r of
             None \<Rightarrow> put_end_err dp
           | Some (ip, off) \<Rightarrow>
               bnd (ilock ip) (\<lambda>_.
               bnd (get_inode ip) (\<lambda>i.
               bnd (panic_if (sint (i_nlink i) < 1) ''unlink: nlink < 1'') (\<lambda>_.
               bnd (if i_type i = T_DIR then bnd (isdirempty ip) (\<lambda>e. ret (\<not> e)) else ret False) (\<lambda>full.
               if full
               then bnd (iunlockput ip) (\<lambda>_. put_end_err dp)
               else unlink_entry dp ip off))))))))))"

definition create_fail :: "nat \<Rightarrow> nat \<Rightarrow> (nat option, 'a fs_st_scheme) m" where
  "create_fail ip dp =
     bnd (upd_inode ip (\<lambda>i. i\<lparr>i_nlink := 0\<rparr>)) (\<lambda>_.
     bnd (iupdate ip) (\<lambda>_.
     bnd (iunlockput ip) (\<lambda>_.
     bnd (iunlockput dp) (\<lambda>_.
     ret None))))"

text \<open>The part of \<^verbatim>\<open>create\<close> that makes a new inode and links it in.\<close>

definition create_new :: "nat \<Rightarrow> blk \<Rightarrow> u16 \<Rightarrow> u16 \<Rightarrow> u16 \<Rightarrow> (nat option, 'a fs_st_scheme) m" where
  "create_new dp name type major minor =
     bnd (get_inode dp) (\<lambda>d.
     bnd (ialloc (i_dev d) type) (\<lambda>ipo.
     case ipo of
       None \<Rightarrow> bnd (iunlockput dp) (\<lambda>_. ret None)
     | Some ip \<Rightarrow>
         bnd (ilock ip) (\<lambda>_.
         bnd (upd_inode ip (\<lambda>i. i\<lparr>i_major := major, i_minor := minor, i_nlink := 1\<rparr>)) (\<lambda>_.
         bnd (iupdate ip) (\<lambda>_.
         bnd (get_inode ip) (\<lambda>i.
         bnd (if type = T_DIR
              then
                bnd (dirlink ip (ptr (bytes ''.'')) (i_inum i)) (\<lambda>r.
                if r < 0 then ret r else dirlink ip (ptr (bytes ''..'')) (i_inum d))
              else ret 0) (\<lambda>r.
         if r < 0 then create_fail ip dp
         else
           bnd (dirlink dp name (i_inum i)) (\<lambda>r.
           if r < 0 then create_fail ip dp
           else
             bnd (if_do (type = T_DIR) (block [
               upd_inode dp (\<lambda>d. d\<lparr>i_nlink := i_nlink d + 1\<rparr>),
               iupdate dp])) (\<lambda>_.
             bnd (iunlockput dp) (\<lambda>_.
             ret (Some ip)))))))))))"

definition create :: "u8 list \<Rightarrow> u16 \<Rightarrow> u16 \<Rightarrow> u16 \<Rightarrow> (nat option, 'a fs_st_scheme) m" where
  "create path type major minor =
     bnd (gets klocal) (\<lambda>name.
     bnd (nameiparent path name) (\<lambda>(dpo, name).
     case dpo of
       None \<Rightarrow> ret None
     | Some dp \<Rightarrow>
         bnd (ilock dp) (\<lambda>_.
         bnd (dirlookup dp name) (\<lambda>r.
         case r of
           Some (ip, off) \<Rightarrow>
             bnd (iunlockput dp) (\<lambda>_.
             bnd (ilock ip) (\<lambda>_.
             bnd (get_inode ip) (\<lambda>i.
             if type = T_FILE \<and> (i_type i = T_FILE \<or> i_type i = T_DEVICE) then ret (Some ip)
             else bnd (iunlockput ip) (\<lambda>_. ret None))))
         | None \<Rightarrow> create_new dp name type major minor))))"

text \<open>The part of \<^verbatim>\<open>sys_open\<close> that sets the file up once the inode is locked.\<close>

definition open_file :: "nat \<Rightarrow> u32 \<Rightarrow> nat \<Rightarrow> int \<Rightarrow> (u64, 'a file_st_scheme) m" where
  "open_file ip omode f fd =
     bnd (get_inode ip) (\<lambda>i.
     bnd (block [
       (if i_type i = T_DEVICE
        then upd_file f (\<lambda>fl. fl\<lparr>f_type := FD_DEVICE, f_major := i_major i\<rparr>)
        else upd_file f (\<lambda>fl. fl\<lparr>f_type := FD_INODE, f_off := 0\<rparr>)),
       upd_file f (\<lambda>fl. fl\<lparr>f_ip := ip\<rparr>),
       upd_file f (\<lambda>fl. fl\<lparr>f_readable := (omode AND O_WRONLY = 0)\<rparr>),
       upd_file f (\<lambda>fl. fl\<lparr>f_writable := (omode AND O_WRONLY \<noteq> 0 \<or> omode AND O_RDWR \<noteq> 0)\<rparr>),
       if_do (omode AND O_TRUNC \<noteq> 0 \<and> i_type i = T_FILE) (itrunc ip),
       iunlock ip,
       end_op]) (\<lambda>_.
     ret_int fd))"

definition open_inode :: "u8 list \<Rightarrow> u32 \<Rightarrow> (nat option, 'a fs_st_scheme) m" where
  "open_inode path omode =
     (if omode AND O_CREATE \<noteq> 0
      then create path T_FILE 0 0
      else
        bnd (namei path) (\<lambda>ipo.
        case ipo of
          None \<Rightarrow> ret None
        | Some ip \<Rightarrow>
            bnd (ilock ip) (\<lambda>_.
            bnd (get_inode ip) (\<lambda>i.
            if i_type i = T_DIR \<and> omode \<noteq> O_RDONLY
            then bnd (iunlockput ip) (\<lambda>_. ret None)
            else ret (Some ip)))))"

definition sys_open :: "(u64, 'a file_st_scheme) m" where
  "sys_open =
     bnd (argint 1) (\<lambda>omode.
     bnd (argstr 0 MAXPATH) (\<lambda>path.
     if fst path < 0 then ret_err
     else
     bnd begin_op (\<lambda>_.
     bnd (open_inode (str_of (snd path)) omode) (\<lambda>ipo.
     case ipo of
       None \<Rightarrow> end_err
     | Some ip \<Rightarrow>
         bnd (get_inode ip) (\<lambda>i.
         if i_type i = T_DEVICE \<and> (sint (i_major i) < 0 \<or> sint (i_major i) \<ge> int NDEV)
         then put_end_err ip
         else
           bnd filealloc (\<lambda>fo.
           case fo of
             None \<Rightarrow> put_end_err ip
           | Some f \<Rightarrow>
               bnd (fdalloc f) (\<lambda>fd.
               if fd < 0
               then bnd (fileclose f) (\<lambda>_. put_end_err ip)
               else open_file ip omode f fd)))))))"

text \<open>\<^verbatim>\<open>sys_mkdir\<close> and \<^verbatim>\<open>sys_mknod\<close> after their arguments have been read.\<close>

definition create_and_put :: "int \<times> u8 list \<Rightarrow> u16 \<Rightarrow> u16 \<Rightarrow> u16 \<Rightarrow> (u64, 'a fs_st_scheme) m" where
  "create_and_put path type major minor =
     (if fst path < 0 then end_err
      else
        bnd (create (str_of (snd path)) type major minor) (\<lambda>ipo.
        case ipo of
          None \<Rightarrow> end_err
        | Some ip \<Rightarrow>
            bnd (iunlockput ip) (\<lambda>_.
            bnd end_op (\<lambda>_.
            ret 0))))"

definition sys_mkdir :: "(u64, 'a fs_st_scheme) m" where
  "sys_mkdir =
     bnd begin_op (\<lambda>_.
     bnd (argstr 0 MAXPATH) (\<lambda>path.
     create_and_put path T_DIR 0 0))"

definition sys_mknod :: "(u64, 'a fs_st_scheme) m" where
  "sys_mknod =
     bnd begin_op (\<lambda>_.
     bnd (argint 1) (\<lambda>major.
     bnd (argint 2) (\<lambda>minor.
     bnd (argstr 0 MAXPATH) (\<lambda>path.
     create_and_put path T_DEVICE (ucast major) (ucast minor)))))"

definition sys_chdir :: "(u64, 'a fs_st_scheme) m" where
  "sys_chdir = with_myproc (\<lambda>p.
     bnd begin_op (\<lambda>_.
     bnd (argstr 0 MAXPATH) (\<lambda>path.
     if fst path < 0 then end_err
     else
       bnd (namei (str_of (snd path))) (\<lambda>ipo.
       case ipo of
         None \<Rightarrow> end_err
       | Some ip \<Rightarrow>
           bnd (ilock ip) (\<lambda>_.
           bnd (get_inode ip) (\<lambda>i.
           if i_type i \<noteq> T_DIR then put_end_err ip
           else
             bnd (iunlock ip) (\<lambda>_.
             bnd (gets (\<lambda>s. p_cwd (procs s p))) (\<lambda>cwd.
             bnd (deref_opt cwd iput) (\<lambda>_.
             bnd end_op (\<lambda>_.
             bnd (upd_proc p (\<lambda>pr. pr\<lparr>p_cwd := Some ip\<rparr>)) (\<lambda>_.
             ret 0)))))))))))"

text \<open>
  The loop of \<^verbatim>\<open>sys_exec\<close> with \<open>k\<close> slots of \<^verbatim>\<open>argv\<close> left: whether it ended without \<^verbatim>\<open>goto bad\<close>, and
  the pages allocated so far.
\<close>

primrec fetch_args :: "nat \<Rightarrow> u64 \<Rightarrow> u64 list \<Rightarrow> (bool \<times> u64 list, 'a proc_st_scheme) m" where
  "fetch_args 0 uargv argv = ret (False, argv)"
| "fetch_args (Suc k) uargv argv =
     bnd (fetchaddr (uargv + 8 * of_nat (length argv))) (\<lambda>(r, uarg).
     if r < 0 then ret (False, argv)
     else if uarg = 0 then ret (True, argv)
     else
       bnd kalloc (\<lambda>pa.
       if pa = 0 then ret (False, argv)
       else
         bnd (fetchstr uarg (unat PGSIZE)) (\<lambda>(r, str).
         bnd (set_ram (\<lambda>m. wr m pa str)) (\<lambda>_.
         if r < 0 then ret (False, argv @ [pa])
         else fetch_args k uargv (argv @ [pa])))))"

definition sys_exec :: "(u64, 'a fs_st_scheme) m" where
  "sys_exec =
     bnd (argaddr 1) (\<lambda>uargv.
     bnd (argstr 0 MAXPATH) (\<lambda>path.
     if fst path < 0 then ret_err
     else
       bnd (fetch_args MAXARG uargv []) (\<lambda>(ok, argv).
       if ok
       then
         bnd (exec (str_of (snd path)) argv) (\<lambda>r.
         bnd (for_each argv kfree) (\<lambda>_.
         ret_int r))
       else bnd (for_each argv kfree) (\<lambda>_. ret_err))))"

text \<open>The error exit of \<^verbatim>\<open>sys_pipe\<close>: give the descriptors back and close both files.\<close>

definition pipe_undo :: "nat \<Rightarrow> int list \<Rightarrow> nat \<Rightarrow> nat \<Rightarrow> (u64, 'a file_st_scheme) m" where
  "pipe_undo p fds rfl wfl =
     bnd (for_each fds (\<lambda>fd. upd_proc p (\<lambda>pr. pr\<lparr>p_ofile := (p_ofile pr)(nat fd := None)\<rparr>))) (\<lambda>_.
     bnd (fileclose rfl) (\<lambda>_.
     bnd (fileclose wfl) (\<lambda>_.
     ret_err)))"

definition sys_pipe :: "(u64, 'a file_st_scheme) m" where
  "sys_pipe = with_myproc (\<lambda>p.
     bnd (argaddr 0) (\<lambda>fdarray.
     bnd pipealloc (\<lambda>(r, rfo, wfo).
     if r < 0 then ret_err
     else deref_opt rfo (\<lambda>rfl. deref_opt wfo (\<lambda>wfl.
       bnd (fdalloc rfl) (\<lambda>fd0.
       if fd0 < 0 then pipe_undo p [] rfl wfl
       else
         bnd (fdalloc wfl) (\<lambda>fd1.
         if fd1 < 0 then pipe_undo p [fd0] rfl wfl
         else
           bnd (gets (\<lambda>s. p_pagetable (procs s p))) (\<lambda>pagetable.
           bnd (copyout pagetable fdarray (le_bytes 4 (of_int fd0 :: u32))) (\<lambda>r.
           if r < 0 then pipe_undo p [fd0, fd1] rfl wfl
           else
             bnd (copyout pagetable (fdarray + 4) (le_bytes 4 (of_int fd1 :: u32))) (\<lambda>r.
             if r < 0 then pipe_undo p [fd0, fd1] rfl wfl
             else ret 0))))))))))"

section \<open>Dispatch\<close>

text \<open>\<^verbatim>\<open>syscalls[num]\<close>; \<open>None\<close> is a null or missing entry.\<close>

definition syscalls :: "int \<Rightarrow> (u64, 'a file_st_scheme) m option" where
  "syscalls num =
     (if num = 1 then Some sys_fork
      else if num = 2 then Some sys_exit
      else if num = 3 then Some sys_wait
      else if num = 4 then Some sys_pipe
      else if num = 5 then Some sys_read
      else if num = 6 then Some sys_kill
      else if num = 7 then Some sys_exec
      else if num = 8 then Some sys_fstat
      else if num = 9 then Some sys_chdir
      else if num = 10 then Some sys_dup
      else if num = 11 then Some sys_getpid
      else if num = 12 then Some sys_sbrk
      else if num = 13 then Some sys_sleep
      else if num = 14 then Some sys_uptime
      else if num = 15 then Some sys_open
      else if num = 16 then Some sys_write
      else if num = 17 then Some sys_mknod
      else if num = 18 then Some sys_unlink
      else if num = 19 then Some sys_link
      else if num = 20 then Some sys_mkdir
      else if num = 21 then Some sys_close
      else None)"

definition syscall :: "(unit, 'a file_st_scheme) m" where
  "syscall = with_myproc (\<lambda>p.
     bnd (tf_get p TF_a7) (\<lambda>a7.
     let num = sint (ucast a7 :: u32) in
     case (if 0 < num \<and> num < 22 then syscalls num else None) of
       Some f \<Rightarrow> bnd f (\<lambda>r. tf_set p TF_a0 r)
     | None \<Rightarrow>
         bnd (gets (\<lambda>s. procs s p)) (\<lambda>pr. block [
           printf (''%d %s: unknown sys call %d'' @ nl)
             [Slot (ucast (p_pid pr)), Str (Some (cstr (p_name pr) 16)), Slot a7],
           tf_set p TF_a0 (-1)])))"

end
