(* ===== verification/Virtio.thy ===== *)
theory Virtio
  imports Process
begin

text \<open>
  \<^verbatim>\<open>kernel/virtio_disk.c\<close>: the driver of the virtio block device. The addresses the driver gives the
  device point into \<^verbatim>\<open>disk.ops\<close>, a buffer's data and \<^verbatim>\<open>disk.info\<close>; they are kept symbolic
  (\<open>daddr\<close>). The device registers are read through \<open>vd_mmio\<close> and the writes to them are recorded
  in \<open>vd_mmio_w\<close>. A transfer is the part of \<^verbatim>\<open>virtio_disk_rw\<close> before the wait
  (\<open>virtio_disk_start\<close>), what the device does, \<open>virtio_disk_intr\<close>, and the part after
  the wait (\<open>virtio_disk_finish\<close>).
\<close>

definition NUM :: nat where "NUM = 8"

definition VRING_DESC_F_NEXT :: u16 where "VRING_DESC_F_NEXT = 1"
definition VRING_DESC_F_WRITE :: u16 where "VRING_DESC_F_WRITE = 2"
definition VIRTIO_BLK_T_IN :: u32 where "VIRTIO_BLK_T_IN = 0"
definition VIRTIO_BLK_T_OUT :: u32 where "VIRTIO_BLK_T_OUT = 1"

datatype daddr = A_zero | A_ops nat | A_data nat | A_status nat

record virtq_desc =
  d_addr :: daddr
  d_len :: u32
  d_flags :: u16
  d_next :: u16

record virtio_blk_req =
  rq_type :: u32
  rq_reserved :: u32
  rq_sector :: u64

record virtio_st = file_st +
  vd_free :: "nat \<Rightarrow> bool"
  vd_desc :: "nat \<Rightarrow> virtq_desc"
  vd_ops :: "nat \<Rightarrow> virtio_blk_req"
  vd_info_b :: "nat \<Rightarrow> nat option"
  vd_info_status :: "nat \<Rightarrow> u8"
  vd_avail_ring :: "nat \<Rightarrow> u16"
  vd_avail_idx :: u16
  vd_used_ring :: "nat \<Rightarrow> u32"
  vd_dev_used_idx :: u16
  vd_used_idx :: u16
  vd_mmio :: "u32 \<Rightarrow> u32"
  vd_mmio_w :: "(u32 \<times> u32) list"

definition upd_desc :: "nat \<Rightarrow> (virtq_desc \<Rightarrow> virtq_desc) \<Rightarrow> (unit, 'a virtio_st_scheme) m" where
  "upd_desc i f = modify (\<lambda>s. s\<lparr>vd_desc := (vd_desc s)(i := f (vd_desc s i))\<rparr>)"

definition set_free :: "nat \<Rightarrow> bool \<Rightarrow> (unit, 'a virtio_st_scheme) m" where
  "set_free i v = modify (\<lambda>s. s\<lparr>vd_free := (vd_free s)(i := v)\<rparr>)"

definition mmio_read :: "u32 \<Rightarrow> (u32, 'a virtio_st_scheme) m" where
  "mmio_read r = gets (\<lambda>s. vd_mmio s r)"

definition mmio_write :: "u32 \<Rightarrow> u32 \<Rightarrow> (unit, 'a virtio_st_scheme) m" where
  "mmio_write r v = modify (\<lambda>s. s\<lparr>vd_mmio_w := vd_mmio_w s @ [(r, v)]\<rparr>)"

section \<open>Initialisation\<close>

text \<open>The feature bits the driver declines.\<close>

definition declined :: "u64 \<Rightarrow> u64" where
  "declined f = fold (\<lambda>b f. f AND NOT (push_bit b 1)) [5, 7, 11, 12, 27, 29, 28] f"

definition queue_addr :: "u32 \<Rightarrow> u64 \<Rightarrow> (unit, 'a virtio_st_scheme) m" where
  "queue_addr r a = block [mmio_write r (ucast a), mmio_write (r + 4) (ucast (drop_bit 32 a))]"

definition virtio_disk_init :: "(unit, 'a virtio_st_scheme) m" where
  "virtio_disk_init =
     bnd (init_lock L_vdisk) (\<lambda>_.
     bnd (gets vd_mmio) (\<lambda>R.
     bnd (panic_if (R 0x000 \<noteq> 0x74726976 \<or> R 0x004 \<noteq> 2 \<or> R 0x008 \<noteq> 2 \<or> R 0x00c \<noteq> 0x554d4551)
       ''could not find virtio disk'') (\<lambda>_.
     bnd (block [mmio_write 0x070 0, mmio_write 0x070 1, mmio_write 0x070 3]) (\<lambda>_.
     bnd (mmio_read 0x010) (\<lambda>features.
     bnd (mmio_write 0x020 (ucast (declined (ucast features)))) (\<lambda>_.
     bnd (mmio_write 0x070 0xB) (\<lambda>_.
     bnd (mmio_read 0x070) (\<lambda>status.
     bnd (panic_if (status AND 8 = 0) ''virtio disk FEATURES_OK unset'') (\<lambda>_.
     bnd (mmio_write 0x030 0) (\<lambda>_.
     bnd (mmio_read 0x044) (\<lambda>ready.
     bnd (panic_if (ready \<noteq> 0) ''virtio disk should not be ready'') (\<lambda>_.
     bnd (mmio_read 0x034) (\<lambda>mx.
     bnd (panic_if (mx = 0) ''virtio disk has no queue 0'') (\<lambda>_.
     bnd (panic_if (mx < of_nat NUM) ''virtio disk max queue too short'') (\<lambda>_.
     bnd kalloc (\<lambda>desc.
     bnd kalloc (\<lambda>avail.
     bnd kalloc (\<lambda>used.
     bnd (panic_if (desc = 0 \<or> avail = 0 \<or> used = 0) ''virtio disk kalloc'') (\<lambda>_. block [
       set_ram (\<lambda>m. memset m desc 0 (unat PGSIZE)),
       modify (\<lambda>s. s\<lparr>vd_desc := \<lambda>_. \<lparr>d_addr = A_zero, d_len = 0, d_flags = 0, d_next = 0\<rparr>\<rparr>),
       set_ram (\<lambda>m. memset m avail 0 (unat PGSIZE)),
       modify (\<lambda>s. s\<lparr>vd_avail_ring := \<lambda>_. 0, vd_avail_idx := 0\<rparr>),
       set_ram (\<lambda>m. memset m used 0 (unat PGSIZE)),
       modify (\<lambda>s. s\<lparr>vd_used_ring := \<lambda>_. 0, vd_dev_used_idx := 0\<rparr>),
       mmio_write 0x038 (of_nat NUM),
       queue_addr 0x080 desc,
       queue_addr 0x090 avail,
       queue_addr 0x0a0 used,
       mmio_write 0x044 1,
       for_each [0..<NUM] (\<lambda>i. set_free i True),
       mmio_write 0x070 (status OR 4)])))))))))))))))))))"

section \<open>Descriptors\<close>

definition alloc_desc :: "(nat option, 'a virtio_st_scheme) m" where
  "alloc_desc = for_first [0..<NUM] (\<lambda>i.
     bnd (gets (\<lambda>s. vd_free s i)) (\<lambda>f.
     if f then bnd (set_free i False) (\<lambda>_. ret (Some i)) else ret None))"

definition free_desc :: "nat \<Rightarrow> (unit, 'a virtio_st_scheme) m" where
  "free_desc i =
     bnd (panic_if (i \<ge> NUM) ''free_desc 1'') (\<lambda>_.
     bnd (gets (\<lambda>s. vd_free s i)) (\<lambda>f.
     bnd (panic_if f ''free_desc 2'') (\<lambda>_. block [
       upd_desc i (\<lambda>d. d\<lparr>d_addr := A_zero\<rparr>),
       upd_desc i (\<lambda>d. d\<lparr>d_len := 0\<rparr>),
       upd_desc i (\<lambda>d. d\<lparr>d_flags := 0\<rparr>),
       upd_desc i (\<lambda>d. d\<lparr>d_next := 0\<rparr>),
       set_free i True,
       wakeup (Some Ch_free)])))"

definition taken :: "'a virtio_st_scheme \<Rightarrow> nat set" where
  "taken s = {i. i < NUM \<and> \<not> vd_free s i}"

text \<open>Allocating three descriptors: their numbers, or \<open>None\<close> after giving back what was taken.\<close>

definition alloc3_desc :: "((nat \<times> nat \<times> nat) option, 'a virtio_st_scheme) m" where
  "alloc3_desc =
     bnd alloc_desc (\<lambda>i0. case i0 of
       None \<Rightarrow> ret None
     | Some i0 \<Rightarrow>
         bnd alloc_desc (\<lambda>i1. case i1 of
           None \<Rightarrow> bnd (free_desc i0) (\<lambda>_. ret None)
         | Some i1 \<Rightarrow>
             bnd alloc_desc (\<lambda>i2. case i2 of
               None \<Rightarrow> bnd (free_desc i0) (\<lambda>_. bnd (free_desc i1) (\<lambda>_. ret None))
             | Some i2 \<Rightarrow> ret (Some (i0, i1, i2)))))"

section \<open>A transfer\<close>

text \<open>Formatting the three descriptors of a request and handing the chain to the device.\<close>

definition format_request :: "nat \<Rightarrow> bool \<Rightarrow> u64 \<Rightarrow> nat \<times> nat \<times> nat \<Rightarrow> (unit, 'a virtio_st_scheme) m" where
  "format_request b write sector idx =
     (case idx of (i0, i1, i2) \<Rightarrow> block [
       modify (\<lambda>s. s\<lparr>vd_ops := (vd_ops s)(i0 := \<lparr>
         rq_type = (if write then VIRTIO_BLK_T_OUT else VIRTIO_BLK_T_IN),
         rq_reserved = 0, rq_sector = sector\<rparr>)\<rparr>),
       upd_desc i0 (\<lambda>_. \<lparr>d_addr = A_ops i0, d_len = 16, d_flags = VRING_DESC_F_NEXT, d_next = of_nat i1\<rparr>),
       upd_desc i1 (\<lambda>_. \<lparr>d_addr = A_data b, d_len = of_nat BSIZE,
         d_flags = (if write then 0 else VRING_DESC_F_WRITE) OR VRING_DESC_F_NEXT, d_next = of_nat i2\<rparr>),
       modify (\<lambda>s. s\<lparr>vd_info_status := (vd_info_status s)(i0 := 0xFF)\<rparr>),
       upd_desc i2 (\<lambda>_. \<lparr>d_addr = A_status i0, d_len = 1, d_flags = VRING_DESC_F_WRITE, d_next = 0\<rparr>),
       upd_buf b (\<lambda>bf. bf\<lparr>b_disk := True\<rparr>),
       modify (\<lambda>s. s\<lparr>vd_info_b := (vd_info_b s)(i0 := Some b)\<rparr>),
       modify (\<lambda>s. s\<lparr>vd_avail_ring := (vd_avail_ring s)(unat (vd_avail_idx s) mod NUM := of_nat i0)\<rparr>),
       modify (\<lambda>s. s\<lparr>vd_avail_idx := vd_avail_idx s + 1\<rparr>),
       mmio_write 0x050 0])"

definition virtio_disk_start :: "nat \<Rightarrow> bool \<Rightarrow> (nat, 'a virtio_st_scheme) m" where
  "virtio_disk_start b write =
     bnd (get_buf b) (\<lambda>bf.
     let sector = ucast (b_blockno bf * of_nat (BSIZE div 512)) in
     bnd (acquire L_vdisk) (\<lambda>_.
     bnd alloc3_desc (\<lambda>r.
     case r of
       None \<Rightarrow> sleep (Some Ch_free) L_vdisk
     | Some idx \<Rightarrow> bnd (format_request b write sector idx) (\<lambda>_. ret (fst idx)))))"

text \<open>\<^verbatim>\<open>free_chain\<close> stops or panics: \<^verbatim>\<open>free_desc\<close> refuses a descriptor that is already free.\<close>

lemma free_desc_taken:
  assumes "free_desc i s = Ok u t"
  shows "i \<in> taken s" and "taken t = taken s - {i}"
  using assms by (auto simp: free_desc_def upd_desc_def set_free_def taken_def m_simps split: if_splits)

function free_chain :: "nat \<Rightarrow> (unit, 'a virtio_st_scheme) m" where
  "free_chain i s =
     bnd (gets (\<lambda>s. vd_desc s i)) (\<lambda>d.
     bnd (free_desc i) (\<lambda>_.
     if d_flags d AND VRING_DESC_F_NEXT \<noteq> 0 then free_chain (unat (d_next d)) else ret ())) s"
  by auto
termination
proof (relation "measure (\<lambda>(i, s). card (taken s))", goal_cases)
  case (2 i s d s1 u s2)
  have eq: "s1 = s" using 2(1) by (simp add: gets_def)
  have "card (taken s1 - {i}) < card (taken s1)"
    by (rule card_Diff1_less [OF _ free_desc_taken(1) [OF 2(2)]]) (simp add: taken_def)
  then show ?case
    by (simp only: in_measure prod.case free_desc_taken(2) [OF 2(2)] eq)
qed simp

declare free_chain.simps [simp del]

text \<open>After the wait \<^verbatim>\<open>while(b->disk == 1) sleep(b, &disk.vdisk_lock)\<close>.\<close>

definition virtio_disk_finish :: "nat \<Rightarrow> nat \<Rightarrow> (unit, 'a virtio_st_scheme) m" where
  "virtio_disk_finish b i0 =
     bnd (get_buf b) (\<lambda>bf.
     if b_disk bf then sleep (Some (Ch_buf b)) L_vdisk
     else block [
       modify (\<lambda>s. s\<lparr>vd_info_b := (vd_info_b s)(i0 := None)\<rparr>),
       free_chain i0,
       release L_vdisk])"

text \<open>
  The loop of \<^verbatim>\<open>virtio_disk_intr\<close>. The used index is 16 bits wide, so the loop handles fewer than
  \<open>2\<^sup>1\<^sup>6\<close> entries; a used entry outside \<^verbatim>\<open>info[NUM]\<close> or without a buffer is an access outside an
  object.
\<close>

function used_loop :: "u16 \<Rightarrow> u16 \<Rightarrow> (unit, 'a virtio_st_scheme) m" where
  "used_loop used_idx dev_idx s =
     (if used_idx \<noteq> dev_idx
      then
        bnd (gets (\<lambda>s. unat (vd_used_ring s (unat used_idx mod NUM)))) (\<lambda>id.
        bnd (if id < NUM then ret () else undef) (\<lambda>_.
        bnd (gets (\<lambda>s. (vd_info_status s id, vd_info_b s id))) (\<lambda>i.
        bnd (panic_if (fst i \<noteq> 0) ''virtio_disk_intr status'') (\<lambda>_.
        case snd i of None \<Rightarrow> panic ''kerneltrap'' | Some b \<Rightarrow>
        bnd (upd_buf b (\<lambda>bf. bf\<lparr>b_disk := False\<rparr>)) (\<lambda>_.
        bnd (wakeup (Some (Ch_buf b))) (\<lambda>_.
        bnd (modify (\<lambda>s. s\<lparr>vd_used_idx := used_idx + 1\<rparr>)) (\<lambda>_.
        used_loop (used_idx + 1) dev_idx)))))))
      else ret ()) s"
  by auto
termination
proof (relation "measure (\<lambda>(u, d, s). unat (d - u))", goal_cases)
  case (2 u d s)
  from 2(1) have "d - u \<noteq> 0" by simp
  then have "unat (d - u - 1) < unat (d - u)" by (simp add: unat_minus_one unat_gt_0)
  then show ?case by (simp only: in_measure prod.case diff_diff_eq [symmetric])
qed simp

declare used_loop.simps [simp del]

definition virtio_disk_intr :: "(unit, 'a virtio_st_scheme) m" where
  "virtio_disk_intr = block [
     acquire L_vdisk,
     bnd (mmio_read 0x060) (\<lambda>v. mmio_write 0x064 (v AND 3)),
     bnd (gets (\<lambda>s. (vd_used_idx s, vd_dev_used_idx s))) (\<lambda>i. used_loop (fst i) (snd i)),
     release L_vdisk]"

end
