(* ===== verification/Trap.thy ===== *)
theory Trap
  imports Syscall Virtio
begin

text \<open>
  \<^verbatim>\<open>kernel/trap.c\<close>, \<^verbatim>\<open>kernel/plic.c\<close>, \<^verbatim>\<open>kernel/main.c\<close>, \<^verbatim>\<open>kernel/start.c\<close> and \<^verbatim>\<open>forkret\<close> of
  \<^verbatim>\<open>kernel/proc.c\<close>. The control and status registers of the hart are fields of the state. The
  interrupt controller is a parameter: \<open>plic_pending\<close> is what successive reads of the claim
  register return and \<open>plic_done\<close> the completions written to it. The addresses of assembly
  routines are linker symbols.
\<close>

record trap_st = virtio_st +
  sstatus_r :: u64
  scause :: u64
  sepc :: u64
  stval :: u64
  stvec :: u64
  stimecmp :: u64
  time_r :: u64
  tp :: u64
  plic_regs :: "u64 \<Rightarrow> u32"
  plic_pending :: "u32 list"
  plic_done :: "u32 list"
  first :: bool
  kernelvec_sym :: u64
  uservec_sym :: u64
  userret_sym :: u64
  usertrap_sym :: u64

section \<open>plic.c\<close>

definition cpuid :: "(u64, 'a trap_st_scheme) m" where
  "cpuid = gets tp"

definition PLIC_SENABLE :: "u64 \<Rightarrow> u64" where "PLIC_SENABLE hart = PLIC + 0x2080 + hart * 0x100"
definition PLIC_SPRIORITY :: "u64 \<Rightarrow> u64" where "PLIC_SPRIORITY hart = PLIC + 0x201000 + hart * 0x2000"

definition plic_write :: "u64 \<Rightarrow> u32 \<Rightarrow> (unit, 'a trap_st_scheme) m" where
  "plic_write a v = modify (\<lambda>s. s\<lparr>plic_regs := (plic_regs s)(a := v)\<rparr>)"

definition plicinit :: "(unit, 'a trap_st_scheme) m" where
  "plicinit = block [
     plic_write (PLIC + ucast UART0_IRQ * 4) 1,
     plic_write (PLIC + ucast VIRTIO0_IRQ * 4) 1]"

definition plicinithart :: "(unit, 'a trap_st_scheme) m" where
  "plicinithart =
     bnd cpuid (\<lambda>hart. block [
       plic_write (PLIC_SENABLE hart) (push_bit (unat UART0_IRQ) 1 OR push_bit (unat VIRTIO0_IRQ) 1),
       plic_write (PLIC_SPRIORITY hart) 0])"

text \<open>A read of the claim register takes the next pending interrupt, 0 when there is none.\<close>

definition plic_claim :: "(u32, 'a trap_st_scheme) m" where
  "plic_claim =
     bnd (gets plic_pending) (\<lambda>irqs.
     case irqs of
       [] \<Rightarrow> ret 0
     | irq # rest \<Rightarrow> bnd (modify (\<lambda>s. s\<lparr>plic_pending := rest\<rparr>)) (\<lambda>_. ret irq))"

definition plic_complete :: "u32 \<Rightarrow> (unit, 'a trap_st_scheme) m" where
  "plic_complete irq = modify (\<lambda>s. s\<lparr>plic_done := plic_done s @ [irq]\<rparr>)"

section \<open>trap.c\<close>

definition trapinit :: "(unit, 'a trap_st_scheme) m" where
  "trapinit = init_lock L_ticks"

definition trapinithart :: "(unit, 'a trap_st_scheme) m" where
  "trapinithart = modify (\<lambda>s. s\<lparr>stvec := kernelvec_sym s\<rparr>)"

definition intr_on_csr :: "(unit, 'a trap_st_scheme) m" where
  "intr_on_csr = modify (\<lambda>s. s\<lparr>sstatus_r := sstatus_r s OR SSTATUS_SIE\<rparr>)"

definition intr_off_csr :: "(unit, 'a trap_st_scheme) m" where
  "intr_off_csr = modify (\<lambda>s. s\<lparr>sstatus_r := sstatus_r s AND NOT SSTATUS_SIE\<rparr>)"

text \<open>The result is what \<^verbatim>\<open>usertrapret\<close> jumps to: the address of \<^verbatim>\<open>userret\<close> and its argument.\<close>

definition usertrapret :: "(u64 \<times> u64, 'a trap_st_scheme) m" where
  "usertrapret = with_myproc (\<lambda>p.
     bnd intr_off_csr (\<lambda>_.
     bnd (modify (\<lambda>s. s\<lparr>stvec := TRAMPOLINE + (uservec_sym s - trampoline_sym s)\<rparr>)) (\<lambda>_.
     bnd (gets satp) (\<lambda>ksatp.
     bnd (tf_set p TF_kernel_satp ksatp) (\<lambda>_.
     bnd (gets (\<lambda>s. p_kstack (procs s p))) (\<lambda>kstack.
     bnd (tf_set p TF_kernel_sp (kstack + PGSIZE)) (\<lambda>_.
     bnd (gets usertrap_sym) (\<lambda>usertrap.
     bnd (tf_set p TF_kernel_trap usertrap) (\<lambda>_.
     bnd (gets tp) (\<lambda>hart.
     bnd (tf_set p TF_kernel_hartid hart) (\<lambda>_.
     bnd (modify (\<lambda>s. s\<lparr>sstatus_r := (sstatus_r s AND NOT SSTATUS_SPP) OR SSTATUS_SPIE\<rparr>)) (\<lambda>_.
     bnd (tf_get p TF_epc) (\<lambda>epc.
     bnd (modify (\<lambda>s. s\<lparr>sepc := epc\<rparr>)) (\<lambda>_.
     bnd (gets (\<lambda>s. MAKE_SATP (p_pagetable (procs s p)))) (\<lambda>usatp.
     bnd (gets (\<lambda>s. TRAMPOLINE + (userret_sym s - trampoline_sym s))) (\<lambda>trampoline_userret.
     ret (trampoline_userret, usatp)))))))))))))))))"

definition clockintr :: "(unit, 'a trap_st_scheme) m" where
  "clockintr =
     bnd cpuid (\<lambda>hart. block [
       if_do (hart = 0) (block [
         acquire L_ticks,
         modify (\<lambda>s. s\<lparr>ticks := ticks s + 1\<rparr>),
         wakeup (Some Ch_ticks),
         release L_ticks]),
       modify (\<lambda>s. s\<lparr>stimecmp := time_r s + 1000000\<rparr>)])"

definition devintr :: "(nat, 'a trap_st_scheme) m" where
  "devintr =
     bnd (gets scause) (\<lambda>cause.
     if cause = 0x8000000000000009
     then
       bnd plic_claim (\<lambda>irq.
       bnd (if irq = UART0_IRQ then uartintr
            else if irq = VIRTIO0_IRQ then virtio_disk_intr
            else if_do (irq \<noteq> 0) (printf (''unexpected interrupt irq=%d'' @ nl) [Slot (ucast irq)])) (\<lambda>_.
       bnd (if_do (irq \<noteq> 0) (plic_complete irq)) (\<lambda>_.
       ret 1)))
     else if cause = 0x8000000000000005
     then bnd clockintr (\<lambda>_. ret 2)
     else ret 0)"

text \<open>The end of \<^verbatim>\<open>usertrap\<close>; a process that yields here resumes with \<open>usertrap_resume\<close>.\<close>

definition usertrap_end :: "nat \<Rightarrow> nat \<Rightarrow> (u64 \<times> u64, 'a trap_st_scheme) m" where
  "usertrap_end p which_dev =
     bnd (killed p) (\<lambda>k.
     bnd (if_do k (exit (-1))) (\<lambda>_.
     bnd (if_do (which_dev = 2) yield) (\<lambda>_.
     usertrapret)))"

definition usertrap_resume :: "nat \<Rightarrow> (u64 \<times> u64, 'a trap_st_scheme) m" where
  "usertrap_resume p = bnd (yield_resume p) (\<lambda>_. usertrapret)"

definition usertrap :: "(u64 \<times> u64, 'a trap_st_scheme) m" where
  "usertrap =
     bnd (gets sstatus_r) (\<lambda>st.
     bnd (panic_if (st AND SSTATUS_SPP \<noteq> 0) ''usertrap: not from user mode'') (\<lambda>_.
     bnd (modify (\<lambda>s. s\<lparr>stvec := kernelvec_sym s\<rparr>)) (\<lambda>_.
     with_myproc (\<lambda>p.
     bnd (gets sepc) (\<lambda>pc.
     bnd (tf_set p TF_epc pc) (\<lambda>_.
     bnd (gets scause) (\<lambda>cause.
     if cause = 8
     then
       bnd (killed p) (\<lambda>k.
       bnd (if_do k (exit (-1))) (\<lambda>_.
       bnd (tf_get p TF_epc) (\<lambda>epc.
       bnd (tf_set p TF_epc (epc + 4)) (\<lambda>_.
       bnd intr_on_csr (\<lambda>_.
       bnd syscall (\<lambda>_.
       usertrap_end p 0))))))
     else
       bnd devintr (\<lambda>which_dev.
       bnd (if_do (which_dev = 0) (
         bnd (gets (\<lambda>s. (scause s, p_pid (procs s p), sepc s, stval s))) (\<lambda>(cause, pid, pc, val). block [
           printf (''usertrap(): unexpected scause 0x%lx pid=%d'' @ nl) [Slot cause, Slot (ucast pid)],
           printf (''            sepc=0x%lx stval=0x%lx'' @ nl) [Slot pc, Slot val],
           setkilled p]))) (\<lambda>_.
       usertrap_end p which_dev)))))))))"

definition kerneltrap_end :: "u64 \<Rightarrow> u64 \<Rightarrow> (unit, 'a trap_st_scheme) m" where
  "kerneltrap_end pc st = modify (\<lambda>s. s\<lparr>sepc := pc, sstatus_r := st\<rparr>)"

definition kerneltrap :: "(unit, 'a trap_st_scheme) m" where
  "kerneltrap =
     bnd (gets (\<lambda>s. (sepc s, sstatus_r s, scause s))) (\<lambda>(pc, st, cause).
     bnd (panic_if (st AND SSTATUS_SPP = 0) ''kerneltrap: not from supervisor mode'') (\<lambda>_.
     bnd (panic_if (st AND SSTATUS_SIE \<noteq> 0) ''kerneltrap: interrupts enabled'') (\<lambda>_.
     bnd devintr (\<lambda>which_dev.
     bnd (if_do (which_dev = 0) (
       bnd (gets (\<lambda>s. (sepc s, stval s))) (\<lambda>(pc', val).
       bnd (printf (''scause=0x%lx sepc=0x%lx stval=0x%lx'' @ nl) [Slot cause, Slot pc', Slot val]) (\<lambda>_.
       panic ''kerneltrap'')))) (\<lambda>_.
     bnd (gets curproc) (\<lambda>me.
     bnd (if_do (which_dev = 2 \<and> me \<noteq> None) yield) (\<lambda>_.
     kerneltrap_end pc st)))))))"

definition kerneltrap_resume :: "nat \<Rightarrow> u64 \<Rightarrow> u64 \<Rightarrow> (unit, 'a trap_st_scheme) m" where
  "kerneltrap_resume p pc st = bnd (yield_resume p) (\<lambda>_. kerneltrap_end pc st)"

section \<open>forkret\<close>

definition forkret :: "(u64 \<times> u64, 'a trap_st_scheme) m" where
  "forkret = with_myproc (\<lambda>p.
     bnd (release (L_proc p)) (\<lambda>_.
     bnd (gets first) (\<lambda>f.
     bnd (if_do f (block [
       fsinit ROOTDEV,
       modify (\<lambda>s. s\<lparr>first := False\<rparr>)])) (\<lambda>_.
     usertrapret))))"

section \<open>Booting\<close>

text \<open>\<^verbatim>\<open>main\<close> on hart 0 up to \<^verbatim>\<open>scheduler()\<close>, and on the other harts once hart 0 has started.\<close>

definition main_boot :: "(unit, 'a trap_st_scheme) m" where
  "main_boot = block [
     consoleinit,
     printfinit,
     printf nl [],
     printf (''xv6 kernel is booting'' @ nl) [],
     printf nl [],
     kinit,
     kvminit,
     kvminithart,
     procinit,
     trapinit,
     trapinithart,
     plicinit,
     plicinithart,
     binit,
     iinit,
     fileinit,
     virtio_disk_init,
     userinit]"

definition main_other :: "(unit, 'a trap_st_scheme) m" where
  "main_other =
     bnd cpuid (\<lambda>hart. block [
       printf (''hart %d starting'' @ nl) [Slot hart],
       kvminithart,
       trapinithart,
       plicinithart])"

text \<open>\<^verbatim>\<open>start\<close> runs in machine mode, before there is any kernel state but the registers.\<close>

record mregs =
  mstatus :: u64
  mepc :: u64
  m_satp :: u64
  medeleg :: u64
  mideleg :: u64
  sie :: u64
  pmpaddr0 :: u64
  pmpcfg0 :: u64
  mie :: u64
  menvcfg :: u64
  mcounteren :: u64
  m_stimecmp :: u64
  m_time :: u64
  mhartid :: u64
  m_tp :: u64

definition MSTATUS_MPP_MASK :: u64 where "MSTATUS_MPP_MASK = push_bit 11 3"
definition MSTATUS_MPP_S :: u64 where "MSTATUS_MPP_S = push_bit 11 1"
definition SIE_SEIE :: u64 where "SIE_SEIE = push_bit 9 1"
definition SIE_STIE :: u64 where "SIE_STIE = push_bit 5 1"
definition SIE_SSIE :: u64 where "SIE_SSIE = push_bit 1 1"
definition MIE_STIE :: u64 where "MIE_STIE = push_bit 5 1"

definition timerinit :: "mregs \<Rightarrow> mregs" where
  "timerinit r =
     (let r = r\<lparr>mie := mie r OR MIE_STIE\<rparr>;
          r = r\<lparr>menvcfg := menvcfg r OR push_bit 63 1\<rparr>;
          r = r\<lparr>mcounteren := mcounteren r OR 2\<rparr>
      in r\<lparr>m_stimecmp := m_time r + 1000000\<rparr>)"

text \<open>\<open>start main_sym r\<close>: the registers when \<^verbatim>\<open>mret\<close> is reached.\<close>

definition start :: "u64 \<Rightarrow> mregs \<Rightarrow> mregs" where
  "start main_sym r =
     (let r = r\<lparr>mstatus := (mstatus r AND NOT MSTATUS_MPP_MASK) OR MSTATUS_MPP_S\<rparr>;
          r = r\<lparr>mepc := main_sym\<rparr>;
          r = r\<lparr>m_satp := 0\<rparr>;
          r = r\<lparr>medeleg := 0xFFFF\<rparr>;
          r = r\<lparr>mideleg := 0xFFFF\<rparr>;
          r = r\<lparr>sie := sie r OR SIE_SEIE OR SIE_STIE OR SIE_SSIE\<rparr>;
          r = r\<lparr>pmpaddr0 := 0x3FFFFFFFFFFFFF\<rparr>;
          r = r\<lparr>pmpcfg0 := 0xF\<rparr>;
          r = timerinit r
      in r\<lparr>m_tp := scast (ucast (mhartid r) :: u32)\<rparr>)"

end
