(* ===== verification/BufCache.thy ===== *)
theory BufCache
  imports Bio
begin

text \<open>
  The buffer cache of \<^verbatim>\<open>kernel/bio.c\<close> is correct: the list through the buffers is a ring, a block
  has one buffer, a reader sees the latest content, and an unused buffer agrees with the disk.
  The locale \<open>block_cache\<close> is what the log needs to know of it.
\<close>

section \<open>The buffer list\<close>

text \<open>
  \<open>dll bs a L z\<close>: following \<^verbatim>\<open>next\<close> from \<open>a\<close> gives the buffers of \<open>L\<close> and then \<open>z\<close>, and
  following \<^verbatim>\<open>prev\<close> from \<open>z\<close> gives them backwards.
\<close>

primrec dll :: "(nat \<Rightarrow> buf) \<Rightarrow> nat \<Rightarrow> nat list \<Rightarrow> nat \<Rightarrow> bool" where
  "dll bs a [] z \<longleftrightarrow> b_next (bs a) = z \<and> b_prev (bs z) = a"
| "dll bs a (b # L) z \<longleftrightarrow> b_next (bs a) = b \<and> b_prev (bs b) = a \<and> dll bs b L z"

definition ring :: "(nat \<Rightarrow> buf) \<Rightarrow> nat list \<Rightarrow> bool" where
  "ring bs L \<longleftrightarrow> distinct L \<and> set L = {..<NBUF} \<and> dll bs bhead L bhead"

lemma dll_append: "dll bs a (L @ b # M) z \<longleftrightarrow> dll bs a L b \<and> dll bs b M z"
  by (induction L arbitrary: a) auto

lemma dll_cong:
  assumes "dll bs a L z"
    and "\<And>c. c \<in> set (a # L) \<Longrightarrow> b_next (cs c) = b_next (bs c)"
    and "\<And>c. c \<in> set (L @ [z]) \<Longrightarrow> b_prev (cs c) = b_prev (bs c)"
  shows "dll cs a L z"
  using assms by (induction L arbitrary: a) auto

lemma dll_first: "dll bs a L z \<Longrightarrow> b_next (bs a) = hd (L @ [z])"
  by (cases L) auto

lemma dll_last: "dll bs a L z \<Longrightarrow> b_prev (bs z) = last (a # L)"
  by (induction L arbitrary: a) auto

lemma scan_next_dll:
  assumes "dll bs a L bhead" and "bhead \<notin> set L"
  shows "scan_next bs dev blockno (b_next (bs a)) =
    Some (find (\<lambda>b. b_dev (bs b) = dev \<and> b_blockno (bs b) = blockno) L)"
  using assms
proof (induction L arbitrary: a)
  case Nil
  then show ?case by (simp add: scan_next.simps)
next
  case (Cons b L)
  then show ?case by (subst scan_next.simps) auto
qed

lemma scan_prev_dll:
  assumes "dll bs bhead L z" and "bhead \<notin> set L"
  shows "scan_prev bs (b_prev (bs z)) = Some (find (\<lambda>b. b_refcnt (bs b) = 0) (rev L))"
  using assms
proof (induction L arbitrary: z rule: rev_induct)
  case Nil
  then show ?case by (simp add: scan_prev.simps)
next
  case (snoc b L)
  then show ?case by (subst scan_prev.simps) (auto simp: dll_append)
qed

lemma ring_scan_next:
  assumes "ring bs L"
  shows "scan_next bs dev blockno (b_next (bs bhead)) =
    Some (find (\<lambda>b. b_dev (bs b) = dev \<and> b_blockno (bs b) = blockno) L)"
  using assms by (intro scan_next_dll) (auto simp: ring_def)

lemma ring_scan_prev:
  assumes "ring bs L"
  shows "scan_prev bs (b_prev (bs bhead)) = Some (find (\<lambda>b. b_refcnt (bs b) = 0) (rev L))"
  using assms by (intro scan_prev_dll) (auto simp: ring_def)

lemma ring_links:
  assumes "ring bs L" and "\<And>c. b_next (cs c) = b_next (bs c)" and "\<And>c. b_prev (cs c) = b_prev (bs c)"
  shows "ring cs L"
  using assms unfolding ring_def by (auto intro: dll_cong)

text \<open>Taking \<open>b\<close> out of the list and putting it at the front, as \<^verbatim>\<open>brelse\<close> does.\<close>

definition next_at :: "nat \<Rightarrow> nat \<Rightarrow> (nat \<Rightarrow> buf) \<Rightarrow> (nat \<Rightarrow> buf)" where
  "next_at b n bs = bs(b := (bs b)\<lparr>b_next := n\<rparr>)"

definition prev_at :: "nat \<Rightarrow> nat \<Rightarrow> (nat \<Rightarrow> buf) \<Rightarrow> (nat \<Rightarrow> buf)" where
  "prev_at b n bs = bs(b := (bs b)\<lparr>b_prev := n\<rparr>)"

definition to_front :: "nat \<Rightarrow> (nat \<Rightarrow> buf) \<Rightarrow> (nat \<Rightarrow> buf)" where
  "to_front b bs =
     (let bs = prev_at (b_next (bs b)) (b_prev (bs b)) bs;
          bs = next_at (b_prev (bs b)) (b_next (bs b)) bs;
          bs = next_at b (b_next (bs bhead)) bs;
          bs = prev_at b bhead bs;
          bs = prev_at (b_next (bs bhead)) b bs
      in next_at bhead b bs)"

lemma unlink_dll:
  assumes "dll bs a (L @ b # M) z" and "distinct (L @ b # M)" and "a \<notin> set (L @ b # M)"
    and "z \<notin> set (L @ b # M)"
  shows "dll (next_at (b_prev (bs b)) (b_next (bs b)) (prev_at (b_next (bs b)) (b_prev (bs b)) bs))
    a (L @ M) z"
proof -
  have L: "dll bs a L b" and M: "dll bs b M z" using assms(1) by (simp_all add: dll_append)
  define x where "x = b_prev (bs b)"
  define y where "y = b_next (bs b)"
  have x: "x = last (a # L)" using dll_last [OF L] by (simp add: x_def)
  have y: "y = hd (M @ [z])" using dll_first [OF M] by (simp add: y_def)
  let ?cs = "next_at x y (prev_at y x bs)"
  have nx: "b_next (?cs c) = (if c = x then y else b_next (bs c))" for c
    by (simp add: next_at_def prev_at_def)
  have pv: "b_prev (?cs c) = (if c = y then x else b_prev (bs c))" for c
    by (simp add: next_at_def prev_at_def)
  show ?thesis
  proof (cases L rule: rev_cases)
    case Nil
    then have "x = a" using x by simp
    show ?thesis
    proof (cases M)
      case Nil
      then show ?thesis using \<open>L = []\<close> \<open>x = a\<close> y nx pv by (simp add: x_def [symmetric] y_def [symmetric])
    next
      case (Cons c N)
      then have "y = c" using y by simp
      have "dll ?cs c N z"
        by (rule dll_cong [of bs]) (use M Cons \<open>y = c\<close> \<open>x = a\<close> assms nx pv in auto)
      then show ?thesis using \<open>L = []\<close> Cons \<open>x = a\<close> \<open>y = c\<close> nx pv
        by (simp add: x_def [symmetric] y_def [symmetric])
    qed
  next
    case (snoc K d)
    then have "x = d" using x by simp
    have K: "dll ?cs a K d"
      by (rule dll_cong [of bs]) (use L snoc \<open>x = d\<close> y assms nx pv in \<open>auto simp: dll_append hd_append split: if_splits\<close>)
    have "dll ?cs d M z"
    proof (cases M)
      case Nil
      then show ?thesis using \<open>x = d\<close> y nx pv by simp
    next
      case (Cons c N)
      then have "y = c" using y by simp
      have "dll ?cs c N z"
        by (rule dll_cong [of bs]) (use M Cons \<open>y = c\<close> \<open>x = d\<close> snoc assms nx pv in auto)
      then show ?thesis using Cons \<open>x = d\<close> \<open>y = c\<close> nx pv by simp
    qed
    then show ?thesis using K snoc by (simp add: dll_append x_def [symmetric] y_def [symmetric])
  qed
qed

lemma push_dll:
  assumes "dll bs a L z" and "distinct L" and "a \<notin> set L" and "z \<notin> set L"
    and "b \<notin> set L" and "b \<noteq> a" and "b \<noteq> z"
    and nx: "\<And>c. b_next (cs c) = (if c = a then b else if c = b then b_next (bs a) else b_next (bs c))"
    and pv: "\<And>c. b_prev (cs c) = (if c = b_next (bs a) then b else if c = b then a else b_prev (bs c))"
  shows "dll cs a (b # L) z"
proof (cases L)
  case Nil
  then show ?thesis using assms by auto
next
  case (Cons c M)
  have c: "b_next (bs a) = c" using assms(1) Cons by simp
  have "dll cs c M z"
    by (rule dll_cong [of bs]) (use assms Cons c in auto)
  then show ?thesis using assms Cons c by auto
qed

lemma ring_to_front:
  assumes "ring bs L" and "b < NBUF"
  shows "ring (to_front b bs) (b # remove1 b L)"
proof -
  obtain M N where L: "L = M @ b # N" and "b \<notin> set M"
    using assms split_list_first [of b L] by (auto simp: ring_def)
  have d: "distinct (M @ b # N)" and st: "set (M @ b # N) = {..<NBUF}" and
    dl: "dll bs bhead (M @ b # N) bhead"
    using assms(1) by (simp_all add: ring_def L)
  have hd: "bhead \<notin> set (M @ b # N)" unfolding st by simp
  define cs where "cs = next_at (b_prev (bs b)) (b_next (bs b)) (prev_at (b_next (bs b)) (b_prev (bs b)) bs)"
  have "dll cs bhead (M @ N) bhead" unfolding cs_def by (rule unlink_dll [OF dl d hd hd])
  have pb: "b_prev (bs b) = last (bhead # M)" and nb: "b_next (bs b) = hd (N @ [bhead])"
    using dl dll_last [of bs bhead M b] dll_first [of bs b N bhead] by (simp_all add: dll_append)
  have "b_next (bs b) \<noteq> b" and "b_prev (bs b) \<noteq> b"
    using d hd by (auto simp: pb nb hd_append split: if_splits)
  then have same: "prev_at (b_next (bs b)) (b_prev (bs b)) bs b = bs b"
    by (simp add: prev_at_def)
  have eq: "to_front b bs = next_at bhead b (prev_at (b_next (cs bhead)) b (prev_at b bhead (next_at b (b_next (cs bhead)) cs)))"
    using assms(2) by (simp add: to_front_def Let_def cs_def same) (simp add: next_at_def prev_at_def)
  have nx: "b_next (to_front b bs c) = (if c = bhead then b else if c = b then b_next (cs bhead) else b_next (cs c))" for c
    unfolding eq by (simp add: next_at_def prev_at_def)
  have "b_next (cs bhead) \<in> set ((M @ N) @ [bhead])"
    unfolding dll_first [OF \<open>dll cs bhead (M @ N) bhead\<close>] by (rule hd_in_set) simp
  then have "b_next (cs bhead) \<noteq> b" using d assms(2) by auto
  then have pv: "b_prev (to_front b bs c) =
      (if c = b_next (cs bhead) then b else if c = b then bhead else b_prev (cs c))" for c
    unfolding eq by (simp add: next_at_def prev_at_def)
  have "dll (to_front b bs) bhead (b # M @ N) bhead"
    by (rule push_dll [OF \<open>dll cs bhead (M @ N) bhead\<close> _ _ _ _ _ _ nx pv]) (use d hd assms(2) in auto)
  moreover have "remove1 b L = M @ N" using \<open>b \<notin> set M\<close> by (simp add: L remove1_append)
  ultimately show ?thesis using d st by (auto simp: ring_def)
qed

section \<open>The cache invariant\<close>

text \<open>
  \<open>bcache_inv d P Q s\<close>: the state of the cache between the steps of the one thread that uses it.
  \<open>P\<close> are the blocks of device \<open>d\<close> that the log has pinned and \<open>Q\<close> the buffers the thread has
  open (locked). Every block has at most one buffer, reference counts count pins and open
  buffers, and a buffer that is neither pinned nor open agrees with the disk.
\<close>

definition caches :: "(nat \<Rightarrow> buf) \<Rightarrow> u32 \<Rightarrow> u32 \<Rightarrow> nat \<Rightarrow> bool" where
  "caches bs d x b \<longleftrightarrow> b_dev (bs b) = d \<and> b_blockno (bs b) = x"

definition pinned :: "(nat \<Rightarrow> buf) \<Rightarrow> u32 \<Rightarrow> u32 set \<Rightarrow> nat \<Rightarrow> bool" where
  "pinned bs d P b \<longleftrightarrow> b_dev (bs b) = d \<and> b_blockno (bs b) \<in> P"

definition locks_free :: "'a bio_st_scheme \<Rightarrow> bool" where
  "locks_free s \<longleftrightarrow> L_bcache \<notin> set (held s) \<and> (\<forall>l. L_sleep l \<notin> set (held s)) \<and>
     (\<forall>p. L_proc p \<notin> set (held s)) \<and> curproc s \<noteq> None"

definition bufs_ok :: "u32 \<Rightarrow> u32 set \<Rightarrow> nat set \<Rightarrow> (nat \<Rightarrow> buf) \<Rightarrow> (u32 \<Rightarrow> blk) \<Rightarrow> bool" where
  "bufs_ok d P Q bs dk \<longleftrightarrow>
     (\<exists>L. ring bs L) \<and>
     (\<forall>b<NBUF. \<forall>c<NBUF. \<forall>x. caches bs d x b \<and> caches bs d x c \<longrightarrow> b = c) \<and>
     (\<forall>b<NBUF. b_refcnt (bs b) = of_bool (pinned bs d P b) + of_bool (b \<in> Q)) \<and>
     (\<forall>x\<in>P. \<exists>b<NBUF. caches bs d x b \<and> b_valid (bs b)) \<and>
     (\<forall>b\<in>Q. b < NBUF \<and> b_dev (bs b) = d \<and> b_valid (bs b)) \<and>
     (\<forall>b<NBUF. b_dev (bs b) = d \<and> b_valid (bs b) \<and> b \<notin> Q \<and> b_blockno (bs b) \<notin> P \<longrightarrow>
        b_data (bs b) = dk (b_blockno (bs b)))"

definition open_locked :: "nat set \<Rightarrow> 'a bio_st_scheme \<Rightarrow> bool" where
  "open_locked Q s \<longleftrightarrow> (\<forall>b<NBUF. sl_locked (slocks s (SL_buf b)) \<longleftrightarrow> b \<in> Q) \<and>
     (\<forall>b\<in>Q. sl_pid (slocks s (SL_buf b)) = p_pid (procs s (the (curproc s))))"

definition bcache_inv :: "u32 \<Rightarrow> u32 set \<Rightarrow> nat set \<Rightarrow> 'a bio_st_scheme \<Rightarrow> bool" where
  "bcache_inv d P Q s \<longleftrightarrow> locks_free s \<and> open_locked Q s \<and> bufs_ok d P Q (bufs s) (disk s)"

text \<open>The content of a block as the kernel sees it: the cached copy, or the disk.\<close>

definition content :: "u32 \<Rightarrow> 'a bio_st_scheme \<Rightarrow> u32 \<Rightarrow> blk" where
  "content d s x =
     (case find (\<lambda>b. caches (bufs s) d x b \<and> b_valid (bufs s b)) [0..<NBUF] of
        Some b \<Rightarrow> b_data (bufs s b)
      | None \<Rightarrow> disk s x)"

lemma find_unique:
  assumes "c \<in> set xs" and "p c" and "\<And>b. b \<in> set xs \<Longrightarrow> p b \<Longrightarrow> b = c"
  shows "find p xs = Some c"
proof -
  have "\<exists>b. find p xs = Some b \<and> b \<in> set xs \<and> p b"
    using assms(1,2) by (cases "find p xs") (auto simp: find_None_iff find_Some_iff)
  then show ?thesis using assms(3) by blast
qed

lemma content_cached:
  assumes "bufs_ok d P Q (bufs s) (disk s)" and "c < NBUF" and "caches (bufs s) d x c"
    and "b_valid (bufs s c)"
  shows "content d s x = b_data (bufs s c)"
proof -
  have "find (\<lambda>b. caches (bufs s) d x b \<and> b_valid (bufs s b)) [0..<NBUF] = Some c"
    using assms by (intro find_unique) (auto simp: bufs_ok_def)
  then show ?thesis by (simp add: content_def)
qed

lemma content_disk:
  assumes "\<And>c. c < NBUF \<Longrightarrow> caches (bufs s) d x c \<Longrightarrow> \<not> b_valid (bufs s c)"
  shows "content d s x = disk s x"
proof -
  have "find (\<lambda>b. caches (bufs s) d x b \<and> b_valid (bufs s b)) [0..<NBUF] = None"
    using assms by (auto simp: find_None_iff)
  then show ?thesis by (simp add: content_def)
qed

lemma bufs_okD:
  assumes "bufs_ok d P Q bs dk"
  shows "\<exists>L. ring bs L"
    and "\<And>b c x. b < NBUF \<Longrightarrow> c < NBUF \<Longrightarrow> caches bs d x b \<Longrightarrow> caches bs d x c \<Longrightarrow> b = c"
    and "\<And>b. b < NBUF \<Longrightarrow> b_refcnt (bs b) = of_bool (pinned bs d P b) + of_bool (b \<in> Q)"
    and "\<And>x. x \<in> P \<Longrightarrow> \<exists>b<NBUF. caches bs d x b \<and> b_valid (bs b)"
    and "\<And>b. b \<in> Q \<Longrightarrow> b < NBUF \<and> b_dev (bs b) = d \<and> b_valid (bs b)"
    and "\<And>b. b < NBUF \<Longrightarrow> b_dev (bs b) = d \<Longrightarrow> b_valid (bs b) \<Longrightarrow> b \<notin> Q \<Longrightarrow> b_blockno (bs b) \<notin> P \<Longrightarrow>
      b_data (bs b) = dk (b_blockno (bs b))"
  using assms unfolding bufs_ok_def by blast+

lemma refs_zero_iff [simp]: "of_bool A + of_bool B = (0 :: u32) \<longleftrightarrow> \<not> A \<and> \<not> B"
  by (cases A; cases B) simp_all

lemma open_finite: "bufs_ok d P Q bs dk \<Longrightarrow> finite Q"
  by (rule finite_subset [of _ "{..<NBUF}"]) (auto dest: bufs_okD(5))

text \<open>When fewer than \<open>NBUF\<close> blocks are pinned or open, an unreferenced buffer exists.\<close>

lemma free_buffer:
  assumes ok: "bufs_ok d P Q bs dk" and "finite P" and "card P + card Q < NBUF"
  shows "\<exists>b<NBUF. b_refcnt (bs b) = 0"
proof (rule ccontr)
  assume "\<not> ?thesis"
  then have "{..<NBUF} \<subseteq> {b. b < NBUF \<and> pinned bs d P b} \<union> Q"
    using bufs_okD(3) [OF ok] by fastforce
  then have "NBUF \<le> card ({b. b < NBUF \<and> pinned bs d P b} \<union> Q)"
    using card_mono [of "{b. b < NBUF \<and> pinned bs d P b} \<union> Q" "{..<NBUF}"] open_finite [OF ok] by simp
  also have "\<dots> \<le> card {b. b < NBUF \<and> pinned bs d P b} + card Q" by (rule card_Un_le)
  also have "card {b. b < NBUF \<and> pinned bs d P b} \<le> card P"
    by (rule card_inj_on_le [of "\<lambda>b. b_blockno (bs b)"])
      (use assms bufs_okD(2) [OF ok] in \<open>auto simp: inj_on_def pinned_def caches_def\<close>)
  finally show False using assms(3) by simp
qed

lemma bnd_upd_buf [m_simps]: "bnd (upd_buf b f) k s = k () (s\<lparr>bufs := (bufs s)(b := f (bufs s b))\<rparr>)"
  by (simp add: upd_buf_def m_simps)

lemma upd_buf_apply [m_simps]: "upd_buf b f s = Ok () (s\<lparr>bufs := (bufs s)(b := f (bufs s b))\<rparr>)"
  by (simp add: upd_buf_def m_simps)

lemma bnd_get_buf [m_simps]: "bnd (get_buf b) k s = k (bufs s b) s"
  by (simp add: get_buf_def m_simps)

text \<open>The buffer \<^verbatim>\<open>bread\<close> picks, and the state it leaves.\<close>

definition opened :: "u32 \<Rightarrow> u32 \<Rightarrow> nat \<Rightarrow> 'a bio_st_scheme \<Rightarrow> 'a bio_st_scheme" where
  "opened d x b s = s\<lparr>
     slocks := (slocks s)(SL_buf b := \<lparr>sl_locked = True, sl_pid = p_pid (procs s (the (curproc s)))\<rparr>),
     bufs := (bufs s)(b := (bufs s b)\<lparr>b_dev := d, b_blockno := x, b_valid := True,
       b_refcnt := b_refcnt (bufs s b) + 1, b_data := content d s x\<rparr>)\<rparr>"

lemma bread_hit:
  assumes inv: "bcache_inv d P Q s" and b: "b < NBUF" "caches (bufs s) d x b" "b \<notin> Q"
  shows "bread d x s = Ok b (opened d x b s)"
proof -
  have ok: "bufs_ok d P Q (bufs s) (disk s)" and lf: "locks_free s" and ol: "open_locked Q s"
    using inv by (simp_all add: bcache_inv_def)
  obtain p where p: "curproc s = Some p" using lf by (auto simp: locks_free_def)
  obtain L where L: "ring (bufs s) L" using bufs_okD(1) [OF ok] ..
  have "find (\<lambda>b. b_dev (bufs s b) = d \<and> b_blockno (bufs s b) = x) L = Some b"
    by (rule find_unique) (use L b bufs_okD(2) [OF ok] in \<open>auto simp: ring_def caches_def\<close>)
  then have sc: "scan_next (bufs s) d x (b_next (bufs s bhead)) = Some (Some b)"
    using ring_scan_next [OF L] by simp
  have nl: "\<not> sl_locked (slocks s (SL_buf b))" using ol b by (simp add: open_locked_def)
  have dt: "content d s x = (if b_valid (bufs s b) then b_data (bufs s b) else disk s x)"
  proof (cases "b_valid (bufs s b)")
    case True
    then show ?thesis using content_cached [OF ok b(1,2)] by simp
  next
    case False
    have "content d s x = disk s x"
      by (rule content_disk) (use False bufs_okD(2) [OF ok b(1) _ b(2)] in blast)
    then show ?thesis using False by simp
  qed
  show ?thesis
    using lf nl p sc b(2) dt
    by (simp add: bread_def bget_def ends_def m_simps acquiresleep_free locks_free_def
        virtio_disk_rw_def set_data_def opened_def caches_def)
      (auto intro!: bio_st.equality buf.equality simp: fun_eq_iff)
qed

lemma find_last: "find p (rev L) = Some b \<Longrightarrow> b = last (filter p L)"
  by (induction L rule: rev_induct) (auto split: if_splits)

lemma bread_miss:
  assumes inv: "bcache_inv d P Q s" and L: "ring (bufs s) L" and no: "\<And>c. c < NBUF \<Longrightarrow> \<not> caches (bufs s) d x c"
    and sp: "finite P" "card P + card Q < NBUF"
  shows "\<exists>b<NBUF. b_refcnt (bufs s b) = 0 \<and> b = last (filter (\<lambda>b. b_refcnt (bufs s b) = 0) L) \<and>
    bread d x s = Ok b (opened d x b s)"
proof -
  have ok: "bufs_ok d P Q (bufs s) (disk s)" and lf: "locks_free s" and ol: "open_locked Q s"
    using inv by (simp_all add: bcache_inv_def)
  obtain p where p: "curproc s = Some p" using lf by (auto simp: locks_free_def)
  have sL: "set L = {..<NBUF}" using L by (simp add: ring_def)
  have "find (\<lambda>b. b_dev (bufs s b) = d \<and> b_blockno (bufs s b) = x) L = None"
    using no sL by (auto simp: find_None_iff caches_def)
  then have sc: "scan_next (bufs s) d x (b_next (bufs s bhead)) = Some None"
    using ring_scan_next [OF L] by simp
  obtain b where f: "find (\<lambda>b. b_refcnt (bufs s b) = 0) (rev L) = Some b"
    using free_buffer [OF ok sp] sL by (cases "find (\<lambda>b. b_refcnt (bufs s b) = 0) (rev L)")
      (auto simp: find_None_iff)
  then have b: "b < NBUF" "b_refcnt (bufs s b) = 0"
    using sL by (auto simp: find_Some_iff rev_nth)
  have sp: "scan_prev (bufs s) (b_prev (bufs s bhead)) = Some (Some b)"
    using ring_scan_prev [OF L] f by simp
  have "b \<notin> Q" using bufs_okD(3) [OF ok b(1)] b(2) by (metis refs_zero_iff)
  then have nl: "\<not> sl_locked (slocks s (SL_buf b))" using ol b by (simp add: open_locked_def)
  have dt: "content d s x = disk s x" by (rule content_disk) (use no in blast)
  have "bread d x s = Ok b (opened d x b s)"
    using lf nl p sc sp b dt
    by (simp add: bread_def bget_def ends_def m_simps acquiresleep_free locks_free_def
        virtio_disk_rw_def set_data_def opened_def)
      (auto intro!: bio_st.equality buf.equality simp: fun_eq_iff)
  then show ?thesis using b find_last [OF f] by blast
qed

text \<open>Changing one buffer, other than its links, keeps the list.\<close>

lemma ring_upd:
  assumes "ring bs L" and "b_next f = b_next (bs b)" and "b_prev f = b_prev (bs b)"
  shows "ring (bs(b := f)) L"
  using assms(1) by (rule ring_links) (use assms in auto)

lemma bufs_ok_open:
  assumes ok: "bufs_ok d P Q bs dk" and b: "b < NBUF" "b \<notin> Q"
    and fresh: "caches bs d x b \<or> b_refcnt (bs b) = 0 \<and> (\<forall>c<NBUF. \<not> caches bs d x c)"
  shows "bufs_ok d P (insert b Q) (bs(b := (bs b)\<lparr>b_dev := d, b_blockno := x, b_valid := True,
    b_refcnt := b_refcnt (bs b) + 1, b_data := dt\<rparr>)) dk"
proof -
  let ?f = "(bs b)\<lparr>b_dev := d, b_blockno := x, b_valid := True,
    b_refcnt := b_refcnt (bs b) + 1, b_data := dt\<rparr>"
  obtain L where L: "ring bs L" using bufs_okD(1) [OF ok] ..
  have ring: "ring (bs(b := ?f)) L" by (rule ring_upd [OF L]) simp_all
  have c: "caches (bs(b := ?f)) d y c \<longleftrightarrow> (if c = b then y = x else caches bs d y c)" for c y
    by (auto simp: caches_def)
  have other: "\<not> caches bs d x c" if "c < NBUF" "c \<noteq> b" for c
    using fresh bufs_okD(2) [OF ok b(1) that(1)] that by blast
  have pn: "pinned (bs(b := ?f)) d P b \<longleftrightarrow> pinned bs d P b"
  proof (cases "caches bs d x b")
    case False
    then have "\<not> pinned bs d P b" using fresh bufs_okD(3) [OF ok b(1)] by simp
    moreover have "x \<notin> P" using bufs_okD(4) [OF ok, of x] fresh False by blast
    ultimately show ?thesis by (simp add: pinned_def)
  qed (simp add: pinned_def caches_def)
  have ref: "b_refcnt ((bs(b := ?f)) c) = of_bool (pinned (bs(b := ?f)) d P c) + of_bool (c \<in> insert b Q)"
    if "c < NBUF" for c
    using bufs_okD(3) [OF ok that] pn b(2) by (cases "c = b") (simp_all add: pinned_def)
  have val: "\<exists>c<NBUF. caches (bs(b := ?f)) d y c \<and> b_valid ((bs(b := ?f)) c)" if y: "y \<in> P" for y
  proof -
    obtain c where "c < NBUF" "caches bs d y c" "b_valid (bs c)" using bufs_okD(4) [OF ok y] by blast
    moreover have "y = x" if "c = b"
      using that fresh bufs_okD(3) [OF ok b(1)] y \<open>caches bs d y c\<close>
      by (auto simp: caches_def pinned_def)
    ultimately show ?thesis using b(1) c by (cases "c = b") auto
  qed
  have clean: "b_data ((bs(b := ?f)) c) = dk (b_blockno ((bs(b := ?f)) c))"
    if "c < NBUF" "b_dev ((bs(b := ?f)) c) = d" "b_valid ((bs(b := ?f)) c)" "c \<notin> insert b Q"
      "b_blockno ((bs(b := ?f)) c) \<notin> P" for c
    using that bufs_okD(6) [OF ok that(1)] by auto
  show ?thesis
    unfolding bufs_ok_def
    using ring c other ref val clean bufs_okD(2) [OF ok] bufs_okD(5) [OF ok] b(1)
    by (intro conjI allI ballI impI) (auto split: if_splits)
qed

lemma locks_free_opened [simp]: "locks_free (opened d x b s) \<longleftrightarrow> locks_free s"
  by (simp add: locks_free_def opened_def)

lemma open_locked_opened: "open_locked Q s \<Longrightarrow> b < NBUF \<Longrightarrow> open_locked (insert b Q) (opened d x b s)"
  by (auto simp: open_locked_def opened_def)

lemma content_elsewhere:
  assumes ok: "bufs_ok d P Q (bufs s) (disk s)" and ok': "bufs_ok d P' Q' (bufs t) (disk t)"
    and "disk t y = disk s y" and same: "\<And>c. c < NBUF \<Longrightarrow> c \<noteq> b \<Longrightarrow> bufs t c = bufs s c"
    and t: "\<not> (caches (bufs t) d y b \<and> b_valid (bufs t b))"
    and s: "caches (bufs s) d y b \<Longrightarrow> b_valid (bufs s b) \<Longrightarrow> b_data (bufs s b) = disk s y"
  shows "content d t y = content d s y"
proof (cases "\<exists>c<NBUF. c \<noteq> b \<and> caches (bufs s) d y c \<and> b_valid (bufs s c)")
  case True
  then obtain c where c: "c < NBUF" "c \<noteq> b" "caches (bufs s) d y c" "b_valid (bufs s c)" by blast
  have "caches (bufs t) d y c" "b_valid (bufs t c)"
    using c same [OF c(1,2)] by (simp_all add: caches_def)
  then show ?thesis
    using content_cached [OF ok c(1,3,4)] content_cached [OF ok' c(1)] same [OF c(1,2)] by simp
next
  case False
  have "content d t y = disk t y"
    by (rule content_disk) (use False same t in \<open>metis caches_def\<close>)
  moreover have "content d s y = disk s y"
  proof (cases "b < NBUF \<and> caches (bufs s) d y b \<and> b_valid (bufs s b)")
    case True
    then show ?thesis using content_cached [OF ok, of b y] s by simp
  next
    case none: False
    show ?thesis by (rule content_disk) (use False none in blast)
  qed
  ultimately show ?thesis using assms(3) by simp
qed

lemma content_opened:
  assumes inv: "bcache_inv d P Q s" and b: "b < NBUF"
    and fresh: "caches (bufs s) d x b \<or> b_refcnt (bufs s b) = 0 \<and> (\<forall>c<NBUF. \<not> caches (bufs s) d x c)"
    and inv': "bcache_inv d P (insert b Q) (opened d x b s)"
  shows "content d (opened d x b s) y = content d s y"
proof -
  have ok: "bufs_ok d P Q (bufs s) (disk s)"
    and ok': "bufs_ok d P (insert b Q) (bufs (opened d x b s)) (disk (opened d x b s))"
    using inv inv' by (simp_all add: bcache_inv_def)
  show ?thesis
  proof (cases "y = x")
    case True
    have "content d (opened d x b s) x = b_data (bufs (opened d x b s) b)"
      by (rule content_cached [OF ok' b]) (simp_all add: opened_def caches_def)
    then show ?thesis using True by (simp add: opened_def)
  next
    case False
    have "b_data (bufs s b) = disk s y" if c: "caches (bufs s) d y b" "b_valid (bufs s b)"
    proof -
      have "b_refcnt (bufs s b) = 0" using fresh c False by (auto simp: caches_def)
      then have "\<not> pinned (bufs s) d P b" "b \<notin> Q" using bufs_okD(3) [OF ok b] by auto
      then show ?thesis using bufs_okD(6) [OF ok b] c by (simp add: caches_def pinned_def)
    qed
    then show ?thesis
      by (intro content_elsewhere [OF ok ok', where b = b]) (use False in \<open>auto simp: opened_def caches_def\<close>)
  qed
qed

lemma bread_ok:
  assumes inv: "bcache_inv d P Q s" and x: "\<And>b. b \<in> Q \<Longrightarrow> b_blockno (bufs s b) \<noteq> x"
    and sp: "x \<in> P \<or> finite P \<and> card P + card Q < NBUF"
  shows "\<exists>b t. bread d x s = Ok b t \<and> t = opened d x b s \<and> b < NBUF \<and> b \<notin> Q \<and>
    bcache_inv d P (insert b Q) t \<and> content d t = content d s"
proof -
  have ok: "bufs_ok d P Q (bufs s) (disk s)" and lf: "locks_free s" and ol: "open_locked Q s"
    using inv by (simp_all add: bcache_inv_def)
  have "\<exists>b<NBUF. b \<notin> Q \<and> bread d x s = Ok b (opened d x b s) \<and>
    (caches (bufs s) d x b \<or> b_refcnt (bufs s b) = 0 \<and> (\<forall>c<NBUF. \<not> caches (bufs s) d x c))"
  proof (cases "\<exists>c<NBUF. caches (bufs s) d x c")
    case True
    then obtain c where c: "c < NBUF" "caches (bufs s) d x c" by blast
    moreover have "c \<notin> Q" using x c(2) by (auto simp: caches_def)
    ultimately show ?thesis using bread_hit [OF inv c] by blast
  next
    case False
    then have "x \<notin> P" using bufs_okD(4) [OF ok] by blast
    moreover obtain L where "ring (bufs s) L" using bufs_okD(1) [OF ok] ..
    ultimately obtain b where "b < NBUF" "b_refcnt (bufs s b) = 0" "bread d x s = Ok b (opened d x b s)"
      using bread_miss [OF inv, of L x] False sp by blast
    moreover then have "b \<notin> Q" using bufs_okD(3) [OF ok, of b] by auto
    ultimately show ?thesis using False by blast
  qed
  then obtain b where b: "b < NBUF" "b \<notin> Q" "bread d x s = Ok b (opened d x b s)"
    and fresh: "caches (bufs s) d x b \<or> b_refcnt (bufs s b) = 0 \<and> (\<forall>c<NBUF. \<not> caches (bufs s) d x c)"
    by blast
  have "bufs_ok d P (insert b Q) (bufs (opened d x b s)) (disk (opened d x b s))"
    using bufs_ok_open [OF ok b(1,2) fresh] by (simp add: opened_def)
  then have inv': "bcache_inv d P (insert b Q) (opened d x b s)"
    using lf open_locked_opened [OF ol b(1)] by (simp add: bcache_inv_def)
  then show ?thesis using b content_opened [OF inv b(1) fresh inv'] by auto
qed

section \<open>Writing and releasing\<close>

lemma bcache_invD:
  assumes "bcache_inv d P Q s"
  shows "locks_free s" and "open_locked Q s" and "bufs_ok d P Q (bufs s) (disk s)"
  using assms by (simp_all add: bcache_inv_def)

lemma set_data_apply [m_simps]:
  "set_data b v s = Ok () (s\<lparr>bufs := (bufs s)(b := (bufs s b)\<lparr>b_data := v\<rparr>)\<rparr>)"
  by (simp add: set_data_def m_simps)

lemma bnd_set_data [m_simps]:
  "bnd (set_data b v) k s = k () (s\<lparr>bufs := (bufs s)(b := (bufs s b)\<lparr>b_data := v\<rparr>)\<rparr>)"
  by (simp add: bnd_def set_data_apply)

lemma caches_upd_data [simp]: "caches (bs(b := (bs b)\<lparr>b_data := v\<rparr>)) d x c = caches bs d x c"
  by (simp add: caches_def)

text \<open>Changes that leave the identity of every buffer alone.\<close>

lemma bufs_ok_same:
  assumes ok: "bufs_ok d P Q bs dk" and ring: "ring cs L"
    and same: "\<And>c. b_dev (cs c) = b_dev (bs c) \<and> b_blockno (cs c) = b_blockno (bs c) \<and> b_valid (cs c) = b_valid (bs c)"
    and ref: "\<And>c. c < NBUF \<Longrightarrow> b_refcnt (cs c) = of_bool (pinned bs d P' c) + of_bool (c \<in> Q')"
    and P': "\<And>x. x \<in> P' \<Longrightarrow> \<exists>b<NBUF. caches bs d x b \<and> b_valid (bs b)"
    and Q': "Q' \<subseteq> Q"
    and clean: "\<And>c. c < NBUF \<Longrightarrow> b_dev (bs c) = d \<Longrightarrow> b_valid (bs c) \<Longrightarrow> c \<notin> Q' \<Longrightarrow>
      b_blockno (bs c) \<notin> P' \<Longrightarrow> b_data (cs c) = dk' (b_blockno (bs c))"
  shows "bufs_ok d P' Q' cs dk'"
proof -
  have c: "caches cs = caches bs" and p: "pinned cs = pinned bs"
    using same by (simp_all add: caches_def pinned_def fun_eq_iff)
  have v: "b_dev (cs c) = b_dev (bs c)" "b_blockno (cs c) = b_blockno (bs c)" "b_valid (cs c) = b_valid (bs c)" for c
    using same by simp_all
  have 2: "\<forall>b<NBUF. \<forall>c<NBUF. \<forall>x. caches bs d x b \<and> caches bs d x c \<longrightarrow> b = c"
    using bufs_okD(2) [OF ok] by blast
  have 5: "\<forall>b\<in>Q'. b < NBUF \<and> b_dev (bs b) = d \<and> b_valid (bs b)"
    using bufs_okD(5) [OF ok] Q' by blast
  show ?thesis
    unfolding bufs_ok_def c p v using ring 2 ref P' 5 clean by (intro conjI) blast+
qed

lemma bufs_ok_data:
  assumes ok: "bufs_ok d P Q bs dk" and "b \<in> Q"
  shows "bufs_ok d P Q (bs(b := (bs b)\<lparr>b_data := v\<rparr>)) dk"
proof -
  obtain L where "ring bs L" using bufs_okD(1) [OF ok] ..
  then have "ring (bs(b := (bs b)\<lparr>b_data := v\<rparr>)) L" by (rule ring_upd) simp_all
  then show ?thesis
    by (rule bufs_ok_same [OF ok]) (use bufs_okD(3,4,6) [OF ok] assms(2) in auto)
qed

lemma set_data_inv:
  assumes inv: "bcache_inv d P Q s" and "b \<in> Q" and t: "set_data b v s = Ok u t"
  shows "bcache_inv d P Q t" and "content d t = (content d s)(b_blockno (bufs s b) := v)"
proof -
  note D = bcache_invD [OF inv]
  have eq: "t = s\<lparr>bufs := (bufs s)(b := (bufs s b)\<lparr>b_data := v\<rparr>)\<rparr>"
    using t by (simp add: m_simps)
  have ok': "bufs_ok d P Q (bufs t) (disk t)"
    using bufs_ok_data [OF D(3) assms(2)] by (simp add: eq)
  show "bcache_inv d P Q t"
    using D ok' by (simp add: bcache_inv_def locks_free_def open_locked_def eq)
  have b: "b < NBUF" "b_dev (bufs s b) = d" "b_valid (bufs s b)"
    using bufs_okD(5) [OF D(3) assms(2)] by simp_all
  show "content d t = (content d s)(b_blockno (bufs s b) := v)"
  proof
    fix y
    show "content d t y = ((content d s)(b_blockno (bufs s b) := v)) y"
    proof (cases "y = b_blockno (bufs s b)")
      case True
      then show ?thesis using content_cached [OF ok' b(1)] b by (simp add: eq caches_def)
    next
      case False
      then show ?thesis
        using content_elsewhere [OF D(3) ok', where b = b and y = y] by (simp add: eq caches_def)
    qed
  qed
qed

definition written :: "nat \<Rightarrow> 'a bio_st_scheme \<Rightarrow> 'a bio_st_scheme" where
  "written b s = s\<lparr>disk := (disk s)(b_blockno (bufs s b) := b_data (bufs s b)),
     dtrace := (b_blockno (bufs s b), b_data (bufs s b)) # dtrace s\<rparr>"

lemma bwrite_ok:
  assumes inv: "bcache_inv d P Q s" and "b \<in> Q"
  shows "bwrite b s = Ok () (written b s)" and "bcache_inv d P Q (written b s)"
    and "content d (written b s) = content d s"
proof -
  note D = bcache_invD [OF inv]
  have b: "b < NBUF" "b_dev (bufs s b) = d" "b_valid (bufs s b)"
    using bufs_okD(5) [OF D(3) assms(2)] by simp_all
  obtain p where p: "curproc s = Some p" using D(1) by (auto simp: locks_free_def)
  show "bwrite b s = Ok () (written b s)"
    using D(1,2) assms(2) b p
    by (simp add: bwrite_def holdingsleep_apply m_simps locks_free_def open_locked_def
        virtio_disk_rw_def written_def)
  have "bufs_ok d P Q (bufs s) ((disk s)(b_blockno (bufs s b) := b_data (bufs s b)))"
  proof -
    obtain L where "ring (bufs s) L" using bufs_okD(1) [OF D(3)] ..
    moreover have "b_blockno (bufs s c) \<noteq> b_blockno (bufs s b)" if "c < NBUF" "b_dev (bufs s c) = d" "c \<notin> Q" for c
      using bufs_okD(2) [OF D(3) b(1) that(1)] that b(2) assms(2) by (auto simp: caches_def)
    ultimately show ?thesis
      by (intro bufs_ok_same [OF D(3)]) (use bufs_okD(3,4,6) [OF D(3)] in auto)
  qed
  then have ok': "bufs_ok d P Q (bufs (written b s)) (disk (written b s))" by (simp add: written_def)
  then show "bcache_inv d P Q (written b s)"
    using D by (simp add: bcache_inv_def locks_free_def open_locked_def written_def)
  show "content d (written b s) = content d s"
  proof
    fix y
    show "content d (written b s) y = content d s y"
    proof (cases "y = b_blockno (bufs s b)")
      case True
      then show ?thesis
        using content_cached [OF ok' b(1)] content_cached [OF D(3) b(1)] b by (simp add: written_def caches_def)
    next
      case False
      then show ?thesis by (simp add: content_def written_def split: option.split)
    qed
  qed
qed

text \<open>\<^verbatim>\<open>brelse\<close>: the lock is released, the count goes down, and an unused buffer moves to the front.\<close>

definition dropped :: "nat \<Rightarrow> (nat \<Rightarrow> buf) \<Rightarrow> (nat \<Rightarrow> buf)" where
  "dropped b bs =
     (let cs = bs(b := (bs b)\<lparr>b_refcnt := b_refcnt (bs b) - 1\<rparr>)
      in if b_refcnt (bs b) = 1 then to_front b cs else cs)"

definition closed :: "nat \<Rightarrow> 'a bio_st_scheme \<Rightarrow> 'a bio_st_scheme" where
  "closed b s = s\<lparr>
     procs := woken (curproc s) (Some (Ch_sleep (SL_buf b))) {..<NPROC} (procs s),
     slocks := (slocks s)(SL_buf b := \<lparr>sl_locked = False, sl_pid = 0\<rparr>),
     bufs := dropped b (bufs s)\<rparr>"

lemma next_at_fields [simp]:
  "b_dev (next_at b n bs c) = b_dev (bs c)" "b_blockno (next_at b n bs c) = b_blockno (bs c)"
  "b_valid (next_at b n bs c) = b_valid (bs c)" "b_refcnt (next_at b n bs c) = b_refcnt (bs c)"
  "b_data (next_at b n bs c) = b_data (bs c)" "b_disk (next_at b n bs c) = b_disk (bs c)"
  by (simp_all add: next_at_def)

lemma prev_at_fields [simp]:
  "b_dev (prev_at b n bs c) = b_dev (bs c)" "b_blockno (prev_at b n bs c) = b_blockno (bs c)"
  "b_valid (prev_at b n bs c) = b_valid (bs c)" "b_refcnt (prev_at b n bs c) = b_refcnt (bs c)"
  "b_data (prev_at b n bs c) = b_data (bs c)" "b_disk (prev_at b n bs c) = b_disk (bs c)"
  by (simp_all add: prev_at_def)

lemma to_front_fields [simp]:
  "b_dev (to_front b bs c) = b_dev (bs c)"
  "b_blockno (to_front b bs c) = b_blockno (bs c)"
  "b_valid (to_front b bs c) = b_valid (bs c)"
  "b_refcnt (to_front b bs c) = b_refcnt (bs c)"
  "b_data (to_front b bs c) = b_data (bs c)"
  by (simp_all add: to_front_def Let_def)

lemma dropped_fields [simp]:
  "b_dev (dropped b bs c) = b_dev (bs c)"
  "b_blockno (dropped b bs c) = b_blockno (bs c)"
  "b_valid (dropped b bs c) = b_valid (bs c)"
  "b_refcnt (dropped b bs c) = (if c = b then b_refcnt (bs c) - 1 else b_refcnt (bs c))"
  "b_data (dropped b bs c) = b_data (bs c)"
  by (simp_all add: dropped_def Let_def)

lemma ring_dropped:
  assumes "ring bs L" and "b < NBUF"
  shows "ring (dropped b bs) (if b_refcnt (bs b) = 1 then b # remove1 b L else L)"
proof -
  have "ring (bs(b := (bs b)\<lparr>b_refcnt := b_refcnt (bs b) - 1\<rparr>)) L"
    by (rule ring_upd [OF assms(1)]) simp_all
  then show ?thesis
    using ring_to_front [OF _ assms(2)] unfolding dropped_def Let_def by presburger
qed

lemma locks_free_unblocked: "locks_free s \<Longrightarrow> \<not> wakeup_blocked s"
  by (simp add: locks_free_def wakeup_blocked_def)

lemma p_pid_woken [simp]: "p_pid (woken me cn A ps p) = p_pid (ps p)"
  by (simp add: woken_def)

lemma bnd_set_next: "bnd (set_next b n) k s = k () (s\<lparr>bufs := next_at b n (bufs s)\<rparr>)"
  by (simp add: set_next_def next_at_def m_simps)

lemma bnd_set_prev: "bnd (set_prev b n) k s = k () (s\<lparr>bufs := prev_at b n (bufs s)\<rparr>)"
  by (simp add: set_prev_def prev_at_def m_simps)

lemma brelse_apply:
  assumes inv: "bcache_inv d P Q s" and "b \<in> Q"
  shows "brelse b s = Ok () (closed b s)"
proof -
  note D = bcache_invD [OF inv]
  have b: "b < NBUF" using bufs_okD(5) [OF D(3) assms(2)] by simp
  obtain p where p: "curproc s = Some p" using D(1) by (auto simp: locks_free_def)
  have "b_refcnt (bufs s b) - 1 = 0 \<longleftrightarrow> b_refcnt (bufs s b) = 1" by (metis diff_add_cancel add_0 diff_self)
  then show ?thesis
    using D(1,2) assms(2) b p locks_free_unblocked [OF D(1)]
    by (simp add: brelse_def holdingsleep_apply releasesleep_apply m_simps locks_free_def open_locked_def
        closed_def dropped_def to_front_def Let_def bnd_set_next bnd_set_prev link_front_def)
qed

lemma refs_less_one:
  "(of_bool A + of_bool True :: u32) - 1 = of_bool A + of_bool False"
  by simp

lemma brelse_inv:
  assumes inv: "bcache_inv d P Q s" and b: "b \<in> Q"
    and clean: "b_blockno (bufs s b) \<in> P \<or> b_data (bufs s b) = disk s (b_blockno (bufs s b))"
  shows "bcache_inv d P (Q - {b}) (closed b s)"
proof -
  note D = bcache_invD [OF inv]
  have "b < NBUF" using bufs_okD(5) [OF D(3) b] by simp
  obtain L where "ring (bufs s) L" using bufs_okD(1) [OF D(3)] ..
  then have ring: "ring (dropped b (bufs s)) (if b_refcnt (bufs s b) = 1 then b # remove1 b L else L)"
    by (rule ring_dropped) fact
  have ref: "b_refcnt (dropped b (bufs s) c) = of_bool (pinned (bufs s) d P c) + of_bool (c \<in> Q - {b})"
    if "c < NBUF" for c
    using bufs_okD(3) [OF D(3) that] b by (cases "c = b") simp_all
  have "bufs_ok d P (Q - {b}) (dropped b (bufs s)) (disk s)"
    by (rule bufs_ok_same [OF D(3) ring _ ref]) (use bufs_okD(4,6) [OF D(3)] clean in auto)
  then have "bufs_ok d P (Q - {b}) (bufs (closed b s)) (disk (closed b s))" by (simp add: closed_def)
  moreover have "open_locked (Q - {b}) (closed b s)"
    using D(2) by (auto simp: open_locked_def closed_def)
  moreover have "locks_free (closed b s)" using D(1) by (simp add: locks_free_def closed_def)
  ultimately show ?thesis by (simp add: bcache_inv_def)
qed

lemma brelse_front:
  assumes inv: "bcache_inv d P Q s" and L: "ring (bufs s) L" and b: "b \<in> Q" "b_refcnt (bufs s b) = 1"
  shows "\<exists>t. brelse b s = Ok () t \<and> ring (bufs t) (b # remove1 b L)"
proof -
  have "b < NBUF" using bufs_okD(5) [OF bcache_invD(3) [OF inv] b(1)] by simp
  then show ?thesis
    using brelse_apply [OF inv b(1)] ring_dropped [OF L, of b] b(2) by (simp add: closed_def)
qed

lemma content_closed [simp]: "content d (closed b s) = content d s"
proof -
  have c: "caches (dropped b (bufs s)) = caches (bufs s)" by (simp add: caches_def fun_eq_iff)
  show ?thesis by (rule ext) (simp add: content_def closed_def c split: option.split)
qed

text \<open>\<^verbatim>\<open>bpin\<close> and \<^verbatim>\<open>bunpin\<close> of an open buffer.\<close>

lemma bpin_apply:
  assumes "L_bcache \<notin> set (held s)"
  shows "bpin b s = Ok () (s\<lparr>bufs := (bufs s)(b := (bufs s b)\<lparr>b_refcnt := b_refcnt (bufs s b) + 1\<rparr>)\<rparr>)"
  using assms by (simp add: bpin_def m_simps)

lemma bunpin_apply:
  assumes "L_bcache \<notin> set (held s)"
  shows "bunpin b s = Ok () (s\<lparr>bufs := (bufs s)(b := (bufs s b)\<lparr>b_refcnt := b_refcnt (bufs s b) - 1\<rparr>)\<rparr>)"
  using assms by (simp add: bunpin_def m_simps)

lemma bufs_ok_repin:
  assumes ok: "bufs_ok d P Q bs dk" and b: "b \<in> Q"
    and P': "P' - {b_blockno (bs b)} = P - {b_blockno (bs b)}"
    and r: "r = of_bool (b_blockno (bs b) \<in> P') + 1"
  shows "bufs_ok d P' Q (bs(b := (bs b)\<lparr>b_refcnt := r\<rparr>)) dk"
proof -
  have bb: "b < NBUF" "b_dev (bs b) = d" "b_valid (bs b)" using bufs_okD(5) [OF ok b] by simp_all
  obtain L where "ring bs L" using bufs_okD(1) [OF ok] ..
  then have ring: "ring (bs(b := (bs b)\<lparr>b_refcnt := r\<rparr>)) L" by (rule ring_upd) simp_all
  have ne: "b_blockno (bs c) \<noteq> b_blockno (bs b)" if "c < NBUF" "b_dev (bs c) = d" "c \<noteq> b" for c
    using bufs_okD(2) [OF ok bb(1) that(1)] that bb(2) by (auto simp: caches_def)
  have mem: "x \<in> P' \<longleftrightarrow> x \<in> P" if "x \<noteq> b_blockno (bs b)" for x using P' that by blast
  have ref: "b_refcnt ((bs(b := (bs b)\<lparr>b_refcnt := r\<rparr>)) c) = of_bool (pinned bs d P' c) + of_bool (c \<in> Q)"
    if "c < NBUF" for c
    using bufs_okD(3) [OF ok that] b bb r ne [OF that] mem by (cases "c = b") (auto simp: pinned_def)
  show ?thesis
  proof (rule bufs_ok_same [OF ok ring _ ref])
    show "\<exists>c<NBUF. caches bs d x c \<and> b_valid (bs c)" if "x \<in> P'" for x
      using that bufs_okD(4) [OF ok] mem bb by (cases "x = b_blockno (bs b)") (auto simp: caches_def)
    show "b_data ((bs(b := (bs b)\<lparr>b_refcnt := r\<rparr>)) c) = dk (b_blockno (bs c))"
      if "c < NBUF" "b_dev (bs c) = d" "b_valid (bs c)" "c \<notin> Q" "b_blockno (bs c) \<notin> P'" for c
      using bufs_okD(6) [OF ok that(1-4)] ne [OF that(1,2)] mem that b by auto
  qed auto
qed

definition repinned :: "nat \<Rightarrow> u32 \<Rightarrow> 'a bio_st_scheme \<Rightarrow> 'a bio_st_scheme" where
  "repinned b r s = s\<lparr>bufs := (bufs s)(b := (bufs s b)\<lparr>b_refcnt := r\<rparr>)\<rparr>"

lemma repinned_inv:
  assumes inv: "bcache_inv d P Q s" and b: "b \<in> Q"
    and "P' - {b_blockno (bufs s b)} = P - {b_blockno (bufs s b)}"
    and "r = of_bool (b_blockno (bufs s b) \<in> P') + 1"
  shows "bcache_inv d P' Q (repinned b r s)"
  using bcache_invD [OF inv] bufs_ok_repin [OF bcache_invD(3) [OF inv] assms(2-4)]
  by (simp add: bcache_inv_def repinned_def locks_free_def open_locked_def)

lemma content_repinned [simp]: "content d (repinned b r s) = content d s"
proof -
  have c: "caches (bufs (repinned b r s)) = caches (bufs s)" by (simp add: caches_def fun_eq_iff repinned_def)
  have "b_valid (bufs (repinned b r s) c) = b_valid (bufs s c)"
    "b_data (bufs (repinned b r s) c) = b_data (bufs s c)" "disk (repinned b r s) = disk s" for c
    by (simp_all add: repinned_def)
  then show ?thesis by (intro ext) (simp add: content_def c split: option.split)
qed

lemma bpin_ok:
  assumes inv: "bcache_inv d P Q s" and b: "b \<in> Q" and "b_blockno (bufs s b) \<notin> P"
  shows "\<exists>r. bpin b s = Ok () (repinned b r s) \<and> bcache_inv d (insert (b_blockno (bufs s b)) P) Q (repinned b r s)"
proof -
  note D = bcache_invD [OF inv]
  have "b_refcnt (bufs s b) = 1"
    using bufs_okD(3) [OF D(3)] bufs_okD(5) [OF D(3) b] b assms(3) by (simp add: pinned_def)
  then have "b_refcnt (bufs s b) + 1 = of_bool (b_blockno (bufs s b) \<in> insert (b_blockno (bufs s b)) P) + 1" by simp
  then show ?thesis
    using D(1) repinned_inv [OF inv b, of "insert (b_blockno (bufs s b)) P" "b_refcnt (bufs s b) + 1"]
    by (auto simp: bpin_apply locks_free_def repinned_def)
qed

lemma bunpin_ok:
  assumes inv: "bcache_inv d P Q s" and b: "b \<in> Q" and "b_blockno (bufs s b) \<in> P"
  shows "\<exists>r. bunpin b s = Ok () (repinned b r s) \<and> bcache_inv d (P - {b_blockno (bufs s b)}) Q (repinned b r s)"
proof -
  note D = bcache_invD [OF inv]
  have "b_refcnt (bufs s b) = 2"
    using bufs_okD(3) [OF D(3)] bufs_okD(5) [OF D(3) b] b assms(3) by (simp add: pinned_def)
  then have "b_refcnt (bufs s b) - 1 = of_bool (b_blockno (bufs s b) \<in> P - {b_blockno (bufs s b)}) + 1" by simp
  then show ?thesis
    using D(1) repinned_inv [OF inv b, of "P - {b_blockno (bufs s b)}" "b_refcnt (bufs s b) - 1"]
    by (auto simp: bunpin_apply locks_free_def repinned_def)
qed

section \<open>The cache as an interface\<close>

text \<open>
  What the log relies on. \<open>inv P Q\<close> is the cache's invariant with pinned blocks \<open>P\<close> and open
  buffers \<open>Q\<close>; \<open>cont\<close> is what a reader sees, \<open>dsk\<close> the disk and \<open>trace\<close> its history; \<open>rest\<close>
  is the part of the state the cache leaves alone.
\<close>

locale block_cache =
  fixes inv :: "u32 set \<Rightarrow> nat set \<Rightarrow> 's \<Rightarrow> bool"
    and blkno :: "'s \<Rightarrow> nat \<Rightarrow> u32" and bdata :: "'s \<Rightarrow> nat \<Rightarrow> blk"
    and cont :: "'s \<Rightarrow> u32 \<Rightarrow> blk" and dsk :: "'s \<Rightarrow> u32 \<Rightarrow> blk"
    and trace :: "'s \<Rightarrow> (u32 \<times> blk) list" and rest :: "'s \<Rightarrow> 'r"
    and rd :: "u32 \<Rightarrow> (nat, 's) m" and wr :: "nat \<Rightarrow> (unit, 's) m"
    and rel :: "nat \<Rightarrow> (unit, 's) m" and put :: "nat \<Rightarrow> blk \<Rightarrow> (unit, 's) m"
    and unpin :: "nat \<Rightarrow> (unit, 's) m"
  assumes rd_ok: "\<lbrakk>inv P Q s; \<And>b. b \<in> Q \<Longrightarrow> blkno s b \<noteq> x; x \<in> P \<or> finite P \<and> card P + card Q < NBUF\<rbrakk> \<Longrightarrow>
      \<exists>b t. rd x s = Ok b t \<and> b \<notin> Q \<and> inv P (insert b Q) t \<and> blkno t b = x \<and> bdata t b = cont s x \<and>
        (\<forall>c\<in>Q. blkno t c = blkno s c \<and> bdata t c = bdata s c) \<and>
        cont t = cont s \<and> dsk t = dsk s \<and> trace t = trace s \<and> rest t = rest s"
    and put_ok: "\<lbrakk>inv P Q s; b \<in> Q\<rbrakk> \<Longrightarrow>
      \<exists>t. put b v s = Ok () t \<and> inv P Q t \<and> blkno t = blkno s \<and> bdata t = (bdata s)(b := v) \<and>
        cont t = (cont s)(blkno s b := v) \<and> dsk t = dsk s \<and> trace t = trace s \<and> rest t = rest s"
    and wr_ok: "\<lbrakk>inv P Q s; b \<in> Q\<rbrakk> \<Longrightarrow>
      \<exists>t. wr b s = Ok () t \<and> inv P Q t \<and> blkno t = blkno s \<and> bdata t = bdata s \<and> cont t = cont s \<and>
        dsk t = (dsk s)(blkno s b := bdata s b) \<and> trace t = (blkno s b, bdata s b) # trace s \<and> rest t = rest s"
    and rel_ok: "\<lbrakk>inv P Q s; b \<in> Q; blkno s b \<in> P \<or> bdata s b = dsk s (blkno s b)\<rbrakk> \<Longrightarrow>
      \<exists>t. rel b s = Ok () t \<and> inv P (Q - {b}) t \<and> blkno t = blkno s \<and> bdata t = bdata s \<and>
        cont t = cont s \<and> dsk t = dsk s \<and> trace t = trace s \<and> rest t = rest s"
    and unpin_ok: "\<lbrakk>inv P Q s; b \<in> Q; blkno s b \<in> P\<rbrakk> \<Longrightarrow>
      \<exists>t. unpin b s = Ok () t \<and> inv (P - {blkno s b}) Q t \<and> blkno t = blkno s \<and> bdata t = bdata s \<and>
        cont t = cont s \<and> dsk t = dsk s \<and> trace t = trace s \<and> rest t = rest s"
    and clean: "\<lbrakk>inv P Q s; x \<notin> P; \<And>b. b \<in> Q \<Longrightarrow> blkno s b \<noteq> x\<rbrakk> \<Longrightarrow> cont s x = dsk s x"
begin

text \<open>Read a block, change it, write it through and release it.\<close>

lemma update_block:
  assumes inv: "inv P {} s" and "x \<notin> P" and "finite P" and "card P < NBUF"
  shows "\<exists>t. bnd (rd x) (\<lambda>b. bnd (gets (\<lambda>s. bdata s b)) (\<lambda>v. block [put b (f v), wr b, rel b])) s = Ok () t \<and>
    inv P {} t \<and> cont t = (cont s)(x := f (cont s x)) \<and> dsk t = (dsk s)(x := f (cont s x)) \<and>
    trace t = (x, f (cont s x)) # trace s \<and> rest t = rest s"
proof -
  obtain b s1 where 1: "rd x s = Ok b s1" "inv P {b} s1" "blkno s1 b = x" "bdata s1 b = cont s x"
    "cont s1 = cont s" "dsk s1 = dsk s" "trace s1 = trace s" "rest s1 = rest s"
    using rd_ok [OF inv, of x] assms(3,4) by fastforce
  obtain s2 where 2: "put b (f (cont s x)) s1 = Ok () s2" "inv P {b} s2" "blkno s2 = blkno s1"
    "bdata s2 b = f (cont s x)" "cont s2 = (cont s)(x := f (cont s x))" "dsk s2 = dsk s"
    "trace s2 = trace s" "rest s2 = rest s"
    using put_ok [OF 1(2), of b "f (cont s x)"] 1 by auto
  obtain s3 where 3: "wr b s2 = Ok () s3" "inv P {b} s3" "blkno s3 = blkno s1" "bdata s3 = bdata s2"
    "cont s3 = cont s2" "dsk s3 = (dsk s)(x := f (cont s x))"
    "trace s3 = (x, f (cont s x)) # trace s" "rest s3 = rest s"
    using wr_ok [OF 2(2), of b] 1 2 by auto
  obtain s4 where 4: "rel b s3 = Ok () s4" "inv P {} s4" "cont s4 = cont s2" "dsk s4 = dsk s3"
    "trace s4 = trace s3" "rest s4 = rest s"
    using rel_ok [OF 3(2), of b] 1 2 3 by auto
  show ?thesis using 1 2 3 4 by (simp add: bnd_def gets_def ret_def)
qed

text \<open>Open two different blocks.\<close>

lemma read_two:
  assumes inv: "inv P {} s" and "x \<noteq> y" and "finite P" and sp: "x \<in> P \<or> card P < NBUF"
    "y \<in> P \<or> card P + 1 < NBUF"
  shows "\<exists>b c t1 t. rd x s = Ok b t1 \<and> rd y t1 = Ok c t \<and> inv P {b, c} t \<and> b \<noteq> c \<and>
    blkno t b = x \<and> blkno t c = y \<and> bdata t b = cont s x \<and> bdata t c = cont s y \<and>
    cont t = cont s \<and> dsk t = dsk s \<and> trace t = trace s \<and> rest t1 = rest s \<and> rest t = rest s"
proof -
  obtain b s1 where 1: "rd x s = Ok b s1" "inv P {b} s1" "blkno s1 b = x" "bdata s1 b = cont s x"
    "cont s1 = cont s" "dsk s1 = dsk s" "trace s1 = trace s" "rest s1 = rest s"
    using rd_ok [OF inv, of x] sp(1) assms(3) by fastforce
  have "\<exists>c t. rd y s1 = Ok c t \<and> c \<notin> {b} \<and> inv P (insert c {b}) t \<and> blkno t c = y \<and> bdata t c = cont s1 y \<and>
    (\<forall>a\<in>{b}. blkno t a = blkno s1 a \<and> bdata t a = bdata s1 a) \<and>
    cont t = cont s1 \<and> dsk t = dsk s1 \<and> trace t = trace s1 \<and> rest t = rest s1"
    by (rule rd_ok [OF 1(2)]) (use 1 assms in auto)
  then obtain c t where "rd y s1 = Ok c t \<and> c \<noteq> b \<and> inv P {c, b} t \<and> blkno t c = y \<and> bdata t c = cont s y \<and>
    blkno t b = x \<and> bdata t b = cont s x \<and> cont t = cont s \<and> dsk t = dsk s \<and> trace t = trace s \<and> rest t = rest s"
    using 1 by auto
  moreover have "{b, c} = {c, b}" by (rule insert_commute)
  ultimately show ?thesis
    by (intro exI [of _ b] exI [of _ c] exI [of _ s1] exI [of _ t]) (use 1 in simp)
qed

text \<open>Copy block \<open>y\<close> over block \<open>x\<close>, on the disk too: one entry of the log.\<close>

lemma copy_to_first:
  assumes inv: "inv P {} s" and xy: "x \<noteq> y" and P: "finite P" "x \<notin> P" "y \<in> P" "card P < NBUF"
  shows "\<exists>t. bnd (rd x) (\<lambda>b. bnd (rd y) (\<lambda>c. bnd (gets (\<lambda>s. bdata s c)) (\<lambda>v.
      block [put b v, wr b, rel c, rel b]))) s = Ok () t \<and>
    inv P {} t \<and> cont t = (cont s)(x := cont s y) \<and> dsk t = (dsk s)(x := cont s y) \<and>
    trace t = (x, cont s y) # trace s \<and> rest t = rest s"
proof -
  obtain b c s1 s2 where 1: "rd x s = Ok b s1" "rd y s1 = Ok c s2" "inv P {b, c} s2" "b \<noteq> c"
    "blkno s2 b = x" "blkno s2 c = y" "bdata s2 b = cont s x" "bdata s2 c = cont s y"
    "cont s2 = cont s" "dsk s2 = dsk s" "trace s2 = trace s" "rest s2 = rest s"
    using read_two [OF inv xy] P by blast
  obtain s3 where 3: "put b (cont s y) s2 = Ok () s3" "inv P {b, c} s3" "blkno s3 = blkno s2"
    "bdata s3 = (bdata s2)(b := cont s y)" "cont s3 = (cont s)(x := cont s y)" "dsk s3 = dsk s"
    "trace s3 = trace s" "rest s3 = rest s"
    using put_ok [OF 1(3), of b "cont s y"] 1 by auto
  obtain s4 where 4: "wr b s3 = Ok () s4" "inv P {b, c} s4" "blkno s4 = blkno s2" "bdata s4 = bdata s3"
    "cont s4 = cont s3" "dsk s4 = (dsk s)(x := cont s y)" "trace s4 = (x, cont s y) # trace s" "rest s4 = rest s"
    using wr_ok [OF 3(2), of b] 1 3 by auto
  obtain s5 where 5: "rel c s4 = Ok () s5" "inv P ({b, c} - {c}) s5" "blkno s5 = blkno s2" "bdata s5 = bdata s3"
    "cont s5 = cont s3" "dsk s5 = dsk s4" "trace s5 = trace s4" "rest s5 = rest s"
    using rel_ok [OF 4(2), of c] 1 3 4 P by auto
  have "{b, c} - {c} = {b}" using 1(4) by auto
  then obtain s6 where 6: "rel b s5 = Ok () s6" "inv P {} s6" "cont s6 = cont s3" "dsk s6 = dsk s4"
    "trace s6 = trace s4" "rest s6 = rest s"
    using rel_ok [OF 5(2), of b] 1 3 4 5 by auto
  show ?thesis using 1 3 4 5 6 by (simp add: bnd_def gets_def ret_def)
qed

text \<open>Copy block \<open>x\<close> over block \<open>y\<close>, and unpin it: installing one entry of the log.\<close>

lemma copy_to_second:
  assumes inv: "inv P {} s" and xy: "x \<noteq> y" and P: "finite P" "x \<notin> P" "card P < NBUF"
    "y \<in> P \<or> recovering \<and> card P + 1 < NBUF"
  shows "\<exists>t. bnd (rd x) (\<lambda>b. bnd (rd y) (\<lambda>c. bnd (gets (\<lambda>s. bdata s b)) (\<lambda>v.
      block [put c v, wr c, if_do (\<not> recovering) (unpin c), rel b, rel c]))) s = Ok () t \<and>
    inv (if recovering then P else P - {y}) {} t \<and> cont t = (cont s)(y := cont s x) \<and>
    dsk t = (dsk s)(y := cont s x) \<and> trace t = (y, cont s x) # trace s \<and> rest t = rest s"
proof -
  obtain b c s1 s2 where 1: "rd x s = Ok b s1" "rd y s1 = Ok c s2" "inv P {b, c} s2" "b \<noteq> c"
    "blkno s2 b = x" "blkno s2 c = y" "bdata s2 b = cont s x" "bdata s2 c = cont s y"
    "cont s2 = cont s" "dsk s2 = dsk s" "trace s2 = trace s" "rest s2 = rest s"
    using read_two [OF inv xy] P by blast
  obtain s3 where 3: "put c (cont s x) s2 = Ok () s3" "inv P {b, c} s3" "blkno s3 = blkno s2"
    "bdata s3 = (bdata s2)(c := cont s x)" "cont s3 = (cont s)(y := cont s x)" "dsk s3 = dsk s"
    "trace s3 = trace s" "rest s3 = rest s"
    using put_ok [OF 1(3), of c "cont s x"] 1 by auto
  obtain s4 where 4: "wr c s3 = Ok () s4" "inv P {b, c} s4" "blkno s4 = blkno s2" "bdata s4 = bdata s3"
    "cont s4 = cont s3" "dsk s4 = (dsk s)(y := cont s x)" "trace s4 = (y, cont s x) # trace s" "rest s4 = rest s"
    using wr_ok [OF 3(2), of c] 1 3 by auto
  define P' where "P' = (if recovering then P else P - {y})"
  obtain s5 where 5: "if_do (\<not> recovering) (unpin c) s4 = Ok () s5" "inv P' {b, c} s5" "blkno s5 = blkno s2"
    "bdata s5 = bdata s3" "cont s5 = cont s3" "dsk s5 = dsk s4" "trace s5 = trace s4" "rest s5 = rest s"
    using unpin_ok [OF 4(2), of c] 1 3 4 P by (cases recovering) (auto simp: if_do_def ret_def P'_def)
  have x: "cont s x = dsk s x" using clean [OF inv P(2)] by simp
  obtain s6 where 6: "rel b s5 = Ok () s6" "inv P' ({b, c} - {b}) s6" "blkno s6 = blkno s2" "bdata s6 = bdata s3"
    "cont s6 = cont s3" "dsk s6 = dsk s4" "trace s6 = trace s4" "rest s6 = rest s"
    using rel_ok [OF 5(2), of b] 1 3 4 5 x xy by auto
  have "{b, c} - {b} = {c}" using 1(4) by auto
  then obtain s7 where 7: "rel c s6 = Ok () s7" "inv P' {} s7" "cont s7 = cont s3" "dsk s7 = dsk s4"
    "trace s7 = trace s4" "rest s7 = rest s"
    using rel_ok [OF 6(2), of c] 1 3 4 5 6 by auto
  show ?thesis using 1 3 4 5 6 7 by (simp add: bnd_def gets_def ret_def P'_def)
qed

end

text \<open>The cache of the kernel is such an interface, for every device.\<close>

definition cache_rest :: "'a bio_st_scheme \<Rightarrow> 'a bio_st_scheme" where
  "cache_rest s = s\<lparr>procs := \<lambda>p. (procs s p)\<lparr>p_state := UNUSED\<rparr>, 
     slocks := \<lambda>l. case l of SL_buf b \<Rightarrow> \<lparr>sl_locked = False, sl_pid = 0\<rparr> | SL_inode i \<Rightarrow> slocks s (SL_inode i),
     bufs := \<lambda>_. \<lparr>b_valid = False, b_disk = False, b_dev = 0, b_blockno = 0, b_refcnt = 0, b_prev = 0, b_next = 0,
       b_data = (\<lambda>_. 0)\<rparr>,
     disk := \<lambda>_ _. 0, dtrace := []\<rparr>"

lemma cache_rest_fields:
  assumes "cache_rest t = cache_rest s"
  shows "held t = held s" and "curproc t = curproc s" and "ram t = ram s" and "bio_st.more t = bio_st.more s"
  using arg_cong [OF assms, of held] arg_cong [OF assms, of curproc] arg_cong [OF assms, of ram]
    arg_cong [OF assms, of bio_st.more] by (simp_all add: cache_rest_def)

lemma opened_fields [simp]:
  "b_blockno (bufs (opened d x b s) c) = (if c = b then x else b_blockno (bufs s c))"
  "b_data (bufs (opened d x b s) c) = (if c = b then content d s x else b_data (bufs s c))"
  "disk (opened d x b s) = disk s" "dtrace (opened d x b s) = dtrace s"
  by (simp_all add: opened_def)

lemma cache_rest_opened [simp]: "cache_rest (opened d x b s) = cache_rest s"
  by (simp add: cache_rest_def opened_def)

lemma cache_rest_written [simp]: "cache_rest (written b s) = cache_rest s"
  by (simp add: cache_rest_def written_def)

lemma cache_rest_closed [simp]: "cache_rest (closed b s) = cache_rest s"
proof -
  have "(woken me cn A ps p)\<lparr>p_state := UNUSED\<rparr> = (ps p)\<lparr>p_state := UNUSED\<rparr>" for me cn A ps p
    by (simp add: woken_def)
  then show ?thesis by (simp add: cache_rest_def closed_def)
qed

lemma cache_rest_repinned [simp]: "cache_rest (repinned b r s) = cache_rest s"
  by (simp add: cache_rest_def repinned_def)

lemma content_clean:
  assumes inv: "bcache_inv d P Q s" and "x \<notin> P" and "\<And>b. b \<in> Q \<Longrightarrow> b_blockno (bufs s b) \<noteq> x"
  shows "content d s x = disk s x"
proof (cases "\<exists>c<NBUF. caches (bufs s) d x c \<and> b_valid (bufs s c)")
  case True
  then obtain c where c: "c < NBUF" "caches (bufs s) d x c" "b_valid (bufs s c)" by blast
  note ok = bcache_invD(3) [OF inv]
  have "c \<notin> Q" using assms(3) [of c] c(2) by (auto simp: caches_def)
  then have "b_data (bufs s c) = disk s x"
    using bufs_okD(6) [OF ok c(1)] c assms(2) by (simp add: caches_def)
  then show ?thesis using content_cached [OF ok c] by simp
next
  case False
  then show ?thesis by (intro content_disk) blast
qed

interpretation bcache: block_cache "bcache_inv d" "\<lambda>s b. b_blockno (bufs s b)" "\<lambda>s b. b_data (bufs s b)"
  "content d" disk dtrace cache_rest "bread d" bwrite brelse set_data bunpin for d
proof unfold_locales
  fix P Q x and s :: "'a bio_st_scheme"
  assume "bcache_inv d P Q s" "\<And>b. b \<in> Q \<Longrightarrow> b_blockno (bufs s b) \<noteq> x" "x \<in> P \<or> finite P \<and> card P + card Q < NBUF"
  from bread_ok [OF this] obtain b where b: "bread d x s = Ok b (opened d x b s)" "b \<notin> Q"
    "bcache_inv d P (insert b Q) (opened d x b s)" "content d (opened d x b s) = content d s" by blast
  show "\<exists>b t. bread d x s = Ok b t \<and> b \<notin> Q \<and> bcache_inv d P (insert b Q) t \<and> b_blockno (bufs t b) = x \<and>
      b_data (bufs t b) = content d s x \<and>
      (\<forall>c\<in>Q. b_blockno (bufs t c) = b_blockno (bufs s c) \<and> b_data (bufs t c) = b_data (bufs s c)) \<and>
      content d t = content d s \<and> disk t = disk s \<and> dtrace t = dtrace s \<and> cache_rest t = cache_rest s"
    by (intro exI [of _ b] exI [of _ "opened d x b s"]) (use b in auto)
next
  fix P Q b v and s :: "'a bio_st_scheme"
  assume inv: "bcache_inv d P Q s" "b \<in> Q"
  obtain t where t: "set_data b v s = Ok () t" and eq: "t = s\<lparr>bufs := (bufs s)(b := (bufs s b)\<lparr>b_data := v\<rparr>)\<rparr>"
    by (simp add: set_data_apply)
  show "\<exists>t. set_data b v s = Ok () t \<and> bcache_inv d P Q t \<and> (\<lambda>b. b_blockno (bufs t b)) = (\<lambda>b. b_blockno (bufs s b)) \<and>
      (\<lambda>b. b_data (bufs t b)) = (\<lambda>b. b_data (bufs s b))(b := v) \<and>
      content d t = (content d s)(b_blockno (bufs s b) := v) \<and> disk t = disk s \<and> dtrace t = dtrace s \<and>
      cache_rest t = cache_rest s"
    by (intro exI [of _ t] conjI t set_data_inv [OF inv t]) (simp_all add: eq fun_eq_iff cache_rest_def)
next
  fix P Q b and s :: "'a bio_st_scheme"
  assume inv: "bcache_inv d P Q s" "b \<in> Q"
  show "\<exists>t. bwrite b s = Ok () t \<and> bcache_inv d P Q t \<and> (\<lambda>b. b_blockno (bufs t b)) = (\<lambda>b. b_blockno (bufs s b)) \<and>
      (\<lambda>b. b_data (bufs t b)) = (\<lambda>b. b_data (bufs s b)) \<and> content d t = content d s \<and>
      disk t = (disk s)(b_blockno (bufs s b) := b_data (bufs s b)) \<and>
      dtrace t = (b_blockno (bufs s b), b_data (bufs s b)) # dtrace s \<and> cache_rest t = cache_rest s"
    by (intro exI [of _ "written b s"] conjI bwrite_ok [OF inv]) (simp_all, simp_all add: written_def)
next
  fix P Q b and s :: "'a bio_st_scheme"
  assume inv: "bcache_inv d P Q s" "b \<in> Q"
    "b_blockno (bufs s b) \<in> P \<or> b_data (bufs s b) = disk s (b_blockno (bufs s b))"
  show "\<exists>t. brelse b s = Ok () t \<and> bcache_inv d P (Q - {b}) t \<and>
      (\<lambda>b. b_blockno (bufs t b)) = (\<lambda>b. b_blockno (bufs s b)) \<and>
      (\<lambda>b. b_data (bufs t b)) = (\<lambda>b. b_data (bufs s b)) \<and> content d t = content d s \<and> disk t = disk s \<and>
      dtrace t = dtrace s \<and> cache_rest t = cache_rest s"
    by (intro exI [of _ "closed b s"] conjI brelse_apply [OF inv(1,2)] brelse_inv [OF inv])
      (simp_all, simp_all add: closed_def)
next
  fix P Q b and s :: "'a bio_st_scheme"
  assume inv: "bcache_inv d P Q s" "b \<in> Q" "b_blockno (bufs s b) \<in> P"
  from bunpin_ok [OF this] obtain r where r: "bunpin b s = Ok () (repinned b r s)"
    "bcache_inv d (P - {b_blockno (bufs s b)}) Q (repinned b r s)" by blast
  show "\<exists>t. bunpin b s = Ok () t \<and> bcache_inv d (P - {b_blockno (bufs s b)}) Q t \<and>
      (\<lambda>b. b_blockno (bufs t b)) = (\<lambda>b. b_blockno (bufs s b)) \<and>
      (\<lambda>b. b_data (bufs t b)) = (\<lambda>b. b_data (bufs s b)) \<and> content d t = content d s \<and> disk t = disk s \<and>
      dtrace t = dtrace s \<and> cache_rest t = cache_rest s"
    by (intro exI [of _ "repinned b r s"] conjI r) (simp_all, simp_all add: repinned_def fun_eq_iff)
next
  show "content d s x = disk s x"
    if "bcache_inv d P Q s" "x \<notin> P" "\<And>b. b \<in> Q \<Longrightarrow> b_blockno (bufs s b) \<noteq> x" for P Q s x
    using that by (rule content_clean)
qed

section \<open>binit\<close>

text \<open>One turn of the loop of \<^verbatim>\<open>binit\<close> puts a buffer at the front.\<close>

definition pushed :: "nat \<Rightarrow> (nat \<Rightarrow> buf) \<Rightarrow> (nat \<Rightarrow> buf)" where
  "pushed b bs = next_at bhead b (prev_at (b_next (bs bhead)) b (prev_at b bhead (next_at b (b_next (bs bhead)) bs)))"

lemma pushed_fields [simp]:
  "b_dev (pushed b bs c) = b_dev (bs c)" "b_refcnt (pushed b bs c) = b_refcnt (bs c)"
  "b_blockno (pushed b bs c) = b_blockno (bs c)" "b_disk (pushed b bs c) = b_disk (bs c)"
  by (simp_all add: pushed_def)

lemma pushed_dll:
  assumes "dll bs bhead L bhead" and "distinct L" and "bhead \<notin> set L" and "b \<notin> set L" and "b \<noteq> bhead"
  shows "dll (pushed b bs) bhead (b # L) bhead"
proof -
  have "b_next (bs bhead) \<in> set (L @ [bhead])"
    unfolding dll_first [OF assms(1)] by (rule hd_in_set) simp
  then have "b_next (bs bhead) \<noteq> b" using assms(4,5) by auto
  then show ?thesis
    using assms(5) by (intro push_dll [OF assms(1,2,3,3,4,5,5)]) (simp_all add: pushed_def next_at_def prev_at_def)
qed

definition initialised :: "nat \<Rightarrow> 'a bio_st_scheme \<Rightarrow> 'a bio_st_scheme" where
  "initialised b s = s\<lparr>slocks := (slocks s)(SL_buf b := \<lparr>sl_locked = False, sl_pid = 0\<rparr>),
     bufs := pushed b (bufs s)\<rparr>"

lemma binit_one_apply:
  assumes "b \<noteq> bhead" and "held s = []"
  shows "binit_one b s = Ok () (initialised b s)"
proof -
  have "b_next (prev_at b bhead (next_at b (b_next (bufs s bhead)) (bufs s)) bhead) = b_next (bufs s bhead)"
    using assms(1) by (simp add: prev_at_def next_at_def)
  then show ?thesis
    using assms by (simp add: binit_one_def initsleeplock_def init_lock_def link_front_def bnd_set_next
      bnd_set_prev m_simps initialised_def pushed_def) (simp add: set_next_def next_at_def m_simps)
qed

lemma initialised_all:
  "held (fold initialised L s) = held s" "curproc (fold initialised L s) = curproc s"
  "disk (fold initialised L s) = disk s" "bufs (fold initialised L s) = fold pushed L (bufs s)"
  "slocks (fold initialised L s) (SL_buf b) =
    (if b \<in> set L then \<lparr>sl_locked = False, sl_pid = 0\<rparr> else slocks s (SL_buf b))"
  by (induction L arbitrary: s) (simp_all add: initialised_def)

lemma pushed_all:
  assumes "dll bs bhead M bhead" and "distinct (rev L @ M)" and "bhead \<notin> set (rev L @ M)"
  shows "dll (fold pushed L bs) bhead (rev L @ M) bhead"
  using assms
proof (induction L arbitrary: bs M)
  case (Cons b L)
  have "dll (fold pushed L (pushed b bs)) bhead (rev L @ b # M) bhead"
    by (rule Cons.IH [OF pushed_dll]) (use Cons.prems in auto)
  then show ?case by simp
qed simp

lemma pushed_all_fields:
  "b_dev (fold pushed L bs c) = b_dev (bs c)" "b_refcnt (fold pushed L bs c) = b_refcnt (bs c)"
  "b_blockno (fold pushed L bs c) = b_blockno (bs c)" "b_disk (fold pushed L bs c) = b_disk (bs c)"
  by (induction L arbitrary: bs) simp_all

text \<open>The buffers as the loader leaves them: \<^verbatim>\<open>bcache\<close> is in the zeroed data of the kernel.\<close>

definition bss_zero :: "'a bio_st_scheme \<Rightarrow> bool" where
  "bss_zero s \<longleftrightarrow> (\<forall>b<NBUF. b_dev (bufs s b) = 0 \<and> b_refcnt (bufs s b) = 0)"

definition cache_start :: "'a bio_st_scheme \<Rightarrow> 'a bio_st_scheme" where
  "cache_start s = fold initialised [0..<NBUF] (s\<lparr>held := [], bufs := next_at bhead bhead (prev_at bhead bhead (bufs s))\<rparr>)"

lemma binit_apply:
  assumes "held s = []"
  shows "binit s = Ok () (cache_start s)"
proof -
  have "for_each [0..<NBUF] binit_one (s\<lparr>held := [], bufs := next_at bhead bhead (prev_at bhead bhead (bufs s))\<rparr>) =
      Ok () (cache_start s)"
    unfolding cache_start_def
    by (rule for_each_fold(1) [where I = "\<lambda>s. held s = []"])
      (simp_all add: binit_one_apply, simp_all add: initialised_def)
  then show ?thesis using assms by (simp add: binit_def init_lock_def bnd_set_next bnd_set_prev m_simps)
qed

lemma cache_start_fields:
  "b_dev (bufs (cache_start s) c) = b_dev (bufs s c)" "b_refcnt (bufs (cache_start s) c) = b_refcnt (bufs s c)"
  "b_blockno (bufs (cache_start s) c) = b_blockno (bufs s c)" "b_disk (bufs (cache_start s) c) = b_disk (bufs s c)"
  "disk (cache_start s) = disk s" "held (cache_start s) = []" "curproc (cache_start s) = curproc s"
  "c < NBUF \<Longrightarrow> \<not> sl_locked (slocks (cache_start s) (SL_buf c))"
  by (simp_all add: cache_start_def initialised_all pushed_all_fields)

lemma cache_start_ring: "ring (bufs (cache_start s)) (rev [0..<NBUF])"
proof -
  have "dll (next_at bhead bhead (prev_at bhead bhead (bufs s))) bhead [] bhead"
    by (simp add: next_at_def prev_at_def)
  from pushed_all [OF this, of "[0..<NBUF]"] show ?thesis
    by (simp add: ring_def cache_start_def initialised_all lessThan_atLeast0)
qed

lemma cache_start_empty:
  "bss_zero s \<Longrightarrow> d \<noteq> 0 \<Longrightarrow> c < NBUF \<Longrightarrow> \<not> caches (bufs (cache_start s)) d x c"
  by (auto simp: caches_def cache_start_fields bss_zero_def)

lemma binit_inv:
  assumes "bss_zero s" and "held s = []" and "curproc s = Some p" and "d \<noteq> 0"
  shows "binit s = Ok () (cache_start s)" and "bcache_inv d {} {} (cache_start s)"
    and "content d (cache_start s) = disk s"
proof -
  show "binit s = Ok () (cache_start s)" by (rule binit_apply) fact
  note no = cache_start_empty [OF assms(1,4)]
  have "bufs_ok d {} {} (bufs (cache_start s)) (disk (cache_start s))"
    using cache_start_ring [of s] no assms(1,4)
    by (auto simp: bufs_ok_def pinned_def cache_start_fields bss_zero_def)
  then show "bcache_inv d {} {} (cache_start s)"
    using assms(3) by (simp add: bcache_inv_def locks_free_def open_locked_def cache_start_fields)
  show "content d (cache_start s) = disk s"
    using no by (intro ext) (subst content_disk, auto simp: cache_start_fields)
qed

section \<open>Properties\<close>


definition proc_zero :: proc where
  "proc_zero = \<lparr>p_state = UNUSED, p_chan = None, p_killed = False, p_xstate = 0, p_pid = 0, p_parent = None,
     p_kstack = 0, p_sz = 0, p_pagetable = 0, p_trapframe = 0,
     p_context = \<lparr>c_ra = 0, c_sp = 0, c_sregs = []\<rparr>, p_ofile = (\<lambda>_. None), p_cwd = None, p_name = (\<lambda>_. 0)\<rparr>"

definition buf_zero :: buf where
  "buf_zero = \<lparr>b_valid = False, b_disk = False, b_dev = 0, b_blockno = 0, b_refcnt = 0, b_prev = 0, b_next = 0,
     b_data = (\<lambda>_. 0)\<rparr>"

definition bio_zero :: bio_st where
  "bio_zero = \<lparr>end_sym = 0x80021000, etext_sym = 0x80008000, trampoline_sym = 0x80007000, held = [],
     pr_locking = False, tty = [], ram = (\<lambda>_. 0), freelist = 0, kernel_pagetable = 0, satp = 0,
     procs = (\<lambda>p. proc_zero\<lparr>p_pid := of_nat p + 1, p_state := (if p = 0 then RUNNING else UNUSED)\<rparr>),
     curproc = Some 0, nextpid = 2, initproc = Some 0, ticks = 0, forkret_sym = 0, klocal = (\<lambda>_. 0),
     devsw_tab = (\<lambda>_. \<lparr>dev_read = None, dev_write = None\<rparr>),
     uart_tx_buf = (\<lambda>_. 0), uart_tx_w = 0, uart_tx_r = 0, uart_rx = [], uart_ctl = [],
     lsr_idle = (\<lambda>_. True), lsr_reads = 0, cons_buf = (\<lambda>_. 0), cons_r = 0, cons_w = 0, cons_e = 0,
     slocks = (\<lambda>_. \<lparr>sl_locked = False, sl_pid = 0\<rparr>), bufs = (\<lambda>_. buf_zero),
     disk = (\<lambda>x i. if x < 32 then 0 else of_nat (unat x + i)), dtrace = []\<rparr>"

lemma bio_zero_boot:
  "bss_zero bio_zero" "held bio_zero = []" "curproc bio_zero = Some 0"
  by (simp_all add: bss_zero_def bio_zero_def buf_zero_def)


definition bio_demo :: bio_st where
  "bio_demo = cache_start bio_zero"

lemma bio_demo_inv: "bcache_inv 1 {} {} bio_demo" "content 1 bio_demo = disk bio_zero"
  "ring (bufs bio_demo) (rev [0..<NBUF])" "c < NBUF \<Longrightarrow> \<not> caches (bufs bio_demo) 1 x c"
  using binit_inv(2,3) [OF bio_zero_boot, of 1] cache_start_ring cache_start_empty [OF bio_zero_boot(1), of 1]
  by (simp_all add: bio_demo_def)

text \<open>
  C4: \<^verbatim>\<open>bread\<close> returns a locked buffer of the block asked for, holding what the kernel last stored in that
  block (the disk's content if it is not cached), whenever the block is not already open and a
  buffer can be had; nothing is written to the disk and no block changes for a reader.
\<close>

theorem bread_sees_content:
  assumes "bcache_inv d P Q s" and "\<And>b. b \<in> Q \<Longrightarrow> b_blockno (bufs s b) \<noteq> x"
    and "x \<in> P \<or> finite P \<and> card P + card Q < NBUF"
  shows "\<exists>b t. bread d x s = Ok b t \<and> b \<notin> Q \<and> bcache_inv d P (insert b Q) t \<and>
    b_blockno (bufs t b) = x \<and> b_data (bufs t b) = content d s x \<and>
    (\<forall>c\<in>Q. b_blockno (bufs t c) = b_blockno (bufs s c) \<and> b_data (bufs t c) = b_data (bufs s c)) \<and>
    content d t = content d s \<and> disk t = disk s \<and> dtrace t = dtrace s \<and> cache_rest t = cache_rest s"
  using assms by (rule bcache.rd_ok)

theorem bread_sees_content_witness:
  "\<exists>b t. bread 1 7 bio_demo = Ok b t \<and> b_data (bufs t b) = disk bio_zero 7"
  using bread_sees_content [OF bio_demo_inv(1), of 7] bio_demo_inv(2) by (auto simp: NBUF_def MAXOPBLOCKS_def)

text \<open>
  C5: The list is kept in order of last use: a buffer whose last reference \<^verbatim>\<open>brelse\<close> drops moves to the
  front, and a block that is not cached gets the unreferenced buffer nearest the end.
\<close>

theorem bcache_lru:
  assumes "bcache_inv d P Q s" and "ring (bufs s) L"
  shows "(b \<in> Q \<and> b_refcnt (bufs s b) = 1 \<longrightarrow> (\<exists>t. brelse b s = Ok () t \<and> ring (bufs t) (b # remove1 b L))) \<and>
    ((\<forall>c<NBUF. \<not> caches (bufs s) d x c) \<and> finite P \<and> card P + card Q < NBUF \<longrightarrow>
      (\<exists>t. bread d x s = Ok (last (filter (\<lambda>b. b_refcnt (bufs s b) = 0) L)) t))"
  using brelse_front [OF assms] bread_miss [OF assms] by blast

theorem bcache_lru_witness:
  "\<exists>t. bread 1 7 bio_demo = Ok (last (filter (\<lambda>b. b_refcnt (bufs bio_demo b) = 0) (rev [0..<NBUF]))) t"
  using bcache_lru [OF bio_demo_inv(1,3), of _ 7] bio_demo_inv(4) by (auto simp: NBUF_def MAXOPBLOCKS_def)

end
