(* ===== verification/Crash.thy ===== *)
theory Crash
  imports Log BufCache
begin

text \<open>
  Crashes and the write-ahead log of \<^verbatim>\<open>kernel/log.c\<close>, over the block cache. A crash keeps the disk after some
  prefix of the blocks written so far and nothing else. The writes of \<^verbatim>\<open>commit\<close> and of \<^verbatim>\<open>recover_from_log\<close> are
  computed exactly (\<open>commit_ws\<close>, \<open>recover_ws\<close>), a disk is given the home blocks it means (\<open>replay\<close> of the
  header it holds), and each prefix of the writes means the home blocks before or after the
  transaction. At the end, what \<^verbatim>\<open>begin_op\<close> promises is compared with what \<^verbatim>\<open>log_write\<close> accepts.
\<close>

section \<open>The log on the disk\<close>

text \<open>The blocks of the log: the header and the blocks after it, \<open>LOGSIZE\<close> in all.\<close>

definition in_log :: "u32 \<Rightarrow> u32 \<Rightarrow> bool" where
  "in_log S x \<longleftrightarrow> unat (x - S) < LOGSIZE"

definition log_blk :: "u32 \<Rightarrow> nat \<Rightarrow> u32" where
  "log_blk S i = S + of_nat i + 1"

definition hdr_blocks :: "blk \<Rightarrow> u32 list" where
  "hdr_blocks d = map (lh_block d) [0..<nat (lh_n d)]"

text \<open>
  What the disk means: the home blocks after the transaction in the header, if there is one, has
  been installed.
\<close>

definition replay :: "u32 \<Rightarrow> (u32 \<Rightarrow> blk) \<Rightarrow> u32 \<Rightarrow> blk" where
  "replay S D x =
     (case find (\<lambda>i. hdr_blocks (D S) ! i = x) [0..<length (hdr_blocks (D S))] of
        Some i \<Rightarrow> D (log_blk S i)
      | None \<Rightarrow> D x)"

definition same_home :: "u32 \<Rightarrow> (u32 \<Rightarrow> blk) \<Rightarrow> (u32 \<Rightarrow> blk) \<Rightarrow> bool" where
  "same_home S D E \<longleftrightarrow> (\<forall>x. \<not> in_log S x \<longrightarrow> D x = E x)"

definition apply_writes :: "(u32 \<times> blk) list \<Rightarrow> (u32 \<Rightarrow> blk) \<Rightarrow> (u32 \<Rightarrow> blk)" where
  "apply_writes ws D = fold (\<lambda>(x, v) D. D(x := v)) ws D"

lemma apply_writes_simps [simp]:
  "apply_writes [] D = D"
  "apply_writes (w # ws) D = apply_writes ws (D(fst w := snd w))"
  "apply_writes (vs @ ws) D = apply_writes ws (apply_writes vs D)"
  by (simp_all add: apply_writes_def case_prod_unfold)

lemma apply_writes_other: "x \<notin> fst ` set ws \<Longrightarrow> apply_writes ws D x = D x"
  by (induction ws arbitrary: D) auto

lemma apply_writes_cong: "D x = E x \<Longrightarrow> apply_writes ws D x = apply_writes ws E x"
proof (induction ws arbitrary: D E)
  case (Cons w ws)
  have "apply_writes ws (D(fst w := snd w)) x = apply_writes ws (E(fst w := snd w)) x"
    by (rule Cons.IH) (simp add: Cons.prems)
  then show ?case by simp
qed simp

lemma apply_writes_last:
  "distinct (map fst ws) \<Longrightarrow> (x, v) \<in> set ws \<Longrightarrow> apply_writes ws D x = v"
proof (induction ws arbitrary: D)
  case (Cons w ws)
  then show ?case by (cases "(x, v) = w") (auto simp: apply_writes_other rev_image_eqI)
qed simp

section \<open>The header block\<close>

lemma put_lh_blocks_before:
  "off + n \<le> 4 + 4 * i \<Longrightarrow> rdb (put_lh_blocks d i bs) off n = rdb d off n"
  by (induction bs arbitrary: d i) (auto simp: rdb_wrb_disjoint)

lemma put_lh_blocks_nth:
  "j < length bs \<Longrightarrow> lh_block (put_lh_blocks d i bs) (i + j) = bs ! j"
proof (induction bs arbitrary: d i j)
  case (Cons b bs)
  show ?case
  proof (cases j)
    case 0
    then show ?thesis
      by (simp add: lh_block_def put_lh_blocks_before rdb_wrb_same)
  next
    case (Suc k)
    then show ?thesis using Cons.IH [of k _ "Suc i"] Cons.prems by simp
  qed
qed simp

lemma lh_n_put:
  assumes "length bs \<le> LOGSIZE"
  shows "lh_n (put_lh d bs) = int (length bs)"
proof -
  have "lh_n (put_lh d bs) = sint (of_nat (length bs) :: u32)"
    by (simp add: lh_n_def put_lh_def put_lh_blocks_before rdb_wrb_same)
  also have "\<dots> = int (length bs)"
    using assms by (simp add: LOGSIZE_def MAXOPBLOCKS_def signed_of_nat signed_take_bit_int_eq_self)
  finally show ?thesis .
qed

lemma lh_block_put: "i < length bs \<Longrightarrow> lh_block (put_lh d bs) i = bs ! i"
  using put_lh_blocks_nth [of i bs _ 0] by (simp add: put_lh_def)

lemma hdr_blocks_put: "length bs \<le> LOGSIZE \<Longrightarrow> hdr_blocks (put_lh d bs) = bs"
  by (rule nth_equalityI) (simp_all add: hdr_blocks_def lh_n_put lh_block_put)

lemma replay_empty: "hdr_blocks (D S) = [] \<Longrightarrow> replay S D = D"
  by (simp add: replay_def fun_eq_iff)

lemma find_index:
  assumes "distinct xs" and "i < length xs"
  shows "find (\<lambda>j. xs ! j = xs ! i) [0..<length xs] = Some i"
  using assms by (intro find_unique) (auto simp: nth_eq_iff_index_eq)

lemma replay_nth:
  assumes "hdr_blocks (D S) = bs" and "distinct bs" and "i < length bs"
  shows "replay S D (bs ! i) = D (log_blk S i)"
  using assms find_index [OF assms(2,3)] by (simp add: replay_def)

lemma replay_other:
  assumes "x \<notin> set (hdr_blocks (D S))"
  shows "replay S D x = D x"
proof -
  have "find (\<lambda>i. hdr_blocks (D S) ! i = x) [0..<length (hdr_blocks (D S))] = None"
    using assms by (auto simp: find_None_iff)
  then show ?thesis by (simp add: replay_def)
qed

section \<open>Log blocks and home blocks\<close>

lemma log_blk_in_log:
  assumes "Suc i < LOGSIZE"
  shows "in_log S (log_blk S i)" and "log_blk S i \<noteq> S"
proof -
  have eq: "log_blk S i - S = of_nat (Suc i)" by (simp add: log_blk_def)
  have u: "unat (of_nat (Suc i) :: u32) = Suc i"
    using assms by (simp add: LOGSIZE_def MAXOPBLOCKS_def unsigned_of_nat take_bit_nat_eq_self del: of_nat_Suc)
  then show "in_log S (log_blk S i)" using assms unfolding in_log_def eq by simp
  show "log_blk S i \<noteq> S"
  proof
    assume "log_blk S i = S"
    then have "(of_nat (Suc i) :: u32) = 0" using eq by simp
    then show False using u by simp
  qed
qed

lemma log_blk_inj:
  assumes "i < LOGSIZE" and "j < LOGSIZE" and "log_blk S i = log_blk S j"
  shows "i = j"
proof -
  have "(of_nat i :: u32) = of_nat j" using assms(3) by (simp add: log_blk_def)
  then have "unat (of_nat i :: u32) = unat (of_nat j :: u32)" by simp
  then show ?thesis
    using assms(1,2) by (simp add: LOGSIZE_def MAXOPBLOCKS_def unsigned_of_nat take_bit_nat_eq_self)
qed

lemma in_log_start [simp]: "in_log S S"
  by (simp add: in_log_def LOGSIZE_def MAXOPBLOCKS_def)

text \<open>A transaction: distinct home blocks, fewer than \<open>LOGSIZE\<close> of them.\<close>

definition trans_ok :: "u32 \<Rightarrow> u32 list \<Rightarrow> bool" where
  "trans_ok S bs \<longleftrightarrow> distinct bs \<and> length bs < LOGSIZE \<and> (\<forall>x\<in>set bs. \<not> in_log S x)"

text \<open>The writes of a transaction: its log blocks, and its home blocks.\<close>

definition log_ws :: "u32 \<Rightarrow> u32 list \<Rightarrow> (u32 \<Rightarrow> blk) \<Rightarrow> nat \<Rightarrow> (u32 \<times> blk) list" where
  "log_ws S bs C k = map (\<lambda>i. (log_blk S i, C (bs ! i))) [0..<k]"

definition home_ws :: "u32 list \<Rightarrow> (u32 \<Rightarrow> blk) \<Rightarrow> nat \<Rightarrow> (u32 \<times> blk) list" where
  "home_ws bs C k = map (\<lambda>i. (bs ! i, C (bs ! i))) [0..<k]"

lemma ws_Suc [simp]:
  "log_ws S bs C (Suc k) = log_ws S bs C k @ [(log_blk S k, C (bs ! k))]"
  "home_ws bs C (Suc k) = home_ws bs C k @ [(bs ! k, C (bs ! k))]"
  by (simp_all add: log_ws_def home_ws_def)

lemma ws_0 [simp]: "log_ws S bs C 0 = []" "home_ws bs C 0 = []"
  by (simp_all add: log_ws_def home_ws_def)

lemma log_ws_home:
  assumes "k < LOGSIZE" and "\<not> in_log S x"
  shows "apply_writes (log_ws S bs C k) D x = D x"
  using assms log_blk_in_log by (intro apply_writes_other) (auto simp: log_ws_def)

lemma log_ws_head:
  assumes "k < LOGSIZE"
  shows "apply_writes (log_ws S bs C k) D S = D S"
proof (rule apply_writes_other)
  have "S \<noteq> log_blk S i" if "i < k" for i using log_blk_in_log(2) [of i S] assms that by simp
  then show "S \<notin> fst ` set (log_ws S bs C k)" by (auto simp: log_ws_def)
qed

lemma log_ws_blk:
  assumes "k < LOGSIZE" and "i < k"
  shows "apply_writes (log_ws S bs C k) D (log_blk S i) = C (bs ! i)"
proof (rule apply_writes_last)
  show "distinct (map fst (log_ws S bs C k))"
    using assms log_blk_inj [of _ _ S] by (auto simp: log_ws_def distinct_map inj_on_def comp_def)
  show "(log_blk S i, C (bs ! i)) \<in> set (log_ws S bs C k)"
    using assms(2) by (auto simp: log_ws_def)
qed

lemma home_ws_log:
  assumes "trans_ok S bs" and "k \<le> length bs" and "in_log S x"
  shows "apply_writes (home_ws bs C k) D x = D x"
  using assms by (intro apply_writes_other) (auto simp: home_ws_def trans_ok_def)

lemma home_ws_nth:
  assumes "trans_ok S bs" and "k \<le> length bs" and "i < k"
  shows "apply_writes (home_ws bs C k) D (bs ! i) = C (bs ! i)"
proof (rule apply_writes_last)
  show "distinct (map fst (home_ws bs C k))"
    using assms by (auto simp: home_ws_def trans_ok_def distinct_map inj_on_def comp_def nth_eq_iff_index_eq)
  show "(bs ! i, C (bs ! i)) \<in> set (home_ws bs C k)" using assms(3) by (auto simp: home_ws_def)
qed

section \<open>The routines of the log\<close>

text \<open>\<open>wrote d P ws s t\<close>: from \<open>s\<close> to \<open>t\<close> the blocks \<open>ws\<close> were written, in this order, and \<open>P\<close> stay pinned.\<close>

definition wrote :: "u32 \<Rightarrow> u32 set \<Rightarrow> (u32 \<times> blk) list \<Rightarrow> 'a bio_st_scheme \<Rightarrow> 'a bio_st_scheme \<Rightarrow> bool" where
  "wrote d P ws s t \<longleftrightarrow> bcache_inv d P {} t \<and> content d t = apply_writes ws (content d s) \<and>
     disk t = apply_writes ws (disk s) \<and> dtrace t = rev ws @ dtrace s \<and> cache_rest t = cache_rest s"

lemma wrote_refl: "bcache_inv d P {} s \<Longrightarrow> wrote d P [] s s"
  by (simp add: wrote_def)

lemma wrote_trans: "wrote d P vs s t \<Longrightarrow> wrote d P' ws t u \<Longrightarrow> wrote d P' (vs @ ws) s u"
  by (simp add: wrote_def)

lemma log_frame:
  fixes s t :: "'a log_st_scheme"
  assumes "cache_rest t = cache_rest s"
  shows "lh t = lh s" and "log_start t = log_start s" and "log_dev t = log_dev s"
  using arg_cong [OF assms, of lh] arg_cong [OF assms, of log_start] arg_cong [OF assms, of log_dev]
  by (simp_all add: cache_rest_def)

lemma wrote_rest: "wrote d P ws s t \<Longrightarrow> cache_rest t = cache_rest s"
  by (simp add: wrote_def)

lemma bnd_buf_data: "bnd (gets (\<lambda>s. b_data (bufs s b))) k = bnd (get_buf b) (\<lambda>bf. k (b_data bf))"
  by (rule ext) (simp add: m_simps)

lemma trans_card: "trans_ok S bs \<Longrightarrow> card (set bs) < NBUF"
  by (simp add: trans_ok_def distinct_card LOGSIZE_def NBUF_def)

text \<open>\<^verbatim>\<open>write_log\<close> copies every pinned block to its place in the log.\<close>

lemma write_log_ok:
  assumes inv: "bcache_inv d (set bs) {} s" and tr: "trans_ok S bs"
    and s: "lh s = bs" "log_start s = S" "log_dev s = d"
  shows "\<exists>t. write_log s = Ok () t \<and> wrote d (set bs) (log_ws S bs (content d s) (length bs)) s t"
proof -
  let ?body = "\<lambda>tail. bnd (gets log_dev) (\<lambda>dev. bnd (gets log_start) (\<lambda>start.
    bnd (bread dev (start + of_nat tail + 1)) (\<lambda>to. bnd (bread dev (bs ! tail)) (\<lambda>from.
    bnd (get_buf from) (\<lambda>f. block [set_data to (b_data f), bwrite to, brelse from, brelse to])))))"
  have "\<exists>t. for_each [0..<length bs] ?body s = Ok () t \<and> wrote d (set bs) (log_ws S bs (content d s) (length bs)) s t"
  proof (rule for_each_upt)
    show "wrote d (set bs) (log_ws S bs (content d s) 0) s s" using inv by (simp add: wrote_refl)
    fix i t assume i: "i < length bs" and I: "wrote d (set bs) (log_ws S bs (content d s) i) s t"
    have k: "i < LOGSIZE" "Suc i < LOGSIZE" using i tr by (simp_all add: trans_ok_def)
    have home: "\<not> in_log S (bs ! i)" and log: "in_log S (log_blk S i)"
      using tr i log_blk_in_log [OF k(2)] by (simp_all add: trans_ok_def)
    have c: "content d t (bs ! i) = content d s (bs ! i)"
      using I log_ws_home [OF k(1) home] by (simp add: wrote_def)
    have "\<exists>u. bnd (bread d (log_blk S i)) (\<lambda>b. bnd (bread d (bs ! i)) (\<lambda>c.
        bnd (gets (\<lambda>s. b_data (bufs s c))) (\<lambda>v. block [set_data b v, bwrite b, brelse c, brelse b]))) t = Ok () u \<and>
      bcache_inv d (set bs) {} u \<and> content d u = (content d t)(log_blk S i := content d t (bs ! i)) \<and>
      disk u = (disk t)(log_blk S i := content d t (bs ! i)) \<and>
      dtrace u = (log_blk S i, content d t (bs ! i)) # dtrace t \<and> cache_rest u = cache_rest t"
      by (rule bcache.copy_to_first) (use I home log i tr trans_card [OF tr] in \<open>auto simp: wrote_def trans_ok_def\<close>)
    then obtain u where r: "bnd (bread d (log_blk S i)) (\<lambda>b. bnd (bread d (bs ! i)) (\<lambda>c. bnd (get_buf c) (\<lambda>f.
        block [set_data b (b_data f), bwrite b, brelse c, brelse b]))) t = Ok () u"
      and u: "wrote d (set bs) [(log_blk S i, content d s (bs ! i))] t u"
      unfolding bnd_buf_data c by (auto simp only: wrote_def apply_writes_simps fst_conv snd_conv rev.simps append.simps)
    have "log_start t = S" "log_dev t = d" using log_frame [OF wrote_rest [OF I]] s by simp_all
    then have "?body i t = Ok () u" using r by (simp only: bnd_gets log_blk_def)
    then show "\<exists>u. ?body i t = Ok () u \<and> wrote d (set bs) (log_ws S bs (content d s) (Suc i)) s u"
      using wrote_trans [OF I u] by simp
  qed
  then show ?thesis using s by (simp add: write_log_def m_simps)
qed

text \<open>\<^verbatim>\<open>write_head\<close> stores the in-memory header in the first block of the log.\<close>

lemma write_head_ok:
  assumes inv: "bcache_inv d P {} s" and P: "S \<notin> P" "finite P" "card P < NBUF"
    and s: "lh s = bs" "log_start s = S" "log_dev s = d"
  shows "\<exists>t. write_head s = Ok () t \<and> wrote d P [(S, put_lh (content d s S) bs)] s t"
proof -
  obtain t where t: "bnd (bread d S) (\<lambda>b. bnd (get_buf b) (\<lambda>bf.
      block [set_data b (put_lh (b_data bf) bs), bwrite b, brelse b])) s = Ok () t"
    and w: "wrote d P [(S, put_lh (content d s S) bs)] s t"
    using bcache.update_block [OF inv P, where f = "\<lambda>v. put_lh v bs"]
    unfolding bnd_buf_data by (auto simp only: wrote_def apply_writes_simps fst_conv snd_conv rev.simps append.simps)
  obtain b s1 where 1: "bread d S s = Ok b s1" "cache_rest s1 = cache_rest s"
    using bcache.rd_ok [OF inv, of S] P by force
  have "bnd (bread d S) k s = k b s1" for k :: "nat \<Rightarrow> (unit, 'a log_st_scheme) m"
    using 1(1) by (simp add: bnd_def)
  moreover have "lh s1 = bs" using log_frame [OF 1(2)] s by simp
  ultimately have "write_head s = Ok () t"
    using t s by (simp add: write_head_def bnd_gets bnd_get_buf)
  then show ?thesis using w by blast
qed

text \<open>\<^verbatim>\<open>install_trans\<close> copies the log blocks home, unpinning each block unless it recovers.\<close>

definition inst_ws :: "u32 \<Rightarrow> u32 list \<Rightarrow> (u32 \<Rightarrow> blk) \<Rightarrow> nat \<Rightarrow> (u32 \<times> blk) list" where
  "inst_ws S bs C k = map (\<lambda>i. (bs ! i, C (log_blk S i))) [0..<k]"

lemma inst_ws_log:
  assumes "trans_ok S bs" and "k \<le> length bs" and "in_log S x"
  shows "apply_writes (inst_ws S bs C k) D x = D x"
  using assms by (intro apply_writes_other) (auto simp: inst_ws_def trans_ok_def)

lemma inst_ws_nth:
  assumes "trans_ok S bs" and "i < length bs"
  shows "apply_writes (inst_ws S bs C (length bs)) D (bs ! i) = C (log_blk S i)"
proof (rule apply_writes_last)
  show "distinct (map fst (inst_ws S bs C (length bs)))"
    using assms by (auto simp: inst_ws_def trans_ok_def distinct_map inj_on_def comp_def nth_eq_iff_index_eq)
  show "(bs ! i, C (log_blk S i)) \<in> set (inst_ws S bs C (length bs))" using assms(2) by (auto simp: inst_ws_def)
qed

definition still_pinned :: "bool \<Rightarrow> u32 list \<Rightarrow> nat \<Rightarrow> u32 set" where
  "still_pinned recovering bs i = (if recovering then {} else set (drop i bs))"

lemma still_pinned_Suc:
  assumes "distinct bs" and "i < length bs"
  shows "still_pinned recovering bs (Suc i) =
    (if recovering then still_pinned recovering bs i else still_pinned recovering bs i - {bs ! i})"
proof -
  have "distinct (drop i bs)" using assms(1) by simp
  then have "bs ! i \<notin> set (drop (Suc i) bs)" using Cons_nth_drop_Suc [OF assms(2)] by (metis distinct.simps(2))
  moreover have "set (drop i bs) = insert (bs ! i) (set (drop (Suc i) bs))"
    using Cons_nth_drop_Suc [OF assms(2)] by (metis list.simps(15))
  ultimately show ?thesis by (auto simp: still_pinned_def)
qed

lemma still_pinned_all: "still_pinned recovering bs (length bs) = {}"
  by (simp add: still_pinned_def)

lemma still_pinned_sub: "still_pinned recovering bs i \<subseteq> set bs"
  by (auto simp: still_pinned_def dest: in_set_dropD)

lemma install_step:
  assumes inv: "bcache_inv d (still_pinned recovering bs i) {} t" and tr: "trans_ok S bs" and i: "i < length bs"
  shows "\<exists>u. bnd (bread d (log_blk S i)) (\<lambda>l. bnd (bread d (bs ! i)) (\<lambda>c. bnd (get_buf l) (\<lambda>bf.
      block [set_data c (b_data bf), bwrite c, if_do (\<not> recovering) (bunpin c), brelse l, brelse c]))) t = Ok () u \<and>
    wrote d (still_pinned recovering bs (Suc i)) [(bs ! i, content d t (log_blk S i))] t u"
proof -
  have k: "Suc i < LOGSIZE" and dist: "distinct bs" using i tr by (simp_all add: trans_ok_def)
  have home: "\<not> in_log S x" if "x \<in> set bs" for x using tr that by (simp add: trans_ok_def)
  have log: "in_log S (log_blk S i)" using log_blk_in_log [OF k] by simp
  let ?P = "still_pinned recovering bs i"
  have P: "finite ?P" "log_blk S i \<notin> ?P" "card ?P < NBUF"
    using still_pinned_sub [of recovering bs i] home log trans_card [OF tr] finite_subset
      card_mono [of "set bs" ?P] by fastforce+
  have "bs ! i \<in> ?P \<or> recovering \<and> card ?P + 1 < NBUF"
  proof (cases recovering)
    case False
    have "bs ! i = drop i bs ! 0" using i by simp
    also have "\<dots> \<in> set (drop i bs)" using i by (intro nth_mem) simp
    finally show ?thesis using False by (simp add: still_pinned_def)
  qed (simp add: still_pinned_def NBUF_def MAXOPBLOCKS_def)
  moreover have "log_blk S i \<noteq> bs ! i" using home log i by auto
  ultimately show ?thesis
    using bcache.copy_to_second [OF inv _ P, of "bs ! i" recovering]
    unfolding bnd_buf_data still_pinned_Suc [OF dist i]
    by (auto simp only: wrote_def apply_writes_simps fst_conv snd_conv rev.simps append.simps)
qed

lemma install_ok:
  assumes inv: "bcache_inv d (still_pinned recovering bs 0) {} s" and tr: "trans_ok S bs"
    and s: "lh s = bs" "log_start s = S" "log_dev s = d"
  shows "\<exists>t. install_trans recovering s = Ok () t \<and> wrote d {} (inst_ws S bs (content d s) (length bs)) s t"
proof -
  let ?body = "\<lambda>tail. bnd (gets log_dev) (\<lambda>dev. bnd (gets log_start) (\<lambda>start.
    bnd (bread dev (start + of_nat tail + 1)) (\<lambda>lbuf. bnd (bread dev (bs ! tail)) (\<lambda>dbuf.
    bnd (get_buf lbuf) (\<lambda>l. block [set_data dbuf (b_data l), bwrite dbuf,
      if_do (\<not> recovering) (bunpin dbuf), brelse lbuf, brelse dbuf])))))"
  let ?I = "\<lambda>i t. wrote d (still_pinned recovering bs i) (inst_ws S bs (content d s) i) s t"
  have "\<exists>t. for_each [0..<length bs] ?body s = Ok () t \<and> ?I (length bs) t"
  proof (rule for_each_upt)
    show "?I 0 s" using inv by (simp add: wrote_refl inst_ws_def)
    fix i t assume i: "i < length bs" and I: "?I i t"
    have "Suc i < LOGSIZE" using i tr by (simp add: trans_ok_def)
    then have "content d t (log_blk S i) = content d s (log_blk S i)"
      using I inst_ws_log [OF tr _ log_blk_in_log(1)] i by (simp add: wrote_def)
    with I install_step [OF _ tr i, of d recovering t] obtain u where
      r: "bnd (bread d (log_blk S i)) (\<lambda>l. bnd (bread d (bs ! i)) (\<lambda>c. bnd (get_buf l) (\<lambda>bf.
        block [set_data c (b_data bf), bwrite c, if_do (\<not> recovering) (bunpin c), brelse l, brelse c]))) t = Ok () u"
      and u: "wrote d (still_pinned recovering bs (Suc i)) [(bs ! i, content d s (log_blk S i))] t u"
      by (auto simp: wrote_def)
    have "log_start t = S" "log_dev t = d" using log_frame [OF wrote_rest [OF I]] s by simp_all
    then have "?body i t = Ok () u" using r by (simp only: bnd_gets log_blk_def)
    then show "\<exists>u. ?body i t = Ok () u \<and> ?I (Suc i) u"
      using wrote_trans [OF I u] by (simp add: inst_ws_def)
  qed
  then show ?thesis using s by (simp add: install_trans_def bnd_gets still_pinned_all)
qed

text \<open>The log's own fields do not concern the cache.\<close>

lemma cache_lh [simp]:
  "bcache_inv d P Q (s\<lparr>lh := v\<rparr>) = bcache_inv d P Q s" "content d (s\<lparr>lh := v\<rparr>) = content d s"
  "cache_rest (s\<lparr>lh := v\<rparr>) = (cache_rest s)\<lparr>lh := v\<rparr>"
  by (simp_all add: bcache_inv_def locks_free_def open_locked_def content_def fun_eq_iff cache_rest_def
      split: option.split)

lemma bnd_run: "c s = Ok a t \<Longrightarrow> bnd c k s = k a t"
  by (simp add: bnd_def)

section \<open>Committing\<close>

text \<open>The blocks \<^verbatim>\<open>commit\<close> writes, in order.\<close>

definition commit_ws :: "u32 \<Rightarrow> u32 list \<Rightarrow> (u32 \<Rightarrow> blk) \<Rightarrow> (u32 \<times> blk) list" where
  "commit_ws S bs C =
     log_ws S bs C (length bs) @ [(S, put_lh (C S) bs)] @ home_ws bs C (length bs) @
     [(S, put_lh (put_lh (C S) bs) [])]"

text \<open>A state in which \<^verbatim>\<open>commit\<close> may start: the transaction's blocks are pinned, nothing is open.\<close>

definition commit_ready :: "'a log_st_scheme \<Rightarrow> bool" where
  "commit_ready s \<longleftrightarrow> bcache_inv (log_dev s) (set (lh s)) {} s \<and> trans_ok (log_start s) (lh s) \<and>
     hdr_blocks (disk s (log_start s)) = []"

lemma inst_home_ws:
  assumes "trans_ok S bs" and "\<And>i. i < length bs \<Longrightarrow> C' (log_blk S i) = C (bs ! i)"
  shows "inst_ws S bs C' (length bs) = home_ws bs C (length bs)"
  using assms by (simp add: inst_ws_def home_ws_def)

lemma commit_ok:
  assumes ready: "commit_ready s" and ne: "lh s \<noteq> []"
  defines "ws \<equiv> commit_ws (log_start s) (lh s) (content (log_dev s) s)"
  shows "\<exists>t. commit s = Ok () t \<and> cache_rest t = (cache_rest s)\<lparr>lh := []\<rparr> \<and> bcache_inv (log_dev s) {} {} t \<and>
    content (log_dev s) t = apply_writes ws (content (log_dev s) s) \<and>
    disk t = apply_writes ws (disk s) \<and> dtrace t = rev ws @ dtrace s"
proof -
  define S bs d where "S = log_start s" and "bs = lh s" and "d = log_dev s"
  have inv: "bcache_inv d (set bs) {} s" and tr: "trans_ok S bs"
    using ready by (simp_all add: commit_ready_def S_def bs_def d_def)
  have n: "length bs < LOGSIZE" using tr by (simp add: trans_ok_def)
  have S: "S \<notin> set bs" using tr by (auto simp: trans_ok_def)
  obtain s1 where 1: "write_log s = Ok () s1" "wrote d (set bs) (log_ws S bs (content d s) (length bs)) s s1"
    using write_log_ok [OF inv tr] by (auto simp: S_def bs_def d_def)
  have f1: "lh s1 = bs" "log_start s1 = S" "log_dev s1 = d"
    using log_frame [OF wrote_rest [OF 1(2)]] by (simp_all add: S_def bs_def d_def)
  have c1: "content d s1 S = content d s S" using 1(2) log_ws_head [OF n] by (simp add: wrote_def)
  obtain s2 where 2: "write_head s1 = Ok () s2" "wrote d (set bs) [(S, put_lh (content d s S) bs)] s1 s2"
    using write_head_ok [OF _ S _ _ f1, unfolded c1] 1(2) trans_card [OF tr] by (auto simp: wrote_def)
  have f2: "lh s2 = bs" "log_start s2 = S" "log_dev s2 = d"
    using log_frame [OF wrote_rest [OF 2(2)]] f1 by simp_all
  have "content d s2 (log_blk S i) = content d s (bs ! i)" if "i < length bs" for i
    using 1(2) 2(2) log_ws_blk [OF n that] log_blk_in_log(2) [of i S] that n by (simp add: wrote_def)
  then have ih: "inst_ws S bs (content d s2) (length bs) = home_ws bs (content d s) (length bs)"
    by (rule inst_home_ws [OF tr])
  obtain s3 where 3: "install_trans False s2 = Ok () s3" "wrote d {} (home_ws bs (content d s) (length bs)) s2 s3"
    using install_ok [OF _ tr f2, of False] 2(2) unfolding ih by (auto simp: wrote_def still_pinned_def)
  define s4 where "s4 = s3\<lparr>lh := []\<rparr>"
  have f4: "lh s4 = []" "log_start s4 = S" "log_dev s4 = d"
    using log_frame [OF wrote_rest [OF 3(2)]] f2 by (simp_all add: s4_def)
  have c4: "content d s4 S = put_lh (content d s S) bs"
    using 2(2) 3(2) home_ws_log [OF tr _ in_log_start] by (simp add: wrote_def s4_def)
  obtain s5 where 5: "write_head s4 = Ok () s5" "wrote d {} [(S, put_lh (put_lh (content d s S) bs) [])] s4 s5"
    using write_head_ok [OF _ _ _ _ f4, of "{}", unfolded c4] 3(2) by (auto simp: wrote_def s4_def NBUF_def MAXOPBLOCKS_def)
  have "commit s = Ok () s5"
    using ne 1(1) 2(1) 3(1) 5(1) by (simp add: commit_def bnd_gets if_do_apply bnd_run modify_def s4_def ret_def)
  moreover have "cache_rest s5 = (cache_rest s)\<lparr>lh := []\<rparr>"
    using wrote_rest [OF 5(2)] wrote_rest [OF 3(2)] wrote_rest [OF 2(2)] wrote_rest [OF 1(2)] by (simp add: s4_def)
  ultimately show ?thesis
    using 1(2) 2(2) 3(2) 5(2) by (simp add: wrote_def s4_def ws_def commit_ws_def S_def bs_def d_def)
qed

section \<open>Recovering\<close>

definition recoverable :: "u32 \<Rightarrow> (u32 \<Rightarrow> blk) \<Rightarrow> bool" where
  "recoverable S D \<longleftrightarrow> trans_ok S (hdr_blocks (D S))"

definition recover_ws :: "u32 \<Rightarrow> (u32 \<Rightarrow> blk) \<Rightarrow> (u32 \<times> blk) list" where
  "recover_ws S D = inst_ws S (hdr_blocks (D S)) D (length (hdr_blocks (D S))) @ [(S, put_lh (D S) [])]"

text \<open>The kernel at the start of recovery: an empty cache, and the log's place known.\<close>

definition booted :: "'a log_st_scheme \<Rightarrow> bool" where
  "booted r \<longleftrightarrow> bcache_inv (log_dev r) {} {} r"

lemma booted_content:
  assumes "bcache_inv d {} {} r"
  shows "content d r = disk r"
  using content_clean [OF assms] by auto

lemma read_head_ok:
  assumes inv: "bcache_inv d {} {} r" and rec: "recoverable S (disk r)"
    and s: "log_start r = S" "log_dev r = d"
  shows "\<exists>t. read_head r = Ok () t \<and> lh t = hdr_blocks (disk r S) \<and> log_start t = S \<and> log_dev t = d \<and>
    bcache_inv d {} {} t \<and> disk t = disk r \<and> dtrace t = dtrace r"
proof -
  obtain b s1 where 1: "bread d S r = Ok b s1" "bcache_inv d {} {b} s1" "b_blockno (bufs s1 b) = S"
    "b_data (bufs s1 b) = disk r S" "disk s1 = disk r" "dtrace s1 = dtrace r" "cache_rest s1 = cache_rest r"
    using bcache.rd_ok [OF inv, of S] booted_content [OF inv] by (force simp: NBUF_def MAXOPBLOCKS_def)
  define s2 where "s2 = s1\<lparr>lh := hdr_blocks (disk r S)\<rparr>"
  have "bcache_inv d {} {b} s2" using 1(2) by (simp add: s2_def)
  from bcache.rel_ok [OF this, of b] obtain s3 where 3: "brelse b s2 = Ok () s3" "bcache_inv d {} {} s3"
    "disk s3 = disk r" "dtrace s3 = dtrace r" "cache_rest s3 = cache_rest s2"
    using 1 by (auto simp: s2_def)
  have f: "lh s3 = hdr_blocks (disk r S)" "log_start s3 = S" "log_dev s3 = d"
    using log_frame [OF 3(5)] log_frame [OF 1(7)] s by (simp_all add: s2_def)
  have "nat (lh_n (disk r S)) < LOGSIZE" using rec by (simp add: recoverable_def trans_ok_def hdr_blocks_def)
  then have "\<not> lh_n (disk r S) > int LOGSIZE" by linarith
  then have "read_head r = Ok () s3"
    using s 1(1,4) 3(1) by (simp add: read_head_def bnd_gets bnd_run bnd_get_buf Let_def if_do_def modify_def ret_def
        s2_def hdr_blocks_def)
  then show ?thesis using 3 f by blast
qed

lemma recover_ok:
  assumes inv: "bcache_inv d {} {} r" and rec: "recoverable S (disk r)"
    and s: "log_start r = S" "log_dev r = d"
  shows "\<exists>t. recover_from_log r = Ok () t \<and> lh t = [] \<and> log_start t = S \<and> log_dev t = d \<and> bcache_inv d {} {} t \<and>
    disk t = apply_writes (recover_ws S (disk r)) (disk r) \<and> dtrace t = rev (recover_ws S (disk r)) @ dtrace r"
proof -
  define bs where "bs = hdr_blocks (disk r S)"
  have tr: "trans_ok S bs" using rec by (simp add: recoverable_def bs_def)
  obtain s1 where 1: "read_head r = Ok () s1" "lh s1 = bs" "log_start s1 = S" "log_dev s1 = d"
    "bcache_inv d {} {} s1" "disk s1 = disk r" "dtrace s1 = dtrace r"
    using read_head_ok [OF assms] by (auto simp: bs_def)
  have c1: "content d s1 = disk r" using booted_content [OF 1(5)] 1(6) by simp
  obtain s2 where 2: "install_trans True s1 = Ok () s2" "wrote d {} (inst_ws S bs (disk r) (length bs)) s1 s2"
    using install_ok [of d True bs s1 S] 1 tr c1 by (auto simp: still_pinned_def)
  define s3 where "s3 = s2\<lparr>lh := []\<rparr>"
  have f3: "lh s3 = []" "log_start s3 = S" "log_dev s3 = d"
    using log_frame [OF wrote_rest [OF 2(2)]] 1 by (simp_all add: s3_def)
  have c3: "content d s3 S = disk r S"
    using 2(2) c1 inst_ws_log [OF tr _ in_log_start] by (simp add: wrote_def s3_def)
  obtain s4 where 4: "write_head s3 = Ok () s4" "wrote d {} [(S, put_lh (disk r S) [])] s3 s4"
    using write_head_ok [OF _ _ _ _ f3, of "{}", unfolded c3] 2(2) by (auto simp: wrote_def s3_def NBUF_def MAXOPBLOCKS_def)
  have "recover_from_log r = Ok () s4"
    using 1(1) 2(1) 4(1) by (simp add: recover_from_log_def bnd_run modify_def s3_def ret_def)
  moreover have "lh s4 = []" "log_start s4 = S" "log_dev s4 = d"
    using log_frame [OF wrote_rest [OF 4(2)]] f3 by simp_all
  ultimately show ?thesis
    using 1(6,7) 2(2) 4(2) by (simp add: wrote_def s3_def recover_ws_def bs_def)
qed

section \<open>What the disk means at every crash point\<close>

lemma replay_cong:
  assumes "D S = E S" and "trans_ok S (hdr_blocks (E S))"
    and "\<And>i. i < length (hdr_blocks (E S)) \<Longrightarrow> D (log_blk S i) = E (log_blk S i)"
    and "\<And>x. x \<notin> set (hdr_blocks (E S)) \<Longrightarrow> \<not> in_log S x \<Longrightarrow> D x = E x"
  shows "same_home S (replay S D) (replay S E)"
  unfolding same_home_def
proof (intro allI impI)
  fix x assume x: "\<not> in_log S x"
  show "replay S D x = replay S E x"
  proof (cases "x \<in> set (hdr_blocks (E S))")
    case True
    then obtain i where i: "i < length (hdr_blocks (E S))" "x = hdr_blocks (E S) ! i" by (auto simp: in_set_conv_nth)
    have dist: "distinct (hdr_blocks (E S))" using assms(2) by (simp add: trans_ok_def)
    show ?thesis
      using replay_nth [of E S "hdr_blocks (E S)" i] replay_nth [of D S "hdr_blocks (E S)" i] dist i assms(1,3) by simp
  next
    case False
    then show ?thesis using assms(1,4) x by (simp add: replay_other)
  qed
qed

lemma take_ws:
  "k \<le> n \<Longrightarrow> take k (log_ws S bs C n) = log_ws S bs C k"
  "k \<le> n \<Longrightarrow> take k (home_ws bs C n) = home_ws bs C k"
  "k \<le> n \<Longrightarrow> take k (inst_ws S bs C n) = inst_ws S bs C k"
  by (simp_all add: log_ws_def home_ws_def inst_ws_def take_map min_absorb1)

lemma length_ws [simp]:
  "length (log_ws S bs C n) = n" "length (home_ws bs C n) = n" "length (inst_ws S bs C n) = n"
  by (simp_all add: log_ws_def home_ws_def inst_ws_def)

text \<open>Until the header is written the old home blocks count; from then on the new ones.\<close>

definition means :: "u32 \<Rightarrow> (u32 \<Rightarrow> blk) \<Rightarrow> (u32 \<Rightarrow> blk) \<Rightarrow> bool" where
  "means S E D \<longleftrightarrow> recoverable S E \<and> same_home S (replay S E) D"

lemma means_before:
  assumes "k < LOGSIZE" and "hdr_blocks (D S) = []"
  shows "means S (apply_writes (log_ws S bs C k) D) D"
  using assms log_ws_head [OF assms(1)] log_ws_home [OF assms(1)]
  by (simp add: means_def recoverable_def trans_ok_def same_home_def replay_empty LOGSIZE_def MAXOPBLOCKS_def)

lemma means_after:
  assumes tr: "trans_ok S bs" and j: "j \<le> length bs" and H: "hdr_blocks H = bs"
    and C: "\<And>x. x \<notin> set bs \<Longrightarrow> \<not> in_log S x \<Longrightarrow> C x = D x"
  defines "E \<equiv> apply_writes (home_ws bs C j) ((apply_writes (log_ws S bs C (length bs)) D)(S := H))"
  shows "means S E C"
proof -
  have n: "length bs < LOGSIZE" using tr by (simp add: trans_ok_def)
  have S: "E S = H" using home_ws_log [OF tr j in_log_start] by (simp add: E_def)
  have log: "E (log_blk S i) = C (bs ! i)" if "i < length bs" for i
    using home_ws_log [OF tr j] log_blk_in_log [of i S] log_ws_blk [OF n that] that n by (simp add: E_def)
  have other: "E x = D x" if "x \<notin> set bs" "\<not> in_log S x" for x
  proof -
    have "x \<notin> fst ` set (home_ws bs C j)" using that j by (auto simp: home_ws_def)
    then show ?thesis using that log_ws_home [OF n that(2)] by (auto simp: E_def apply_writes_other)
  qed
  have "replay S E x = C x" if x: "\<not> in_log S x" for x
  proof (cases "x \<in> set bs")
    case True
    then obtain i where i: "i < length bs" "x = bs ! i" by (auto simp: in_set_conv_nth)
    then show ?thesis using replay_nth [of E S bs i] S H tr log [OF i(1)] by (simp add: trans_ok_def)
  next
    case False
    then show ?thesis using replay_other [of x E S] S H other [OF False x] C [OF False x] by simp
  qed
  then show ?thesis using tr S H by (simp add: means_def recoverable_def same_home_def)
qed

lemma means_done:
  assumes tr: "trans_ok S bs" and C: "\<And>x. x \<notin> set bs \<Longrightarrow> \<not> in_log S x \<Longrightarrow> C x = D x"
    and H: "hdr_blocks H = []" and E: "\<And>x. \<not> in_log S x \<Longrightarrow> E x = apply_writes (home_ws bs C (length bs)) D x"
    and S: "E S = H"
  shows "means S E C"
proof -
  have "apply_writes (home_ws bs C (length bs)) D x = C x" if x: "\<not> in_log S x" for x
  proof (cases "x \<in> set bs")
    case True
    then obtain i where "i < length bs" "x = bs ! i" by (auto simp: in_set_conv_nth)
    then show ?thesis using home_ws_nth [OF tr] by simp
  next
    case False
    then have "x \<notin> fst ` set (home_ws bs C (length bs))" by (auto simp: home_ws_def)
    then show ?thesis using C [OF False x] by (simp add: apply_writes_other)
  qed
  then show ?thesis
    using E S H by (simp add: means_def recoverable_def trans_ok_def same_home_def replay_empty LOGSIZE_def MAXOPBLOCKS_def)
qed

lemma commit_crash_points:
  assumes tr: "trans_ok S bs" and hd: "hdr_blocks (D S) = []"
    and C: "\<And>x. x \<notin> set bs \<Longrightarrow> \<not> in_log S x \<Longrightarrow> C x = D x"
  shows "means S (apply_writes (take k (commit_ws S bs C)) D) (if k \<le> length bs then D else C)"
proof -
  define n where "n = length bs"
  define H where "H = put_lh (C S) bs"
  have n: "n < LOGSIZE" using tr by (simp add: trans_ok_def n_def)
  have H: "hdr_blocks H = bs" unfolding H_def by (rule hdr_blocks_put) (use n n_def in simp)
  have ws: "commit_ws S bs C = log_ws S bs C n @ (S, H) # home_ws bs C n @ [(S, put_lh H [])]"
    by (simp add: commit_ws_def n_def H_def)
  consider "k \<le> n" | j where "k = Suc (n + j)" "j \<le> n" | "k \<ge> 2 * n + 2"
  proof -
    have "k \<le> n \<or> (k = Suc (n + (k - Suc n)) \<and> k - Suc n \<le> n) \<or> k \<ge> 2 * n + 2" by arith
    then show ?thesis using that by blast
  qed
  then show ?thesis
  proof cases
    case 1
    then have "take k (commit_ws S bs C) = log_ws S bs C k" by (simp add: ws take_ws)
    then show ?thesis using means_before [of k D S bs C] 1 n hd by (simp add: n_def)
  next
    case 2
    then have "take k (commit_ws S bs C) = log_ws S bs C n @ (S, H) # home_ws bs C j" by (simp add: ws take_ws)
    then show ?thesis using means_after [OF tr _ H C, of j] 2 by (simp add: n_def)
  next
    case 3
    then have t: "take k (commit_ws S bs C) = commit_ws S bs C" by (simp add: ws)
    have "means S (apply_writes (commit_ws S bs C) D) C"
    proof (rule means_done [OF tr C, of _ "put_lh H []"])
      show "hdr_blocks (put_lh H []) = []" by (simp add: hdr_blocks_put)
      show "apply_writes (commit_ws S bs C) D S = put_lh H []" by (simp add: ws)
      show "apply_writes (commit_ws S bs C) D x = apply_writes (home_ws bs C (length bs)) D x" if "\<not> in_log S x" for x
      proof -
        have "x \<noteq> S" using that by auto
        have "apply_writes (home_ws bs C n) ((apply_writes (log_ws S bs C n) D)(S := H)) x =
            apply_writes (home_ws bs C n) D x"
          by (rule apply_writes_cong) (use log_ws_home [OF n that] \<open>x \<noteq> S\<close> in simp)
        then show ?thesis using \<open>x \<noteq> S\<close> by (simp add: ws n_def [symmetric])
      qed
    qed
    then show ?thesis using 3 t by (simp add: n_def)
  qed
qed

lemma recover_crash_points:
  assumes rec: "recoverable S D"
  shows "means S (apply_writes (take k (recover_ws S D)) D) (replay S D)"
proof -
  define bs where "bs = hdr_blocks (D S)"
  define n where "n = length bs"
  have tr: "trans_ok S bs" using rec by (simp add: recoverable_def bs_def)
  have ws: "recover_ws S D = inst_ws S bs D n @ [(S, put_lh (D S) [])]"
    by (simp add: recover_ws_def bs_def n_def)
  have log: "apply_writes (inst_ws S bs D j) D x = D x" if "j \<le> n" "in_log S x" for j x
    using inst_ws_log [OF tr _ that(2)] that(1) by (simp add: n_def)
  have other: "apply_writes (inst_ws S bs D j) D x = D x" if "j \<le> n" "x \<notin> set bs" for j x
    using that by (intro apply_writes_other) (auto simp: inst_ws_def n_def)
  show ?thesis
  proof (cases "k \<le> n")
    case True
    have lb: "in_log S (log_blk S i)" if "i < n" for i
      using that tr log_blk_in_log(1) by (simp add: n_def trans_ok_def)
    let ?E = "apply_writes (inst_ws S bs D k) D"
    have "same_home S (replay S ?E) (replay S D)"
      by (rule replay_cong) (use log [OF True] other [OF True] lb tr in \<open>auto simp: bs_def [symmetric] n_def [symmetric]\<close>)
    then show ?thesis
      using True rec log [OF True in_log_start] by (simp add: ws take_ws means_def recoverable_def)
  next
    case False
    let ?E = "apply_writes (recover_ws S D) D"
    have S: "hdr_blocks (?E S) = []" by (simp add: ws hdr_blocks_put)
    have "?E x = replay S D x" if x: "\<not> in_log S x" for x
    proof -
      have eq: "?E x = apply_writes (inst_ws S bs D n) D x" using x by (auto simp: ws)
      show ?thesis
      proof (cases "x \<in> set bs")
        case True
        then obtain i where i: "i < length bs" "x = bs ! i" by (auto simp: in_set_conv_nth)
        then show ?thesis
          using eq inst_ws_nth [OF tr, of i D D] replay_nth [of D S bs i] tr by (simp add: bs_def n_def trans_ok_def)
      next
        case False
        then show ?thesis using eq other [of n x] replay_other [of x D S] by (simp add: bs_def)
      qed
    qed
    then show ?thesis
      using False S by (simp add: ws means_def recoverable_def trans_ok_def same_home_def replay_empty
          LOGSIZE_def MAXOPBLOCKS_def)
  qed
qed

section \<open>Writing through the log\<close>

lemma lh_index_eq: "lh_index xs y < length xs \<longleftrightarrow> y \<in> set xs" "lh_index xs y = length xs \<longleftrightarrow> y \<notin> set xs"
  by (induction xs) auto

lemma lh_index_nth: "y \<in> set xs \<Longrightarrow> xs[lh_index xs y := y] = xs"
  by (induction xs) auto

lemma cache_held [simp]:
  "bcache_inv d P Q (s\<lparr>held := L_log # held s\<rparr>) = bcache_inv d P Q s"
  "content d (s\<lparr>held := h\<rparr>) = content d s"
  by (auto simp: bcache_inv_def locks_free_def open_locked_def content_def fun_eq_iff split: option.split)

text \<open>The state after \<^verbatim>\<open>log_write\<close>: the block is in the header once, and its buffer pinned.\<close>

definition logged :: "u32 list \<Rightarrow> u32 \<Rightarrow> u32 list" where
  "logged bs x = (if x \<in> set bs then bs else bs @ [x])"

lemma log_write_ok:
  assumes inv: "bcache_inv d (set (lh s)) Q s" and b: "b \<in> Q" and h: "L_log \<notin> set (held s)"
    and room: "length (lh s) < LOGSIZE" "int (length (lh s)) < log_size s - 1" and out: "0 < outstanding s"
  shows "\<exists>t. log_write b s = Ok () t \<and> lh t = logged (lh s) (b_blockno (bufs s b)) \<and>
    bcache_inv d (set (lh t)) Q t \<and> content d t = content d s \<and> disk t = disk s \<and> dtrace t = dtrace s \<and>
    b_blockno (bufs t b) = b_blockno (bufs s b) \<and> cache_rest t = (cache_rest s)\<lparr>lh := lh t\<rparr>"
proof (cases "b_blockno (bufs s b) \<in> set (lh s)")
  case True
  then have i: "lh_index (lh s) (b_blockno (bufs s b)) < length (lh s)" by (simp add: lh_index_eq)
  have "log_write b s = Ok () s"
    using h room out i lh_index_nth [OF True]
    by (simp add: log_write_def m_simps)
  moreover have "cache_rest s = (cache_rest s)\<lparr>lh := lh s\<rparr>" using cache_lh(3) [where s = s and v = "lh s"] by simp
  ultimately show ?thesis using True inv by (simp add: logged_def)
next
  case False
  then have i: "lh_index (lh s) (b_blockno (bufs s b)) = length (lh s)" by (simp add: lh_index_eq)
  have "bcache_inv d (set (lh s)) Q (s\<lparr>held := L_log # held s\<rparr>)" using inv by simp
  from bpin_ok [OF this b] False obtain r where r: "bpin b (s\<lparr>held := L_log # held s\<rparr>) = Ok () (repinned b r (s\<lparr>held := L_log # held s\<rparr>))"
    "bcache_inv d (insert (b_blockno (bufs s b)) (set (lh s))) Q (repinned b r (s\<lparr>held := L_log # held s\<rparr>))" by auto
  define t where "t = (repinned b r s)\<lparr>lh := lh s @ [b_blockno (bufs s b)]\<rparr>"
  have "log_write b s = Ok () t"
    using h room out i r(1) by (simp add: log_write_def m_simps repinned_def t_def)
  moreover have "bcache_inv d (set (lh t)) Q t"
  proof -
    have "repinned b r (s\<lparr>held := L_log # held s\<rparr>) = (repinned b r s)\<lparr>held := L_log # held (repinned b r s)\<rparr>"
      by (simp add: repinned_def)
    then show ?thesis using r(2) by (simp add: t_def)
  qed
  moreover have "cache_rest t = (cache_rest s)\<lparr>lh := lh t\<rparr>" by (simp add: t_def)
  moreover have "lh t = logged (lh s) (b_blockno (bufs s b))" "disk t = disk s" "dtrace t = dtrace s"
    "content d t = content d s" "b_blockno (bufs t b) = b_blockno (bufs s b)"
    using False by (simp_all add: t_def logged_def) (simp_all add: repinned_def)
  ultimately show ?thesis by blast
qed

section \<open>A whole transaction\<close>

text \<open>How the file system changes a block: read it, change it, log it, release it.\<close>

definition log_update :: "u32 \<Rightarrow> u32 \<times> (blk \<Rightarrow> blk) \<Rightarrow> (unit, 'a log_st_scheme) m" where
  "log_update d u =
     bnd (bread d (fst u)) (\<lambda>b.
     bnd (get_buf b) (\<lambda>bf. block [
       set_data b (snd u (b_data bf)),
       log_write b,
       brelse b]))"

definition updated :: "(u32 \<times> (blk \<Rightarrow> blk)) list \<Rightarrow> (u32 \<Rightarrow> blk) \<Rightarrow> (u32 \<Rightarrow> blk)" where
  "updated us C = fold (\<lambda>u C. C(fst u := snd u (C (fst u)))) us C"

definition transaction :: "u32 \<Rightarrow> (u32 \<times> (blk \<Rightarrow> blk)) list \<Rightarrow> (unit, 'a log_st_scheme) m" where
  "transaction d us = block [begin_op, for_each us (log_update d), end_op]"

lemma logged_set [simp]: "set (logged bs x) = insert x (set bs)"
  by (auto simp: logged_def)

lemma logged_distinct [simp]: "distinct (logged bs x) = distinct bs"
  by (auto simp: logged_def)

lemma logged_length: "length (logged bs x) \<le> Suc (length bs)"
  by (simp add: logged_def)

lemma log_rest_fields:
  fixes s t :: "'a log_st_scheme"
  assumes "cache_rest t = (cache_rest s)\<lparr>lh := v\<rparr>"
  shows "lh t = v" "log_start t = log_start s" "log_dev t = log_dev s" "log_size t = log_size s"
    "outstanding t = outstanding s" "committing t = committing s" "held t = held s"
  using arg_cong [OF assms, of lh] arg_cong [OF assms, of log_start] arg_cong [OF assms, of log_dev]
    arg_cong [OF assms, of log_size] arg_cong [OF assms, of outstanding] arg_cong [OF assms, of committing]
    arg_cong [OF assms, of held] by (simp_all add: cache_rest_def)

text \<open>The state inside a transaction.\<close>

definition in_trans :: "u32 \<Rightarrow> 'a log_st_scheme \<Rightarrow> bool" where
  "in_trans d s \<longleftrightarrow> bcache_inv d (set (lh s)) {} s \<and> L_log \<notin> set (held s) \<and> 0 < outstanding s \<and>
     int LOGSIZE \<le> log_size s \<and> distinct (lh s)"

text \<open>
  A block opened inside a transaction, and the two ways to close it: unchanged, or with new content
  handed to \<^verbatim>\<open>log_write\<close>.
\<close>

definition trans_open :: "u32 \<Rightarrow> nat \<Rightarrow> u32 \<Rightarrow> 'a log_st_scheme \<Rightarrow> bool" where
  "trans_open d b x s \<longleftrightarrow> bcache_inv d (set (lh s)) {b} s \<and> b_blockno (bufs s b) = x \<and> L_log \<notin> set (held s) \<and>
     0 < outstanding s \<and> int LOGSIZE \<le> log_size s \<and> distinct (lh s)"

lemma log_rest_same:
  fixes s t :: "'a log_st_scheme"
  assumes "cache_rest t = cache_rest s"
  shows "lh t = lh s" "log_start t = log_start s" "log_dev t = log_dev s" "log_size t = log_size s"
    "outstanding t = outstanding s" "committing t = committing s" "held t = held s"
  using arg_cong [OF assms, of lh] arg_cong [OF assms, of log_start] arg_cong [OF assms, of log_dev]
    arg_cong [OF assms, of log_size] arg_cong [OF assms, of outstanding] arg_cong [OF assms, of committing]
    arg_cong [OF assms, of held] by (simp_all add: cache_rest_def)

lemma trans_bread:
  assumes tr: "in_trans d s" and room: "length (lh s) < LOGSIZE"
  obtains b t where "bread d x s = Ok b t" and "trans_open d b x t" and "b_data (bufs t b) = content d s x"
    and "content d t = content d s" and "disk t = disk s" and "dtrace t = dtrace s" and "cache_rest t = cache_rest s"
    and "x \<in> set (lh t) \<or> b_data (bufs t b) = disk t x"
proof -
  have inv: "bcache_inv d (set (lh s)) {} s" and dist: "distinct (lh s)" using tr by (simp_all add: in_trans_def)
  have "card (set (lh s)) < NBUF" using room dist by (simp add: distinct_card LOGSIZE_def NBUF_def)
  then obtain b t where t: "bread d x s = Ok b t" "bcache_inv d (set (lh s)) {b} t" "b_blockno (bufs t b) = x"
    "b_data (bufs t b) = content d s x" "content d t = content d s" "disk t = disk s" "dtrace t = dtrace s"
    "cache_rest t = cache_rest s"
    using bcache.rd_ok [OF inv, of x] by auto
  note f = log_rest_same [OF t(8)]
  have "trans_open d b x t" using t(2,3) tr f by (simp add: trans_open_def in_trans_def)
  moreover have "x \<in> set (lh t) \<or> b_data (bufs t b) = disk t x"
    using bcache.clean [OF inv, of x] t(4,6) f(1) by auto
  ultimately show ?thesis using that t by blast
qed

lemma trans_brelse:
  assumes op: "trans_open d b x s" and clean: "x \<in> set (lh s) \<or> b_data (bufs s b) = disk s x"
  obtains t where "brelse b s = Ok () t" and "in_trans d t" and "content d t = content d s" and "disk t = disk s"
    and "dtrace t = dtrace s" and "cache_rest t = cache_rest s"
proof -
  have inv: "bcache_inv d (set (lh s)) {b} s" and x: "b_blockno (bufs s b) = x" using op by (simp_all add: trans_open_def)
  obtain t where t: "brelse b s = Ok () t" "bcache_inv d (set (lh s)) {} t" "content d t = content d s" "disk t = disk s"
    "dtrace t = dtrace s" "cache_rest t = cache_rest s"
    using bcache.rel_ok [OF inv, of b] clean x by auto
  moreover have "in_trans d t" using op t(2) log_rest_same [OF t(6)] by (simp add: trans_open_def in_trans_def)
  ultimately show ?thesis using that by blast
qed

lemma trans_update:
  assumes op: "trans_open d b x s" and room: "Suc (length (lh s)) < LOGSIZE"
  obtains t where "block [set_data b v, log_write b, brelse b] s = Ok () t" and "in_trans d t"
    and "content d t = (content d s)(x := v)" and "disk t = disk s" and "dtrace t = dtrace s"
    and "cache_rest t = (cache_rest s)\<lparr>lh := logged (lh s) x\<rparr>"
proof -
  have inv: "bcache_inv d (set (lh s)) {b} s" and x: "b_blockno (bufs s b) = x" using op by (simp_all add: trans_open_def)
  obtain s2 where 2: "set_data b v s = Ok () s2"
    "bcache_inv d (set (lh s)) {b} s2" "(\<lambda>b. b_blockno (bufs s2 b)) = (\<lambda>b. b_blockno (bufs s b))"
    "content d s2 = (content d s)(x := v)" "disk s2 = disk s" "dtrace s2 = dtrace s"
    "cache_rest s2 = cache_rest s"
    using bcache.put_ok [OF inv, of b v] x by auto
  note l2 = log_rest_same [OF 2(7)]
  have x2: "b_blockno (bufs s2 b) = x" using fun_cong [OF 2(3), of b] x by simp
  have "bcache_inv d (set (lh s2)) {b} s2" using 2(2) l2 by simp
  from log_write_ok [OF this, of b] obtain s3 where 3: "log_write b s2 = Ok () s3" "lh s3 = logged (lh s) x"
    "bcache_inv d (insert x (set (lh s))) {b} s3" "content d s3 = content d s2" "disk s3 = disk s"
    "dtrace s3 = dtrace s" "b_blockno (bufs s3 b) = x" "cache_rest s3 = (cache_rest s2)\<lparr>lh := lh s3\<rparr>"
    using op room l2 x2 2 by (auto simp: trans_open_def)
  from bcache.rel_ok [OF 3(3), of b] obtain s4 where 4: "brelse b s3 = Ok () s4" "bcache_inv d (insert x (set (lh s))) {} s4"
    "content d s4 = content d s2" "disk s4 = disk s" "dtrace s4 = dtrace s" "cache_rest s4 = cache_rest s3"
    using 3 by auto
  have r: "cache_rest s4 = (cache_rest s)\<lparr>lh := logged (lh s) x\<rparr>" using 4(6) 3(8) 3(2) 2(7) by simp
  have "block [set_data b v, log_write b, brelse b] s = Ok () s4"
    using 2(1) 3(1) 4(1) by (simp add: bnd_run ret_def)
  moreover have "in_trans d s4"
    using op 4(2) log_rest_fields [OF r] by (simp add: trans_open_def in_trans_def)
  ultimately show ?thesis using that 2(4) 4 r by auto
qed

lemma log_update_ok:
  assumes tr: "in_trans d s" and room: "Suc (length (lh s)) < LOGSIZE"
  shows "\<exists>t. log_update d (x, f) s = Ok () t \<and> in_trans d t \<and> content d t = (content d s)(x := f (content d s x)) \<and>
    disk t = disk s \<and> dtrace t = dtrace s \<and> cache_rest t = (cache_rest s)\<lparr>lh := logged (lh s) x\<rparr>"
proof -
  obtain b s1 where 1: "bread d x s = Ok b s1" "trans_open d b x s1" "b_data (bufs s1 b) = content d s x"
    "content d s1 = content d s" "disk s1 = disk s" "dtrace s1 = dtrace s" "cache_rest s1 = cache_rest s"
    using trans_bread [OF tr] room by (metis Suc_lessD)
  have "Suc (length (lh s1)) < LOGSIZE" using room log_rest_same(1) [OF 1(7)] by simp
  then obtain t where t: "block [set_data b (f (content d s x)), log_write b, brelse b] s1 = Ok () t" "in_trans d t"
    "content d t = (content d s1)(x := f (content d s x))" "disk t = disk s1" "dtrace t = dtrace s1"
    "cache_rest t = (cache_rest s1)\<lparr>lh := logged (lh s1) x\<rparr>" using trans_update [OF 1(2)] by blast
  then have "log_update d (x, f) s = Ok () t"
    using 1(1,3) by (simp add: log_update_def bnd_run bnd_get_buf del: block.simps)
  then show ?thesis using t 1 log_rest_same(1) [OF 1(7)] by auto
qed

lemma lh_twice [simp]: "(r :: 'a log_st_scheme)\<lparr>lh := a, lh := b\<rparr> = r\<lparr>lh := b\<rparr>"
  by simp

lemma log_updates_ok:
  assumes "in_trans d s" and "length (lh s) + length us < LOGSIZE"
  shows "\<exists>t. for_each us (log_update d) s = Ok () t \<and> in_trans d t \<and> content d t = updated us (content d s) \<and>
    disk t = disk s \<and> dtrace t = dtrace s \<and> cache_rest t = (cache_rest s)\<lparr>lh := fold (\<lambda>u bs. logged bs (fst u)) us (lh s)\<rparr>"
  using assms
proof (induction us arbitrary: s)
  case Nil
  moreover have "cache_rest s = (cache_rest s)\<lparr>lh := lh s\<rparr>" using cache_lh(3) [where s = s and v = "lh s"] by simp
  ultimately show ?case by (simp add: ret_def updated_def)
next
  case (Cons u us)
  obtain x f where u: "u = (x, f)" by (cases u)
  from log_update_ok [OF Cons.prems(1), of x f] Cons.prems(2) obtain s1 where 1: "log_update d u s = Ok () s1"
    "in_trans d s1" "content d s1 = (content d s)(x := f (content d s x))" "disk s1 = disk s" "dtrace s1 = dtrace s"
    "cache_rest s1 = (cache_rest s)\<lparr>lh := logged (lh s) x\<rparr>"
    using u by auto
  have l1: "lh s1 = logged (lh s) x" using log_rest_fields [OF 1(6)] by simp
  then have "length (lh s1) + length us < LOGSIZE" using Cons.prems(2) logged_length [of "lh s" x] by simp
  from Cons.IH [OF 1(2) this] obtain t where t: "for_each us (log_update d) s1 = Ok () t" "in_trans d t"
    "content d t = updated us (content d s1)" "disk t = disk s1" "dtrace t = dtrace s1"
    "cache_rest t = (cache_rest s1)\<lparr>lh := fold (\<lambda>u bs. logged bs (fst u)) us (lh s1)\<rparr>" by blast
  have "for_each (u # us) (log_update d) s = Ok () t" using 1(1) t(1) by (simp add: bnd_run)
  moreover have "content d t = updated (u # us) (content d s)" using t(3) 1(3) by (simp add: updated_def u)
  moreover have "cache_rest t = (cache_rest s)\<lparr>lh := fold (\<lambda>u bs. logged bs (fst u)) (u # us) (lh s)\<rparr>"
    using t(6) 1(6) l1 by (simp add: u)
  ultimately show ?case using t 1 by (intro exI [of _ t]) simp
qed

lemma logged_all_set: "set (fold (\<lambda>u bs. logged bs (fst u)) us bs) = set bs \<union> fst ` set us"
  by (induction us arbitrary: bs) auto

lemma logged_all_length: "length (fold (\<lambda>u bs. logged bs (fst u)) us bs) \<le> length us + length bs"
proof (induction us arbitrary: bs)
  case (Cons u us)
  show ?case using Cons.IH [of "logged bs (fst u)"] logged_length [of bs "fst u"] by simp
qed simp

lemma updated_other: "x \<notin> fst ` set us \<Longrightarrow> updated us C x = C x"
  unfolding updated_def by (induction us arbitrary: C) auto

text \<open>Between transactions: no block is pinned, nothing is outstanding, the header on disk is empty.\<close>

definition log_idle :: "'a log_st_scheme \<Rightarrow> bool" where
  "log_idle s \<longleftrightarrow> bcache_inv (log_dev s) {} {} s \<and> lh s = [] \<and> outstanding s = 0 \<and> \<not> committing s \<and>
     held s = [] \<and> int LOGSIZE \<le> log_size s \<and> hdr_blocks (disk s (log_start s)) = []"

lemma cache_log_fields [simp]:
  "bcache_inv d P Q (s\<lparr>outstanding := v\<rparr>) = bcache_inv d P Q s" "content d (s\<lparr>outstanding := v\<rparr>) = content d s"
  "bcache_inv d P Q (s\<lparr>committing := c\<rparr>) = bcache_inv d P Q s" "content d (s\<lparr>committing := c\<rparr>) = content d s"
  "(\<And>p. p_pid (ps p) = p_pid (procs s p)) \<Longrightarrow> bcache_inv d P Q (s\<lparr>procs := ps\<rparr>) = bcache_inv d P Q s"
  "content d (s\<lparr>procs := ps\<rparr>) = content d s"
  by (simp_all add: bcache_inv_def locks_free_def open_locked_def content_def fun_eq_iff split: option.split)

lemma begin_op_idle:
  assumes "log_idle s"
  shows "begin_op s = Ok () (s\<lparr>outstanding := 1\<rparr>)"
  using assms by (simp add: begin_op_def log_idle_def m_simps MAXOPBLOCKS_def LOGSIZE_def)

lemma end_op_last:
  assumes "held s = []" and "outstanding s = 1" and "\<not> committing s"
    and "commit (s\<lparr>outstanding := 0, committing := True\<rparr>) = Ok () t" and "held t = []"
  shows "end_op s = Ok () (t\<lparr>committing := False, procs := woken (curproc t) (Some Ch_log) {..<NPROC} (procs t)\<rparr>)"
proof -
  have "s\<lparr>outstanding := 0, committing := True, held := held s\<rparr> = s\<lparr>outstanding := 0, committing := True\<rparr>" by simp
  then have "commit (s\<lparr>outstanding := 0, committing := True, held := []\<rparr>) = Ok () t"
    unfolding assms(1) using assms(4) by (simp only:)
  then show ?thesis using assms by (simp add: end_op_def m_simps bnd_run wakeup_blocked_def)
qed

lemma commit_crash_safe:
  assumes ready: "commit_ready s"
  shows "\<exists>t ws. commit s = Ok () t \<and> cache_rest t = (cache_rest s)\<lparr>lh := []\<rparr> \<and> bcache_inv (log_dev s) {} {} t \<and>
    disk t = apply_writes ws (disk s) \<and> dtrace t = rev ws @ dtrace s \<and> hdr_blocks (disk t (log_start s)) = [] \<and>
    same_home (log_start s) (disk t) (content (log_dev s) s) \<and>
    (\<forall>k. means (log_start s) (apply_writes (take k ws) (disk s)) (disk s) \<or>
      means (log_start s) (apply_writes (take k ws) (disk s)) (content (log_dev s) s))"
proof -
  define S bs d where "S = log_start s" and "bs = lh s" and "d = log_dev s"
  have inv: "bcache_inv d (set bs) {} s" and tr: "trans_ok S bs" and hd: "hdr_blocks (disk s S) = []"
    using ready by (simp_all add: commit_ready_def S_def bs_def d_def)
  have C: "content d s x = disk s x" if "x \<notin> set bs" for x
    using content_clean [OF inv that] by simp
  note pts = commit_crash_points [where C = "content d s", OF tr hd C]
  show ?thesis
  proof (cases "bs = []")
    case True
    then have "commit s = Ok () s" by (simp add: commit_def bnd_gets if_do_def ret_def bs_def)
    moreover have "content d s = disk s" using C True by auto
    moreover have "means S (disk s) (disk s)" using pts [of 0] by simp
    moreover have "cache_rest s = (cache_rest s)\<lparr>lh := []\<rparr>"
      using cache_lh(3) [where s = s and v = "lh s"] True by (simp add: bs_def)
    ultimately show ?thesis
      using inv hd True by (intro exI [of _ s] exI [of _ "[]"]) (simp add: S_def d_def same_home_def)
  next
    case False
    define ws where "ws = commit_ws S bs (content d s)"
    from commit_ok [OF ready] False obtain t where t: "commit s = Ok () t" "cache_rest t = (cache_rest s)\<lparr>lh := []\<rparr>"
      "bcache_inv d {} {} t" "disk t = apply_writes ws (disk s)" "dtrace t = rev ws @ dtrace s"
      by (auto simp: S_def bs_def d_def ws_def)
    have m: "means S (apply_writes (take k ws) (disk s)) (if k \<le> length bs then disk s else content d s)" for k
      using pts by (simp add: ws_def)
    have hd': "hdr_blocks (disk t S) = []"
      by (simp add: t(4) ws_def commit_ws_def hdr_blocks_put)
    have "means S (disk t) (content d s)"
      using m [of "length ws"] t(4) by (simp add: ws_def commit_ws_def split: if_splits)
    then have "same_home S (disk t) (content d s)" using hd' by (simp add: means_def replay_empty)
    moreover have "means S (apply_writes (take k ws) (disk s)) (disk s) \<or>
        means S (apply_writes (take k ws) (disk s)) (content d s)" for k
      using m [of k] by (cases "k \<le> length bs") simp_all
    ultimately show ?thesis
      using t hd' by (intro exI [of _ t] exI [of _ ws]) (simp add: S_def d_def)
  qed
qed

text \<open>Recovering from any disk that means \<open>D\<close> gives \<open>D\<close>.\<close>

lemma recover_means:
  assumes "bcache_inv (log_dev r) {} {} r" and "means (log_start r) (disk r) D"
  shows "\<exists>t. recover_from_log r = Ok () t \<and> same_home (log_start r) (disk t) D"
proof -
  let ?S = "log_start r"
  have rec: "recoverable ?S (disk r)" and D: "same_home ?S (replay ?S (disk r)) D"
    using assms(2) by (simp_all add: means_def)
  from recover_ok [OF assms(1) rec refl refl] obtain t where t: "recover_from_log r = Ok () t"
    "disk t = apply_writes (recover_ws ?S (disk r)) (disk r)" by blast
  have "means ?S (disk t) (replay ?S (disk r))"
    using recover_crash_points [OF rec, of "length (recover_ws ?S (disk r))"] by (simp add: t)
  moreover have "hdr_blocks (disk t ?S) = []" by (simp add: t recover_ws_def hdr_blocks_put)
  ultimately have "same_home ?S (disk t) (replay ?S (disk r))" by (simp add: means_def replay_empty)
  then show ?thesis using t D by (auto simp: same_home_def)
qed

lemma transaction_ok:
  assumes idle: "log_idle s" and us: "length us \<le> MAXOPBLOCKS" "\<And>u. u \<in> set us \<Longrightarrow> \<not> in_log (log_start s) (fst u)"
  shows "\<exists>t ws. transaction (log_dev s) us s = Ok () t \<and> log_idle t \<and>
    disk t = apply_writes ws (disk s) \<and> dtrace t = rev ws @ dtrace s \<and>
    same_home (log_start s) (disk t) (updated us (disk s)) \<and>
    (\<forall>k. means (log_start s) (apply_writes (take k ws) (disk s)) (disk s) \<or>
      means (log_start s) (apply_writes (take k ws) (disk s)) (updated us (disk s)))"
proof -
  define S d where "S = log_start s" and "d = log_dev s"
  have inv: "bcache_inv d {} {} s" using idle by (simp add: log_idle_def d_def)
  have cont: "content d s = disk s" using booted_content [OF inv] .
  define s1 where "s1 = s\<lparr>outstanding := 1\<rparr>"
  have "in_trans d s1" using idle inv by (simp add: in_trans_def log_idle_def s1_def)
  moreover have "length (lh s1) + length us < LOGSIZE"
    using us idle by (simp add: log_idle_def s1_def MAXOPBLOCKS_def LOGSIZE_def)
  ultimately obtain s2 where 2: "for_each us (log_update d) s1 = Ok () s2" "in_trans d s2"
    "content d s2 = updated us (disk s)" "disk s2 = disk s" "dtrace s2 = dtrace s"
    "cache_rest s2 = (cache_rest s1)\<lparr>lh := fold (\<lambda>u bs. logged bs (fst u)) us (lh s1)\<rparr>"
    using log_updates_ok [of d s1 us] cont by (auto simp: s1_def)
  note f2 = log_rest_fields [OF 2(6)]
  define s3 where "s3 = s2\<lparr>outstanding := 0, committing := True\<rparr>"
  have "trans_ok S (lh s2)"
    using 2(2) us f2(1) idle logged_all_length [of us "[]"]
    by (auto simp: trans_ok_def in_trans_def logged_all_set log_idle_def s1_def S_def LOGSIZE_def MAXOPBLOCKS_def)
  then have "commit_ready s3"
    using 2(2,4) f2 idle by (simp add: commit_ready_def in_trans_def s3_def s1_def log_idle_def S_def d_def)
  then obtain t ws where t: "commit s3 = Ok () t" "cache_rest t = (cache_rest s3)\<lparr>lh := []\<rparr>" "bcache_inv d {} {} t"
    "disk t = apply_writes ws (disk s)" "dtrace t = rev ws @ dtrace s" "hdr_blocks (disk t S) = []"
    "same_home S (disk t) (updated us (disk s))"
    "\<forall>k. means S (apply_writes (take k ws) (disk s)) (disk s) \<or>
      means S (apply_writes (take k ws) (disk s)) (updated us (disk s))"
    using commit_crash_safe [of s3] f2 2 by (auto simp: s3_def s1_def S_def d_def)
  note ft = log_rest_fields [OF t(2)]
  define t' where "t' = t\<lparr>committing := False, procs := woken (curproc t) (Some Ch_log) {..<NPROC} (procs t)\<rparr>"
  have "end_op s2 = Ok () t'"
    unfolding t'_def
    by (rule end_op_last) (use t(1) f2 ft idle in \<open>simp_all add: s3_def s1_def log_idle_def\<close>)
  then have "transaction d us s = Ok () t'"
    using begin_op_idle [OF idle] 2(1) by (simp add: transaction_def bnd_run ret_def s1_def)
  moreover have "log_idle t'"
    using t f2 ft idle by (simp add: log_idle_def t'_def s3_def s1_def S_def d_def)
  ultimately show ?thesis
    using t by (intro exI [of _ t'] exI [of _ ws]) (simp add: t'_def S_def d_def)
qed

section \<open>Properties\<close>

text \<open>
  C1: A file-system transaction is atomic across crashes. From an idle log, the operations between
  \<^verbatim>\<open>begin_op\<close> and \<^verbatim>\<open>end_op\<close> (at most \<^verbatim>\<open>MAXOPBLOCKS\<close> block updates through the cache and \<^verbatim>\<open>log_write\<close>)
  return with the log idle and all updates on the disk; and if the machine stops after any number
  of the disk writes made, \<^verbatim>\<open>recover_from_log\<close> at the next boot returns with all the home blocks as
  before the transaction, or all as after it.
\<close>

theorem transaction_atomic:
  assumes "log_idle s" and "length us \<le> MAXOPBLOCKS" and "\<And>u. u \<in> set us \<Longrightarrow> \<not> in_log (log_start s) (fst u)"
  shows "\<exists>t ws. transaction (log_dev s) us s = Ok () t \<and> log_idle t \<and>
    disk t = apply_writes ws (disk s) \<and> dtrace t = rev ws @ dtrace s \<and>
    same_home (log_start s) (disk t) (updated us (disk s)) \<and>
    (\<forall>k r. booted r \<and> log_start r = log_start s \<and> disk r = apply_writes (take k ws) (disk s) \<longrightarrow>
      (\<exists>r'. recover_from_log r = Ok () r' \<and>
        (same_home (log_start s) (disk r') (disk s) \<or> same_home (log_start s) (disk r') (updated us (disk s)))))"
proof -
  obtain t ws where t: "transaction (log_dev s) us s = Ok () t" "log_idle t"
    "disk t = apply_writes ws (disk s)" "dtrace t = rev ws @ dtrace s"
    "same_home (log_start s) (disk t) (updated us (disk s))"
    and m: "\<And>k. means (log_start s) (apply_writes (take k ws) (disk s)) (disk s) \<or>
      means (log_start s) (apply_writes (take k ws) (disk s)) (updated us (disk s))"
    using transaction_ok [OF assms] by blast
  have "\<exists>r'. recover_from_log r = Ok () r' \<and>
      (same_home (log_start s) (disk r') (disk s) \<or> same_home (log_start s) (disk r') (updated us (disk s)))"
    if r: "booted r" "log_start r = log_start s" "disk r = apply_writes (take k ws) (disk s)" for k r
    using recover_means [of r "disk s"] recover_means [of r "updated us (disk s)"] m [of k] r
    by (auto simp: booted_def)
  then show ?thesis using t by (intro exI [of _ t] exI [of _ ws]) blast
qed

definition log_demo :: log_st where
  "log_demo = bio_st.extend bio_demo \<lparr>log_start = 2, log_size = 30, outstanding = 0, committing = False,
     log_dev = 1, lh = []\<rparr>"

lemma log_demo_fields:
  "bufs log_demo = bufs bio_demo" "disk log_demo = disk bio_demo" "slocks log_demo = slocks bio_demo"
  "procs log_demo = procs bio_demo" "held log_demo = held bio_demo" "curproc log_demo = curproc bio_demo"
  "log_start log_demo = 2" "log_size log_demo = 30" "outstanding log_demo = 0" "\<not> committing log_demo"
  "log_dev log_demo = 1" "lh log_demo = []"
  by (simp_all add: log_demo_def bio_st.defs)

lemma log_demo_idle: "log_idle log_demo"
proof -
  have "bcache_inv 1 {} {} log_demo"
    using bio_demo_inv(1) by (simp add: bcache_inv_def locks_free_def open_locked_def log_demo_fields)
  moreover have "held bio_demo = []" "disk bio_demo = disk bio_zero"
    by (simp_all add: bio_demo_def cache_start_fields)
  moreover have "hdr_blocks (disk bio_zero 2) = []"
    by (simp add: bio_zero_def hdr_blocks_def lh_n_def rdb_def le_word_def upt_rec)
  ultimately show ?thesis
    by (simp add: log_idle_def log_demo_fields LOGSIZE_def MAXOPBLOCKS_def)
qed

theorem transaction_atomic_witness:
  "\<exists>t ws. transaction 1 [(32, \<lambda>_ _. 7), (41, \<lambda>d. d(0 := 1))] log_demo = Ok () t \<and>
    same_home 2 (disk t) (updated [(32, \<lambda>_ _. 7), (41, \<lambda>d. d(0 := 1))] (disk log_demo)) \<and>
    disk t = apply_writes ws (disk log_demo)"
proof -
  have "\<not> in_log 2 32" "\<not> in_log 2 41" by (simp_all add: in_log_def LOGSIZE_def MAXOPBLOCKS_def)
  then show ?thesis
    using transaction_atomic [OF log_demo_idle, of "[(32, \<lambda>_ _. 7), (41, \<lambda>d. d(0 := 1))]"]
    by (force simp: log_demo_fields MAXOPBLOCKS_def)
qed

text \<open>
  C3: Recovery installs the transaction in the header, clears it, and can itself be interrupted: after any
  number of its disk writes the disk still means the same home blocks, so running it again gives
  the same result.
\<close>

theorem recovery_idempotent:
  assumes "booted r" and "recoverable (log_start r) (disk r)"
  shows "\<exists>t ws. recover_from_log r = Ok () t \<and> disk t = apply_writes ws (disk r) \<and> dtrace t = rev ws @ dtrace r \<and>
    hdr_blocks (disk t (log_start r)) = [] \<and> same_home (log_start r) (disk t) (replay (log_start r) (disk r)) \<and>
    (\<forall>k. recoverable (log_start r) (apply_writes (take k ws) (disk r)) \<and>
      same_home (log_start r) (replay (log_start r) (apply_writes (take k ws) (disk r))) (replay (log_start r) (disk r)))"
proof -
  let ?S = "log_start r"
  from recover_ok [OF _ assms(2) refl refl] assms(1) obtain t where t: "recover_from_log r = Ok () t"
    "disk t = apply_writes (recover_ws ?S (disk r)) (disk r)" "dtrace t = rev (recover_ws ?S (disk r)) @ dtrace r"
    by (auto simp: booted_def)
  have "hdr_blocks (disk t ?S) = []" by (simp add: t recover_ws_def hdr_blocks_put)
  moreover have "means ?S (disk t) (replay ?S (disk r))"
    using recover_crash_points [OF assms(2), of "length (recover_ws ?S (disk r))"] by (simp add: t)
  ultimately show ?thesis
    using t recover_crash_points [OF assms(2)]
    by (intro exI [of _ t] exI [of _ "recover_ws ?S (disk r)"]) (simp add: means_def replay_empty)
qed

theorem recovery_idempotent_witness:
  "\<exists>t. recover_from_log log_demo = Ok () t \<and> same_home 2 (disk t) (replay 2 (disk log_demo))"
proof -
  have "booted log_demo" "recoverable (log_start log_demo) (disk log_demo)"
    using log_demo_idle by (simp_all add: booted_def log_idle_def recoverable_def trans_ok_def LOGSIZE_def MAXOPBLOCKS_def)
  from recovery_idempotent [OF this] show ?thesis by (auto simp: log_demo_fields)
qed

lemma log_update_panics:
  assumes tr: "in_trans d s" and full: "length (lh s) = LOGSIZE - 1" and sz: "log_size s = int LOGSIZE"
  shows "log_update d (x, f) s = Panic ''too big a transaction''"
proof -
  have inv: "bcache_inv d (set (lh s)) {} s" and dist: "distinct (lh s)" using tr by (simp_all add: in_trans_def)
  have "card (set (lh s)) < NBUF"
    using full dist by (simp add: distinct_card LOGSIZE_def NBUF_def MAXOPBLOCKS_def)
  then obtain b s1 where 1: "bread d x s = Ok b s1" "bcache_inv d (set (lh s)) {b} s1" "cache_rest s1 = cache_rest s"
    using bcache.rd_ok [OF inv, of x] by auto
  let ?v = "f (b_data (bufs s1 b))"
  from bcache.put_ok [OF 1(2), of b ?v] obtain s2 where 2: "set_data b ?v s1 = Ok () s2" "cache_rest s2 = cache_rest s1"
    by auto
  have "cache_rest s2 = cache_rest s" using 1(3) 2(2) by simp
  from arg_cong [OF this, of lh] arg_cong [OF this, of log_size] arg_cong [OF this, of held]
  have "length (lh s2) = LOGSIZE - 1" "log_size s2 = int LOGSIZE" "L_log \<notin> set (held s2)"
    using full sz tr by (simp_all add: cache_rest_def in_trans_def)
  then have "log_write b s2 = Panic ''too big a transaction''"
    by (simp add: log_write_def m_simps LOGSIZE_def MAXOPBLOCKS_def)
  then show ?thesis
    using 1(1) 2(1) by (simp add: log_update_def bnd_run bnd_get_buf) (simp add: bnd_def)
qed

lemma logged_all_distinct:
  assumes "distinct (map fst us)" and "set bs \<inter> fst ` set us = {}"
  shows "length (fold (\<lambda>u bs. logged bs (fst u)) us bs) = length us + length bs"
  using assms
proof (induction us arbitrary: bs)
  case (Cons u us)
  have "fst u \<notin> set bs" using Cons.prems(2) by auto
  then show ?case using Cons.IH [of "bs @ [fst u]"] Cons.prems by (auto simp: logged_def)
qed simp

text \<open>Three calls of \<^verbatim>\<open>begin_op\<close> are admitted when the log is idle.\<close>

lemma three_begin_ops:
  assumes "log_idle s"
  shows "block [begin_op, begin_op, begin_op] s = Ok () (s\<lparr>outstanding := 3\<rparr>)"
proof -
  have "begin_op (s\<lparr>outstanding := int n\<rparr>) = Ok () (s\<lparr>outstanding := int n + 1\<rparr>)" if "n < 3" for n
    using assms that by (auto simp: begin_op_def log_idle_def m_simps MAXOPBLOCKS_def LOGSIZE_def)
  from this [of 1] this [of 2] show ?thesis
    using begin_op_idle [OF assms] by (simp add: bnd_run ret_def)
qed

text \<open>
  C14: The log can be promised more than it holds. \<^verbatim>\<open>mkfs\<close> makes a log of \<^verbatim>\<open>LOGSIZE\<close> blocks with its header, so
  \<^verbatim>\<open>log.size - 1\<close> is one less than \<^verbatim>\<open>LOGSIZE\<close>; \<^verbatim>\<open>begin_op\<close> admits three operations of \<^verbatim>\<open>MAXOPBLOCKS\<close> blocks
  each against \<^verbatim>\<open>LOGSIZE\<close>, and when they log thirty different blocks \<^verbatim>\<open>log_write\<close> panics.
\<close>

theorem three_ops_overflow_log:
  assumes idle: "log_idle s" and sz: "log_size s = int LOGSIZE"
    and us: "length us = 3 * MAXOPBLOCKS" "distinct (map fst us)"
  shows "block [begin_op, begin_op, begin_op, for_each us (log_update (log_dev s))] s = Panic ''too big a transaction''"
proof -
  obtain vs x f where v: "us = vs @ [(x, f)]" using us(1) by (cases us rule: rev_cases) (auto simp: MAXOPBLOCKS_def)
  define d s1 where "d = log_dev s" and "s1 = s\<lparr>outstanding := 3\<rparr>"
  have "in_trans d s1" "length (lh s1) + length vs < LOGSIZE"
    using idle us(1) by (simp_all add: in_trans_def log_idle_def s1_def d_def v LOGSIZE_def MAXOPBLOCKS_def)
  from log_updates_ok [OF this] obtain t where t: "for_each vs (log_update d) s1 = Ok () t" "in_trans d t"
    "cache_rest t = (cache_rest s1)\<lparr>lh := fold (\<lambda>u bs. logged bs (fst u)) vs (lh s1)\<rparr>" by blast
  note ft = log_rest_fields [OF t(3)]
  have "length (lh t) = LOGSIZE - 1"
    using ft logged_all_distinct [of vs "[]"] us idle by (simp add: v s1_def log_idle_def LOGSIZE_def)
  from log_update_panics [OF t(2) this, of x f]
  have "log_update d (x, f) t = Panic ''too big a transaction''" using ft sz by (simp add: s1_def)
  then have "for_each us (log_update d) s1 = Panic ''too big a transaction''"
    using t(1) by (simp add: v for_each_append bnd_def)
  then show ?thesis
    using three_begin_ops [OF idle] by (auto simp: s1_def d_def bnd_def split: outcome.splits)
qed

theorem three_ops_overflow_log_witness:
  "block [begin_op, begin_op, begin_op, for_each (map (\<lambda>i. (40 + of_nat i, \<lambda>_ _. 7)) [0..<30]) (log_update 1)] log_demo
    = Panic ''too big a transaction''"
proof -
  let ?us = "map (\<lambda>i. (40 + of_nat i :: u32, \<lambda>_ _. 7)) [0..<30] :: (u32 \<times> (blk \<Rightarrow> blk)) list"
  have "distinct (map fst ?us)" by (simp add: upt_rec)
  then show ?thesis
    using three_ops_overflow_log [OF log_demo_idle, of ?us]
    by (simp add: log_demo_fields MAXOPBLOCKS_def LOGSIZE_def)
qed

end
