(* ===== verification/Demo.thy ===== *)
theory Demo
  imports Crash Pipe UserCopy
begin

text \<open>
  A concrete machine for the examples of the properties: the block cache just initialised, an empty
  log, one running process whose page table maps its first page, and one pipe whose counters are
  about to wrap.
\<close>

definition fs_demo :: fs_st where
  "fs_demo = bio_st.extend
     (bio_demo\<lparr>ram := ram user_demo, cons_r := 0, cons_w := 0, cons_e := 0,
       procs := (\<lambda>p. proc_zero\<lparr>p_pid := of_nat p + 1, p_state := (if p = 0 then RUNNING else UNUSED),
         p_pagetable := 0x87ffd000, p_sz := 0x1000\<rparr>)\<rparr>)
     \<lparr>log_start = 2, log_size = 30, outstanding = 0, committing = False, log_dev = 1, lh = [],
      fs_sb = \<lparr>sb_magic = 0x10203040, sb_size = 2000, sb_nblocks = 1954, sb_ninodes = 200, sb_nlog = 30,
        sb_logstart = 2, sb_inodestart = 32, sb_bmapstart = 45\<rparr>,
      itable = (\<lambda>_. \<lparr>i_dev = 0, i_inum = 0, i_ref = 0, i_valid = False, i_type = 0, i_major = 0, i_minor = 0,
        i_nlink = 0, i_size = 0, i_addrs = (\<lambda>_. 0)\<rparr>)\<rparr>"

lemma fs_demo_fields [simp]:
  "held fs_demo = []" "curproc fs_demo = Some 0" "ram fs_demo = ram user_demo"
  "p_pagetable (procs fs_demo p) = 0x87ffd000" "\<not> p_killed (procs fs_demo p)"
  "b_blockno (bufs fs_demo c) = 0" "\<not> b_disk (bufs fs_demo c)"
  "cons_r fs_demo = 0" "cons_w fs_demo = 0" "cons_e fs_demo = 0"
  by (simp_all add: fs_demo_def bio_st.defs bio_demo_def cache_start_fields proc_zero_def bio_zero_boot bio_zero_def buf_zero_def)

definition wrapping_pipe :: pipe where
  "wrapping_pipe = \<lparr>pi_data = (\<lambda>_. 7), pi_nread = 0xffffffff, pi_nwrite = 0, pi_readopen = True,
     pi_writeopen = True\<rparr>"

definition pipe_demo :: pipe_st where
  "pipe_demo = fs_st.extend fs_demo \<lparr>pipes = (\<lambda>_. wrapping_pipe)\<rparr>"

lemma pipe_demo_fields [simp]:
  "held pipe_demo = []" "curproc pipe_demo = Some 0" "ram pipe_demo = ram user_demo"
  "procs pipe_demo = procs fs_demo" "pipes pipe_demo a = wrapping_pipe"
  using fs_demo_fields by (simp_all add: pipe_demo_def fs_st.defs)

end
