(* ===== verification/Ring.thy ===== *)
theory Ring
  imports Prelude
begin

text \<open>
  The ring buffers of the kernel (pipe data, console input, UART output) share one scheme: an array
  of \<open>n\<close> slots, two indices that only ever grow and wrap at the width of the machine integer, and
  the slot of an index taken modulo \<open>n\<close>. The scheme is right because \<open>n\<close> divides the wrap-around.
  The contents between the indices form a list; the locale \<open>ring_queue\<close> is the interface the three
  components offer, a bounded queue.
\<close>

definition ring_list :: "nat \<Rightarrow> (nat \<Rightarrow> 'a) \<Rightarrow> 'l::len word \<Rightarrow> 'l word \<Rightarrow> 'a list" where
  "ring_list n d r w = map (\<lambda>i. d (unat (r + of_nat i) mod n)) [0..<unat (w - r)]"

lemma length_ring_list [simp]: "length (ring_list n d r w) = unat (w - r)"
  by (simp add: ring_list_def)

lemma ring_list_empty [simp]: "ring_list n d r r = []"
  by (simp add: ring_list_def)

lemma ring_slot:
  fixes r :: "'l::len word"
  assumes "n dvd 2 ^ LENGTH('l)"
  shows "unat (r + of_nat i) mod n = (unat r + i) mod n"
  using assms by (simp add: unat_word_ariths unat_of_nat mod_mod_cancel mod_simps)

lemma ring_distance:
  fixes r w :: "'l::len word"
  shows "w = r + of_nat (unat (w - r))"
  by simp

lemma unat_dec:
  fixes x :: "'l::len word"
  shows "x \<noteq> 0 \<Longrightarrow> unat (x - 1) = unat x - 1"
  by (simp add: unat_minus_one)

lemma unat_inc:
  fixes x :: "'l::len word"
  assumes "unat x < n" and "n \<le> 2 ^ LENGTH('l) - 1"
  shows "unat (x + 1) = Suc (unat x)"
proof -
  have "unat x + 1 < 2 ^ LENGTH('l)" using assms by linarith
  then show ?thesis by (simp add: unat_word_ariths)
qed

lemma ring_list_put:
  fixes r w :: "'l::len word"
  assumes div: "n dvd 2 ^ LENGTH('l)" and room: "unat (w - r) < n" and small: "n \<le> 2 ^ LENGTH('l) - 1"
  shows "ring_list n (d(unat w mod n := c)) r (w + 1) = ring_list n d r w @ [c]"
proof -
  define k where "k = unat (w - r)"
  have w: "w = r + of_nat k" by (simp add: k_def)
  have k1: "unat (w + 1 - r) = Suc k"
    using unat_inc [of "w - r" n] room small by (simp add: k_def algebra_simps)
  have slot: "unat w mod n = (unat r + k) mod n" using ring_slot [OF div, of r k] w by simp
  have ne: "(unat r + i) mod n \<noteq> (unat r + k) mod n" if "i < k" for i
  proof
    assume "(unat r + i) mod n = (unat r + k) mod n"
    then have "n dvd (unat r + k) - (unat r + i)"
      using that mod_eq_dvd_iff_nat [of "unat r + i" "unat r + k" n] by (metis add_le_cancel_left less_imp_le)
    then have "n dvd k - i" by simp
    then show False using that room by (auto simp: k_def dest: dvd_imp_le)
  qed
  show ?thesis
    unfolding ring_list_def k1 k_def [symmetric]
    by (simp add: ring_slot [OF div] slot ne)
qed

lemma ring_list_get:
  fixes r w :: "'l::len word"
  assumes "w \<noteq> r"
  shows "ring_list n d r w = d (unat r mod n) # ring_list n d (r + 1) w"
proof -
  have "w - r \<noteq> 0" using assms by simp
  then obtain k where k: "unat (w - r) = Suc k" by (metis not0_implies_Suc unat_eq_zero)
  have "unat (w - r - 1) = k" using unat_dec [OF \<open>w - r \<noteq> 0\<close>] k by simp
  then have k': "unat (w - (r + 1)) = k" by (simp add: algebra_simps)
  have "[0..<Suc k] = 0 # map Suc [0..<k]" by (simp add: upt_conv_Cons map_Suc_upt)
  then show ?thesis
    unfolding ring_list_def k k' by (simp add: algebra_simps)
qed

lemma ring_distance_get:
  fixes r w :: "'l::len word"
  assumes "w \<noteq> r"
  shows "unat (w - r) = Suc (unat (w - (r + 1)))"
  using arg_cong [OF ring_list_get [OF assms, of 1 "\<lambda>_. ()"], of length] by simp

lemma ring_list_unput:
  fixes r w :: "'l::len word"
  assumes "w \<noteq> r"
  shows "ring_list n d r (w - 1) = butlast (ring_list n d r w)"
proof -
  have "w - r \<noteq> 0" using assms by simp
  then have "unat (w - 1 - r) = unat (w - r) - 1" using unat_dec [of "w - r"] by (simp add: algebra_simps)
  then show ?thesis
    by (cases "unat (w - r)") (simp_all add: ring_list_def butlast_append)
qed

lemma ring_list_last:
  fixes r w :: "'l::len word"
  assumes "w \<noteq> r"
  shows "last (ring_list n d r w) = d (unat (w - 1) mod n)"
proof -
  have "w - r \<noteq> 0" using assms by simp
  then obtain k where k: "unat (w - r) = Suc k" by (metis not0_implies_Suc unat_eq_zero)
  then have "unat (w - 1 - r) = k" using unat_dec [OF \<open>w - r \<noteq> 0\<close>] by (simp add: algebra_simps)
  then have "w - 1 = r + of_nat k" using ring_distance [of "w - 1" r] by simp
  then show ?thesis by (simp only: ring_list_def k) simp
qed

lemma ring_list_append:
  fixes r m w :: "'l::len word"
  assumes "unat (m - r) \<le> unat (w - r)"
  shows "ring_list n d r w = ring_list n d r m @ ring_list n d m w"
proof -
  define a b where "a = unat (m - r)" and "b = unat (w - m)"
  have "w - m = (w - r) - (m - r)" by simp
  then have b: "b = unat (w - r) - a" using assms by (simp only: a_def b_def unat_sub word_le_nat_alt)
  have m: "m = r + of_nat a" by (simp add: a_def)
  have "[0..<unat (w - r)] = [0..<a] @ map (\<lambda>i. a + i) [0..<b]"
    using assms b upt_add_eq_append [of 0 a b] map_add_upt [of a b] by (simp add: a_def add.commute)
  then show ?thesis
    unfolding ring_list_def a_def [symmetric] b_def [symmetric] by (simp add: m algebra_simps)
qed

text \<open>The interface: a bounded first-in first-out queue.\<close>

locale ring_queue =
  fixes capacity :: nat and ok :: "'q \<Rightarrow> bool" and elems :: "'q \<Rightarrow> 'a list"
    and is_empty :: "'q \<Rightarrow> bool" and is_full :: "'q \<Rightarrow> bool"
    and put :: "'a \<Rightarrow> 'q \<Rightarrow> 'q" and nxt :: "'q \<Rightarrow> 'a" and get :: "'q \<Rightarrow> 'q"
  assumes bounded: "ok q \<Longrightarrow> length (elems q) \<le> capacity"
    and empty_iff: "ok q \<Longrightarrow> is_empty q \<longleftrightarrow> elems q = []"
    and full_iff: "ok q \<Longrightarrow> is_full q \<longleftrightarrow> length (elems q) = capacity"
    and put_elems: "ok q \<Longrightarrow> \<not> is_full q \<Longrightarrow> ok (put c q) \<and> elems (put c q) = elems q @ [c]"
    and get_elems: "ok q \<Longrightarrow> \<not> is_empty q \<Longrightarrow> ok (get q) \<and> elems q = nxt q # elems (get q)"
begin

lemma put_all:
  assumes "ok q" and "length (elems q) + length cs \<le> capacity"
  shows "ok (fold put cs q) \<and> elems (fold put cs q) = elems q @ cs"
  using assms
proof (induction cs arbitrary: q)
  case (Cons c cs)
  have "\<not> is_full q" using Cons.prems full_iff by simp
  then show ?case using Cons.IH [of "put c q"] put_elems [of q c] Cons.prems by simp
qed simp

lemma get_many:
  assumes "ok q" and "k \<le> length (elems q)"
  shows "ok ((get ^^ k) q) \<and> elems ((get ^^ k) q) = drop k (elems q)"
  using assms
proof (induction k)
  case (Suc k)
  then have IH: "ok ((get ^^ k) q)" "elems ((get ^^ k) q) = drop k (elems q)" by simp_all
  have "\<not> is_empty ((get ^^ k) q)" using IH empty_iff Suc.prems(2) by simp
  from get_elems [OF IH(1) this] IH(2) show ?case by (simp add: drop_Suc tl_drop [symmetric])
qed simp

text \<open>What goes in comes out in the same order.\<close>

lemma put_all_get_many:
  assumes "ok q" and "length (elems q) + length cs \<le> capacity"
  shows "elems ((get ^^ length (elems q)) (fold put cs q)) = cs"
  using put_all [OF assms] get_many [of "fold put cs q" "length (elems q)"] by simp

end

text \<open>The scheme of the kernel is such a queue.\<close>

lemma ring_full_iff:
  fixes r w :: "'l::len word"
  assumes "unat (w - r) \<le> n" and "n < 2 ^ LENGTH('l)"
  shows "w = r + of_nat n \<longleftrightarrow> unat (w - r) = n"
proof
  assume "w = r + of_nat n"
  then have "unat (w - r) = n mod 2 ^ LENGTH('l)" by (simp add: unat_of_nat)
  then show "unat (w - r) = n" using assms(2) by simp
next
  assume "unat (w - r) = n"
  then show "w = r + of_nat n" using ring_distance [of w r] by simp
qed

end
