(* ===== verification/PipeQueue.thy ===== *)
theory PipeQueue
  imports Demo Ring
begin

text \<open>
  Pipes as byte queues. \<open>pipe_elems\<close> is the list of bytes written and not yet read; the array, the two
  32-bit counters and their comparisons implement a queue of \<^verbatim>\<open>PIPESIZE\<close> bytes (interpretation \<open>pq\<close>),
  also when the counters wrap. \<^verbatim>\<open>pipewrite\<close> and \<^verbatim>\<open>piperead\<close> are then computed exactly: what they move
  between the user's memory and the queue, whom they wake, and when they sleep.
\<close>

section \<open>The queue\<close>

definition pipe_ok :: "pipe \<Rightarrow> bool" where
  "pipe_ok p \<longleftrightarrow> unat (pi_nwrite p - pi_nread p) \<le> PIPESIZE"

definition pipe_elems :: "pipe \<Rightarrow> u8 list" where
  "pipe_elems p = ring_list PIPESIZE (pi_data p) (pi_nread p) (pi_nwrite p)"

definition pipe_empty :: "pipe \<Rightarrow> bool" where
  "pipe_empty p \<longleftrightarrow> pi_nread p = pi_nwrite p"

definition pipe_full :: "pipe \<Rightarrow> bool" where
  "pipe_full p \<longleftrightarrow> pi_nwrite p = pi_nread p + of_nat PIPESIZE"

lemma pipe_dvd: "PIPESIZE dvd 2 ^ LENGTH(32)" "PIPESIZE \<le> 2 ^ LENGTH(32) - 1" "PIPESIZE < 2 ^ LENGTH(32)"
  by (simp_all add: PIPESIZE_def)

interpretation pq: ring_queue PIPESIZE pipe_ok pipe_elems pipe_empty pipe_full pipe_put pipe_next pipe_get
proof
  fix q :: pipe and c
  assume ok: "pipe_ok q"
  show "length (pipe_elems q) \<le> PIPESIZE" using ok by (simp add: pipe_ok_def pipe_elems_def)
  show "pipe_empty q \<longleftrightarrow> pipe_elems q = []"
    by (auto simp: pipe_empty_def pipe_elems_def simp flip: length_0_conv simp: unat_eq_zero)
  show full: "pipe_full q \<longleftrightarrow> length (pipe_elems q) = PIPESIZE"
    using ok ring_full_iff [OF _ pipe_dvd(3)] by (simp add: pipe_ok_def pipe_full_def pipe_elems_def)
  show "pipe_ok (pipe_put c q) \<and> pipe_elems (pipe_put c q) = pipe_elems q @ [c]" if "\<not> pipe_full q"
  proof -
    have room: "unat (pi_nwrite q - pi_nread q) < PIPESIZE"
      using that ok full by (simp add: pipe_ok_def pipe_elems_def)
    then have "unat (pi_nwrite q + 1 - pi_nread q) \<le> PIPESIZE"
      using unat_inc [OF room pipe_dvd(2)] by (simp add: algebra_simps)
    then show ?thesis
      using ring_list_put [OF pipe_dvd(1) room pipe_dvd(2)] by (simp add: pipe_ok_def pipe_elems_def pipe_put_def)
  qed
  show "pipe_ok (pipe_get q) \<and> pipe_elems q = pipe_next q # pipe_elems (pipe_get q)" if "\<not> pipe_empty q"
  proof -
    have ne: "pi_nwrite q \<noteq> pi_nread q" using that by (auto simp: pipe_empty_def)
    then show ?thesis
      using ok ring_list_get [OF ne] ring_distance_get [OF ne] by (simp add: pipe_ok_def pipe_elems_def pipe_get_def pipe_next_def)
  qed
qed

section \<open>One user byte\<close>

definition ubytes :: "mem \<Rightarrow> u64 \<Rightarrow> u64 \<Rightarrow> nat \<Rightarrow> u8 list" where
  "ubytes m root va n = map (\<lambda>i. ubyte m root (va + of_nat i)) [0..<n]"

lemma length_ubytes [simp]: "length (ubytes m root va n) = n"
  by (simp add: ubytes_def)

lemma copyin_byte:
  assumes "pt_wf e (ram s) root" and "user_ok (ram s) root" and "readable (ram s) root va"
  shows "copyin root va 1 s = Ok (0, [ubyte (ram s) root va]) s"
proof -
  have lt: "unat va < unat MAXVA" using assms(3) by (simp add: readable_def word_less_nat_alt)
  have "a = va" if "in_range va 1 a" for a
    using that by (simp add: in_range_def word_unat_eq_iff)
  then show ?thesis using copyin_spec [OF assms(1,2), of va 1] assms(3) lt by auto
qed

lemma copyout_byte:
  assumes "pt_wf e (ram s) root" and "writable (ram s) root va"
  shows "copyout root va [c] s = Ok 0 (s\<lparr>ram := put_user (ram s) root va [c]\<rparr>)"
proof -
  have "page_of va < MAXVA" using assms(2) by (simp add: writable_def readable_def page_of_lt_iff)
  then have "writable (ram s) root (page_of va)"
    using assms(2) xlate_page [of "page_of va" va] by (simp add: writable_def readable_def)
  moreover have "page_rest va (Suc 0) = 1" using page_rest_pos [of 1 va] by (simp add: page_rest_eq)
  ultimately show ?thesis
    using copyout_step [OF assms(1), of "[c]" va] by (simp add: copyout.simps m_simps)
qed

section \<open>pipewrite\<close>

text \<open>
  A writer that may go on: it holds the pipe's lock, the read end is open and it has not been
  killed. Its bytes are \<open>bs\<close>, in its own address space.
\<close>

definition can_write :: "u64 \<Rightarrow> nat \<Rightarrow> 'a pipe_st_scheme \<Rightarrow> bool" where
  "can_write pi pr s \<longleftrightarrow> curproc s = Some pr \<and> pi_readopen (pipes s pi) \<and> \<not> p_killed (procs s pr) \<and>
     pipe_ok (pipes s pi)"

definition user_src :: "'a pipe_st_scheme \<Rightarrow> nat \<Rightarrow> u64 \<Rightarrow> u8 list \<Rightarrow> bool" where
  "user_src s pr addr bs \<longleftrightarrow> (\<exists>e. pt_wf e (ram s) (p_pagetable (procs s pr))) \<and>
     user_ok (ram s) (p_pagetable (procs s pr)) \<and>
     (\<forall>i < length bs. readable (ram s) (p_pagetable (procs s pr)) (addr + of_nat i) \<and>
        ubyte (ram s) (p_pagetable (procs s pr)) (addr + of_nat i) = bs ! i)"

definition woke :: "chan \<Rightarrow> 'a pipe_st_scheme \<Rightarrow> 'a pipe_st_scheme" where
  "woke cn s = s\<lparr>procs := woken (curproc s) (Some cn) {..<NPROC} (procs s)\<rparr>"

definition with_pipe :: "u64 \<Rightarrow> pipe \<Rightarrow> 'a pipe_st_scheme \<Rightarrow> 'a pipe_st_scheme" where
  "with_pipe pi p s = s\<lparr>pipes := (pipes s)(pi := p)\<rparr>"

definition free_lock :: "'a pipe_st_scheme \<Rightarrow> 'a pipe_st_scheme" where
  "free_lock s = s\<lparr>held := []\<rparr>"

lemma with_pipe_simps [simp]:
  "curproc (with_pipe pi p s) = curproc s" "procs (with_pipe pi p s) = procs s" "ram (with_pipe pi p s) = ram s"
  "held (with_pipe pi p s) = held s" "pipes (with_pipe pi p s) pi = p"
  "with_pipe pi q (with_pipe pi p s) = with_pipe pi q s" "with_pipe pi (pipes s pi) s = s"
  by (simp_all add: with_pipe_def)

lemma pipewrite_end_apply:
  assumes "held s = [L_pipe pi]"
  shows "pipewrite_end pi i s = Ok (int i) (free_lock (woke (Ch_nread pi) s))"
  using assms by (simp add: pipewrite_end_def m_simps wakeup_blocked_def woke_def free_lock_def)

text \<open>The loop writes until the queue is full, then wakes the readers and sleeps.\<close>

lemma pipewrite_loop_apply:
  assumes "held s = [L_pipe pi]" and "can_write pi pr s" and "user_src s pr addr bs" and "i \<le> length bs"
  shows "pipewrite_loop (length bs - i) i pi pr addr s =
    (let q = pipes s pi; room = PIPESIZE - length (pipe_elems q) in
     if length bs - i \<le> room
     then Ok (int (length bs)) (free_lock (woke (Ch_nread pi) (with_pipe pi (fold pipe_put (drop i bs) q) s)))
     else Swtch (asleep pr (Ch_nwrite pi)
       (woke (Ch_nread pi) (with_pipe pi (fold pipe_put (take room (drop i bs)) q) s))))"
  using assms
proof (induction "length bs - i" arbitrary: i s)
  case 0
  then show ?case by (simp add: pipewrite_end_apply)
next
  case (Suc k)
  let ?q = "pipes s pi"
  have i: "i < length bs" "drop i bs = bs ! i # drop (Suc i) bs"
    using Suc.hyps(2) by (simp_all add: Cons_nth_drop_Suc)
  have ok: "pipe_ok ?q" "pi_readopen ?q" "curproc s = Some pr" "\<not> p_killed (procs s pr)"
    using Suc.prems(2) by (simp_all add: can_write_def)
  have kd: "killed pr s = Ok False s" using Suc.prems(1) ok(4) by (simp add: killed_apply)
  show ?case
  proof (cases "pipe_full ?q")
    case True
    then have "PIPESIZE - length (pipe_elems ?q) = 0" using pq.full_iff [OF ok(1)] by simp
    moreover have "wakeup (Some (Ch_nread pi)) s = Ok () (woke (Ch_nread pi) s)"
      using Suc.prems(1) by (simp add: m_simps wakeup_blocked_def woke_def)
    moreover have "sleep (Some (Ch_nwrite pi)) (L_pipe pi) (woke (Ch_nread pi) s) =
        Swtch (asleep pr (Ch_nwrite pi) (woke (Ch_nread pi) s))"
      using Suc.prems(1) ok(3) by (intro sleep_apply) (simp_all add: woke_def)
    ultimately show ?thesis
      using True ok(2) kd Suc.hyps(2) [symmetric]
      by (simp add: get_pipe_def m_simps pipe_full_def Let_def bnd_def)
  next
    case False
    let ?s = "with_pipe pi (pipe_put (bs ! i) ?q) s"
    have put: "pipe_ok (pipe_put (bs ! i) ?q)" "pipe_elems (pipe_put (bs ! i) ?q) = pipe_elems ?q @ [bs ! i]"
      using pq.put_elems [OF ok(1) False] by simp_all
    have room: "length (pipe_elems ?q) < PIPESIZE"
      using False pq.full_iff [OF ok(1)] pq.bounded [OF ok(1)] by simp
    obtain e where "pt_wf e (ram s) (p_pagetable (procs s pr))" using Suc.prems(3) by (auto simp: user_src_def)
    then have "copyin (p_pagetable (procs s pr)) (addr + of_nat i) 1 s = Ok (0, [bs ! i]) s"
      using copyin_byte [of e s] Suc.prems(3) i(1) by (auto simp: user_src_def)
    then have step: "pipewrite_loop (Suc k) i pi pr addr s = pipewrite_loop k (Suc i) pi pr addr ?s"
      using False ok(2) kd
      by (simp add: get_pipe_def upd_pipe_def m_simps pipe_full_def with_pipe_def bnd_def)
    have "can_write pi pr ?s" "user_src ?s pr addr bs"
      using Suc.prems(2,3) put(1) by (simp_all add: can_write_def user_src_def pipe_put_def)
    moreover obtain m where m: "PIPESIZE - length (pipe_elems ?q) = Suc m" "PIPESIZE - Suc (length (pipe_elems ?q)) = m"
      using room by (metis Suc_diff_Suc)
    moreover have k: "length bs - Suc i = k" "length bs - i = Suc k" using Suc.hyps(2) by simp_all
    ultimately have "pipewrite_loop k (Suc i) pi pr addr ?s =
      (if k \<le> m
       then Ok (int (length bs)) (free_lock (woke (Ch_nread pi)
         (with_pipe pi (fold pipe_put (drop (Suc i) bs) (pipe_put (bs ! i) ?q)) s)))
       else Swtch (asleep pr (Ch_nwrite pi) (woke (Ch_nread pi)
         (with_pipe pi (fold pipe_put (take m (drop (Suc i) bs)) (pipe_put (bs ! i) ?q)) s))))"
      using Suc.hyps(1) [of "Suc i" ?s] Suc.prems(1) i(1) by (simp add: put(2))
    then show ?thesis using step k m i by simp
  qed
qed

section \<open>piperead\<close>

definition user_dst :: "u64 \<Rightarrow> mem \<Rightarrow> u64 \<Rightarrow> u64 \<Rightarrow> nat \<Rightarrow> bool" where
  "user_dst e m root addr n \<longleftrightarrow> pt_wf e m root \<and> user_ok m root \<and> unat addr + n \<le> unat MAXVA \<and>
     (\<forall>i < n. writable m root (addr + of_nat i))"

lemma piperead_end_apply:
  assumes "held s = [L_pipe pi]"
  shows "piperead_end pi i s = Ok (int i) (free_lock (woke (Ch_nwrite pi) s))"
  using assms by (simp add: piperead_end_def m_simps wakeup_blocked_def woke_def free_lock_def)

lemma copied_nil [simp]: "copied root va [] 0 m m"
  by (auto simp: copied_def in_range_def)

lemma put_byte:
  fixes c :: u8
  assumes dst: "user_dst e m root addr (Suc n)"
  defines "m' \<equiv> put_user m root addr [c]"
  shows "user_dst e m' root (addr + 1) n" and "copied root (addr + 1) bs 0 m' m'' \<Longrightarrow> copied root addr (c # bs) 0 m m''"
    and "writable m root addr"
proof -
  have D: "pt_wf e m root" "user_ok m root" "unat addr + Suc n \<le> unat MAXVA" using dst by (auto simp: user_dst_def)
  have "writable m root (addr + of_nat 0)" using dst unfolding user_dst_def by blast
  then show w: "writable m root addr" by simp
  have fit: "unat addr mod 4096 + length [c] \<le> 4096" using mod_less_divisor [of 4096 "unat addr"] by simp
  have r: "readable m root addr" using w by (simp add: writable_def)
  note T = put_user_tables [OF D(1,2) r fit] and ok = put_user_ok [OF D(1,2) r fit]
  have next_addr: "unat (addr + 1) = Suc (unat addr)" if "0 < n"
    using D(3) by (simp add: unat_word_ariths MAXVA_val)
  have wr: "writable m root (addr + 1 + of_nat i)" if "i < n" for i
  proof -
    have "writable m root (addr + of_nat (Suc i))" using dst that unfolding user_dst_def by blast
    then show ?thesis by (simp add: add_ac)
  qed
  have "unat (addr + 1) + n \<le> unat MAXVA"
  proof (cases "0 < n")
    case True
    then show ?thesis using next_addr D(3) by simp
  next
    case False
    moreover have "unat (addr + 1) \<le> Suc (unat addr)" by (simp add: unat_word_ariths)
    ultimately show ?thesis using D(3) by simp
  qed
  then show "user_dst e m' root (addr + 1) n"
    using T(1,3) ok wr by (simp add: user_dst_def m'_def writable_def readable_def)
  show "copied root addr (c # bs) 0 m m''" if rest: "copied root (addr + 1) bs 0 m' m''"
  proof (rule copied_step [where n = 1 and va' = "addr + 1", OF _ T(3)])
    show "copied root (addr + 1) (drop 1 (c # bs)) 0 (put_user m root addr [c]) m''"
      using rest by (simp add: m'_def)
    show "unat addr + 1 \<le> unat MAXVA" using D(3) by simp
    fix a
    have one: "in_range addr 1 a \<longleftrightarrow> a = addr" by (auto simp: in_range_def word_unat_eq_iff)
    then show "in_range addr 1 a \<Longrightarrow> readable m root a" using r by simp
    show "ubyte (put_user m root addr [c]) root a =
        (if in_range addr 1 a then (c # bs) ! (unat a - unat addr) else ubyte m root a)" if "readable m root a"
      using put_user_byte [OF D(1,2) w that fit] one by auto
  next
    show "unat (addr + 1) = unat addr + 1" using D(3) by (simp add: unat_word_ariths MAXVA_val)
  qed simp
qed

lemma piperead_loop_apply:
  assumes "held s = [L_pipe pi]" and "pipe_ok (pipes s pi)" and "user_dst e (ram s) root (addr + of_nat i) k"
    and "p_pagetable (procs s pr) = root"
  shows "\<exists>m. piperead_loop k i pi pr addr s =
      Ok (int (i + min k (length (pipe_elems (pipes s pi)))))
        (free_lock (woke (Ch_nwrite pi) (with_pipe pi
          ((pipe_get ^^ min k (length (pipe_elems (pipes s pi)))) (pipes s pi)) (s\<lparr>ram := m\<rparr>)))) \<and>
    copied root (addr + of_nat i) (take k (pipe_elems (pipes s pi))) 0 (ram s) m"
  using assms
proof (induction k arbitrary: i s)
  case 0
  then have "piperead_loop 0 i pi pr addr s = Ok (int i) (free_lock (woke (Ch_nwrite pi) s))"
    by (simp add: piperead_end_apply)
  then show ?case by (intro exI [of _ "ram s"]) simp
next
  case (Suc k)
  let ?q = "pipes s pi"
  show ?case
  proof (cases "pipe_empty ?q")
    case True
    then have "pipe_elems ?q = []" using pq.empty_iff Suc.prems(2) by simp
    moreover have "piperead_loop (Suc k) i pi pr addr s = Ok (int i) (free_lock (woke (Ch_nwrite pi) s))"
      using True Suc.prems(1) by (simp add: get_pipe_def m_simps pipe_empty_def piperead_end_apply)
    ultimately show ?thesis by (intro exI [of _ "ram s"]) simp
  next
    case False
    let ?c = "pipe_next ?q"
    let ?m = "put_user (ram s) root (addr + of_nat i) [?c]"
    let ?s = "with_pipe pi (pipe_get ?q) (s\<lparr>ram := ?m\<rparr>)"
    have q: "pipe_ok (pipe_get ?q)" "pipe_elems ?q = ?c # pipe_elems (pipe_get ?q)"
      using pq.get_elems [OF Suc.prems(2) False] by simp_all
    note dst = put_byte(1,2) [OF Suc.prems(3), where c = ?c] put_byte(3) [OF Suc.prems(3)]
    have "copyout root (addr + of_nat i) [?c] (with_pipe pi (pipe_get ?q) s) = Ok 0 ?s"
      using copyout_byte [of e "with_pipe pi (pipe_get ?q) s" root "addr + of_nat i" ?c] Suc.prems(3) dst(3)
      by (simp add: user_dst_def with_pipe_def)
    then have step: "piperead_loop (Suc k) i pi pr addr s = piperead_loop k (Suc i) pi pr addr ?s"
      using False Suc.prems(4)
      by (simp add: get_pipe_def upd_pipe_def m_simps pipe_empty_def with_pipe_def bnd_def)
    have "\<exists>m. piperead_loop k (Suc i) pi pr addr ?s =
        Ok (int (Suc i + min k (length (pipe_elems (pipe_get ?q)))))
          (free_lock (woke (Ch_nwrite pi) (with_pipe pi
            ((pipe_get ^^ min k (length (pipe_elems (pipe_get ?q)))) (pipe_get ?q)) (?s\<lparr>ram := m\<rparr>)))) \<and>
      copied root (addr + of_nat (Suc i)) (take k (pipe_elems (pipe_get ?q))) 0 ?m m"
      using Suc.IH [of ?s "Suc i"] Suc.prems dst(1) q(1) by (simp add: with_pipe_def add_ac)
    then obtain m where m: "piperead_loop k (Suc i) pi pr addr ?s =
        Ok (int (Suc i + min k (length (pipe_elems (pipe_get ?q)))))
          (free_lock (woke (Ch_nwrite pi) (with_pipe pi
            ((pipe_get ^^ min k (length (pipe_elems (pipe_get ?q)))) (pipe_get ?q)) (?s\<lparr>ram := m\<rparr>))))"
      "copied root (addr + of_nat (Suc i)) (take k (pipe_elems (pipe_get ?q))) 0 ?m m" by blast
    then show ?thesis
      using step dst(2) [of "take k (pipe_elems (pipe_get ?q))" m] q(2)
      by (intro exI [of _ m]) (simp add: with_pipe_def funpow_swap1 add_ac)
  qed
qed

section \<open>Properties\<close>

text \<open>
  C11: A writer of \<open>bs\<close> with the read end open appends as many of its bytes as fit to the pipe, in order, and
  wakes every sleeping reader. When all fit it returns their number; otherwise it ends up asleep
  waiting for room, with the pipe full. When the read end is closed or the writer was killed it
  returns -1 and changes nothing.
\<close>

theorem pipewrite_appends:
  assumes "held s = []" and "curproc s = Some pr" and "pipe_ok (pipes s pi)" and "user_src s pr addr bs"
  shows "if \<not> pi_readopen (pipes s pi) \<or> p_killed (procs s pr)
    then bs \<noteq> [] \<longrightarrow> pipewrite pi addr (int (length bs)) s = Ok (-1) s
    else \<exists>t. pipe_ok (pipes t pi) \<and> pipe_elems (pipes t pi) = take PIPESIZE (pipe_elems (pipes s pi) @ bs) \<and>
      (\<forall>p < NPROC. p \<noteq> pr \<and> p_state (procs s p) = SLEEPING \<and> p_chan (procs s p) = Some (Ch_nread pi) \<longrightarrow>
        p_state (procs t p) = RUNNABLE) \<and>
      (if length (pipe_elems (pipes s pi)) + length bs \<le> PIPESIZE
       then pipewrite pi addr (int (length bs)) s = Ok (int (length bs)) t \<and> held t = []
       else pipewrite pi addr (int (length bs)) s = Swtch t \<and> p_state (procs t pr) = SLEEPING \<and>
         p_chan (procs t pr) = Some (Ch_nwrite pi))"
proof (cases "\<not> pi_readopen (pipes s pi) \<or> p_killed (procs s pr)")
  case True
  let ?s = "s\<lparr>held := [L_pipe pi]\<rparr>"
  have "killed pr ?s = Ok (p_killed (procs s pr)) ?s" by (simp add: killed_apply)
  moreover have "s\<lparr>held := []\<rparr> = s" unfolding assms(1) [symmetric] by simp
  ultimately have "pipewrite_loop (Suc k) 0 pi pr addr ?s = Ok (-1) s" for k
    using True by (auto simp: m_simps get_pipe_def bnd_def)
  then have "pipewrite_loop (length bs) 0 pi pr addr ?s = Ok (-1) s" if "bs \<noteq> []"
    using that by (metis length_0_conv not0_implies_Suc)
  then have "pipewrite pi addr (int (length bs)) s = Ok (-1) s" if "bs \<noteq> []"
    using that assms(1,2) by (simp add: pipewrite_def with_myproc_def myproc_def m_simps)
  then show ?thesis using True by simp
next
  case False
  let ?q = "pipes s pi" and ?s = "s\<lparr>held := [L_pipe pi]\<rparr>"
  define r where "r = PIPESIZE - length (pipe_elems ?q)"
  have len: "length (pipe_elems ?q) + r = PIPESIZE" using pq.bounded [OF assms(3)] by (simp add: r_def)
  have "can_write pi pr ?s" "user_src ?s pr addr bs"
    using False assms by (simp_all add: can_write_def user_src_def)
  from pipewrite_loop_apply [OF _ this, of 0]
  have run: "pipewrite pi addr (int (length bs)) s =
    (if length bs \<le> r then Ok (int (length bs)) (free_lock (woke (Ch_nread pi) (with_pipe pi (fold pipe_put bs ?q) ?s)))
     else Swtch (asleep pr (Ch_nwrite pi) (woke (Ch_nread pi) (with_pipe pi (fold pipe_put (take r bs) ?q) ?s))))"
    using assms(1,2) by (simp add: pipewrite_def with_myproc_def myproc_def m_simps r_def Let_def)
  have q: "pipe_ok (fold pipe_put (take r bs) ?q)" "pipe_elems (fold pipe_put (take r bs) ?q) = pipe_elems ?q @ take r bs"
    using pq.put_all [OF assms(3), of "take r bs"] len by simp_all
  have tk: "take PIPESIZE (pipe_elems ?q @ bs) = pipe_elems ?q @ take r bs"
    using pq.bounded [OF assms(3)] by (simp add: r_def)
  show ?thesis
  proof (cases "length bs \<le> r")
    case True
    then show ?thesis
      using False run q len tk assms(2)
      by (auto simp: free_lock_def woke_def with_pipe_def woken_def wakes_def)
  next
    case nofit: False
    then show ?thesis
      using False run q len tk assms(2)
      by (auto simp: asleep_def woke_def with_pipe_def woken_def wakes_def)
  qed
qed

lemma pipe_demo_src: "user_src pipe_demo 0 0x20 (ubytes (ram user_demo) 0x87ffd000 0x20 3)"
proof -
  have "readable (ram user_demo) 0x87ffd000 (0x20 + of_nat i)" if "i < 3" for i
    using user_demo_dst [of "32 + i"] that by (simp add: writable_def)
  then show ?thesis
    using user_demo_wf(1) user_demo_ok by (auto simp: user_src_def ubytes_def)
qed

lemma pipe_demo_pipe:
  "pipe_ok wrapping_pipe" "pipe_elems wrapping_pipe = [7]" "pi_readopen wrapping_pipe" "pi_writeopen wrapping_pipe"
  by (simp_all add: wrapping_pipe_def pipe_ok_def pipe_elems_def ring_list_def PIPESIZE_def)

theorem pipewrite_appends_witness:
  "\<exists>t. pipewrite 0x83000000 0x20 3 pipe_demo = Ok 3 t \<and>
    pipe_elems (pipes t 0x83000000) = 7 # ubytes (ram user_demo) 0x87ffd000 0x20 3"
  using pipewrite_appends [OF _ _ _ pipe_demo_src, where pi = "0x83000000"]
  by (auto simp: pipe_demo_pipe PIPESIZE_def)

text \<open>
  C12: A reader of up to \<open>n\<close> bytes gets the oldest bytes of the pipe, in order and in its own memory, takes
  exactly these out of the pipe, wakes every sleeping writer and returns their number: zero only
  when the pipe is empty and closed for writing, or \<open>n\<close> is. On an empty pipe that a writer may
  still fill it sleeps, or returns -1 if it was killed.
\<close>

theorem piperead_takes:
  assumes "held s = []" and "curproc s = Some pr" and "pipe_ok (pipes s pi)"
    and "user_dst e (ram s) (p_pagetable (procs s pr)) addr n"
  shows "if pipe_elems (pipes s pi) = [] \<and> pi_writeopen (pipes s pi)
    then piperead pi addr (int n) s =
      (if p_killed (procs s pr) then Ok (-1) s else Swtch (asleep pr (Ch_nread pi) s))
    else \<exists>t. piperead pi addr (int n) s = Ok (int (min n (length (pipe_elems (pipes s pi))))) t \<and> held t = [] \<and>
      pipe_ok (pipes t pi) \<and> pipe_elems (pipes t pi) = drop n (pipe_elems (pipes s pi)) \<and>
      copied (p_pagetable (procs s pr)) addr (take n (pipe_elems (pipes s pi))) 0 (ram s) (ram t) \<and>
      (\<forall>p < NPROC. p \<noteq> pr \<and> p_state (procs s p) = SLEEPING \<and> p_chan (procs s p) = Some (Ch_nwrite pi) \<longrightarrow>
        p_state (procs t p) = RUNNABLE)"
proof (cases "pipe_elems (pipes s pi) = [] \<and> pi_writeopen (pipes s pi)")
  case True
  let ?s = "s\<lparr>held := [L_pipe pi]\<rparr>"
  have e: "pi_nread (pipes s pi) = pi_nwrite (pipes s pi)"
    using True pq.empty_iff [OF assms(3)] by (simp add: pipe_empty_def)
  have "killed pr ?s = Ok (p_killed (procs s pr)) ?s" by (simp add: killed_apply)
  moreover have "s\<lparr>held := []\<rparr> = s" unfolding assms(1) [symmetric] by simp
  ultimately have "piperead pi addr (int n) s =
      (if p_killed (procs s pr) then Ok (-1) s else Swtch (asleep pr (Ch_nread pi) s))"
    using True e assms(1,2)
    by (simp add: piperead_def with_myproc_def myproc_def m_simps get_pipe_def bnd_def sleep_apply [where p = pr] asleep_def)
  then show ?thesis using True by simp
next
  case False
  let ?s = "s\<lparr>held := [L_pipe pi]\<rparr>" and ?q = "pipes s pi"
  have "piperead pi addr (int n) s = piperead_loop n 0 pi pr addr ?s"
    using False assms(1,2) pq.empty_iff [OF assms(3)]
    by (auto simp: piperead_def with_myproc_def myproc_def m_simps get_pipe_def pipe_empty_def)
  moreover obtain m where m: "piperead_loop n 0 pi pr addr ?s = Ok (int (min n (length (pipe_elems ?q))))
      (free_lock (woke (Ch_nwrite pi) (with_pipe pi ((pipe_get ^^ min n (length (pipe_elems ?q))) ?q) (?s\<lparr>ram := m\<rparr>))))"
    "copied (p_pagetable (procs s pr)) addr (take n (pipe_elems ?q)) 0 (ram s) m"
    using piperead_loop_apply [of ?s pi e "p_pagetable (procs s pr)" addr 0 n pr] assms by auto
  moreover have "pipe_ok ((pipe_get ^^ min n (length (pipe_elems ?q))) ?q)"
    "pipe_elems ((pipe_get ^^ min n (length (pipe_elems ?q))) ?q) = drop n (pipe_elems ?q)"
    using pq.get_many [OF assms(3), of "min n (length (pipe_elems ?q))"] by (auto simp: min_def)
  ultimately show ?thesis
    using False assms(2) by (auto simp: free_lock_def woke_def with_pipe_def woken_def wakes_def)
qed

theorem piperead_takes_witness:
  "\<exists>t. piperead 0x83000000 0 5 pipe_demo = Ok 1 t \<and> pipe_elems (pipes t 0x83000000) = [] \<and>
    copied 0x87ffd000 0 [7] 0 (ram user_demo) (ram t)"
proof -
  have "user_dst 0x87ffd000 (ram user_demo) 0x87ffd000 0 5"
    using user_demo_wf(1) user_demo_ok user_demo_dst by (auto simp: user_dst_def MAXVA_val)
  then show ?thesis
    using piperead_takes [of pipe_demo 0 "0x83000000" "0x87ffd000" 0 5] by (auto simp: pipe_demo_pipe)
qed

end
