(* ===== verification/PrintNum.thy ===== *)
theory PrintNum
  imports Printf
begin

text \<open>
  The number formatting of \<^verbatim>\<open>kernel/printf.c\<close>: the characters \<^verbatim>\<open>printint\<close> sends are the positional
  notation of the number, and they fit its 16-byte buffer exactly when the number has at most
  sixteen characters.
\<close>

section \<open>Output\<close>

definition echo :: "u32 \<Rightarrow> u8 list" where
  "echo c = (if c = BACKSPACE then [8, 32, 8] else [ucast c])"

lemma consputc_apply [m_simps]: "consputc c s = Ok () (s\<lparr>tty := tty s @ echo c\<rparr>)"
  by (simp add: consputc_def uartputc_sync_def echo_def m_simps)

lemma consputb_apply [m_simps]: "consputb b s = Ok () (s\<lparr>tty := tty s @ [b]\<rparr>)"
proof -
  have "ucast b \<noteq> BACKSPACE"
    using u8_lt [of b] by (simp add: BACKSPACE_def word_unat_eq_iff unsigned_ucast_eq take_bit_nat_eq_self)
  moreover have "ucast (ucast b :: u32) = b" by (rule bit_word_eqI) (simp add: bit_simps)
  ultimately show ?thesis by (simp add: consputb_def consputc_apply echo_def)
qed

lemma putb_all: "for_each bs consputb s = Ok () (s\<lparr>tty := tty s @ bs\<rparr>)"
  by (induction bs arbitrary: s) (simp_all add: m_simps)

section \<open>Positional notation\<close>






text \<open>The digits of a number, and how many there are.\<close>

lemma digits_rev_step:
  assumes "1 < unat base"
  shows "digits_rev x base = digits ! (unat x mod unat base) #
    (if unat x < unat base then [] else digits_rev (x div base) base)"
proof -
  have "x div base = 0 \<longleftrightarrow> unat x < unat base" using assms by (simp add: word_unat_eq_iff unat_div div_eq_0_iff)
  moreover have "\<not> base < 2" using assms by (simp add: word_less_nat_alt)
  ultimately show ?thesis by (subst digits_rev.simps) (simp add: unat_mod)
qed


lemma digits_rev_length:
  assumes "1 < unat base"
  shows "length (digits_rev x base) \<le> Suc k \<longleftrightarrow> unat x < unat base ^ Suc k"
proof (induction k arbitrary: x)
  case 0
  have "length (digits_rev (x div base) base) \<ge> 1" by (subst digits_rev.simps) simp
  then show ?case by (subst digits_rev_step [OF assms]) auto
next
  case (Suc k)
  show ?case
  proof (cases "unat x < unat base")
    case True
    then have "unat x < unat base ^ Suc (Suc k)"
      using assms self_le_power [of "unat base" "Suc (Suc k)"] by (simp add: order_less_le_trans)
    then show ?thesis using True by (simp add: digits_rev_step [OF assms, of x])
  next
    case False
    have "length (digits_rev (x div base) base) \<le> Suc k \<longleftrightarrow> unat x div unat base < unat base ^ Suc k"
      using Suc.IH by (simp add: unat_div)
    also have "\<dots> \<longleftrightarrow> unat x < unat base ^ Suc (Suc k)"
      using assms by (simp add: div_less_iff_less_mult mult.commute)
    finally show ?thesis using False by (simp add: digits_rev_step [OF assms, of x])
  qed
qed


section \<open>printint\<close>



text \<open>The 32-bit arguments of \<^verbatim>\<open>%d\<close> always fit.\<close>

lemma printint_int32:
  "\<exists>out. printint (scast (y :: u32)) 10 True s = Ok () (s\<lparr>tty := tty s @ out\<rparr>)"
proof -
  let ?x = "scast y :: u64"
  have r: "sint ?x = sint y" "- (2 ^ 31) \<le> sint y" "sint y < 2 ^ 31"
    using sint_range_size [of y] by (simp_all add: word_size sint_up_scast is_up)
  define m where "m = (if sint ?x < 0 then - ?x else ?x)"
  have "uint (word_of_int k :: u64) = k" if "0 \<le> k" "k < 2 ^ 64" for k
    using that by (simp add: unsigned_of_int take_bit_int_eq_self)
  moreover have "m = word_of_int \<bar>sint y\<bar>" using r(1) by (auto simp: m_def abs_if)
  ultimately have "uint m = \<bar>sint y\<bar>" using r(2,3) by simp
  then have "unat m < 10 ^ 10" using r by (simp add: unat_eq_nat_uint nat_less_iff)
  then have "length (digits_rev m 10) \<le> 10" using digits_rev_length [of 10 m 9] by simp
  then have "length (printint_buf ?x 10 True) \<le> 16"
    by (simp add: printint_buf_def Let_def m_def [symmetric] bytes_def split: if_splits)
  then show ?thesis by (simp add: printint_def Let_def putb_all m_simps) blast
qed

section \<open>Routines that only print\<close>

text \<open>A routine that only prints, when the locks held satisfy \<open>H\<close>.\<close>

definition prints :: "(lockid list \<Rightarrow> bool) \<Rightarrow> (unit, 'a hart_scheme) m \<Rightarrow> bool" where
  "prints H c \<longleftrightarrow> (\<forall>s. H (held s) \<longrightarrow> (\<exists>out. c s = Ok () (s\<lparr>tty := tty s @ out\<rparr>)))"

abbreviation no_pr :: "lockid list \<Rightarrow> bool" where
  "no_pr hs \<equiv> L_pr \<notin> set hs"

lemma printsD: "prints H c \<Longrightarrow> H (held s) \<Longrightarrow> \<exists>out. c s = Ok () (s\<lparr>tty := tty s @ out\<rparr>)"
  by (simp add: prints_def)

lemma prints_ret [intro]: "prints H (ret ())"
  by (auto simp: prints_def m_simps intro!: exI [of _ "[]"])

lemma prints_bnd [intro]:
  assumes "prints H c" and "prints H d"
  shows "prints H (bnd c (\<lambda>_. d))"
  unfolding prints_def
proof (intro allI impI)
  fix s :: "'a hart_scheme" assume h: "H (held s)"
  with assms(1) obtain out where "c s = Ok () (s\<lparr>tty := tty s @ out\<rparr>)" by (auto simp: prints_def)
  moreover from h obtain out' where
    "d (s\<lparr>tty := tty s @ out\<rparr>) = Ok () (s\<lparr>tty := tty s @ out @ out'\<rparr>)"
    using printsD [OF assms(2), of "s\<lparr>tty := tty s @ out\<rparr>"] by auto
  ultimately show "\<exists>out. bnd c (\<lambda>_. d) s = Ok () (s\<lparr>tty := tty s @ out\<rparr>)" by (auto simp: bnd_def)
qed

lemma prints_block [intro]: "prints H c \<Longrightarrow> prints H (block cs) \<Longrightarrow> prints H (block (c # cs))"
  by (simp add: prints_bnd)

lemma prints_nil [intro]: "prints H (block [])"
  by (simp add: prints_ret)

lemma prints_for_each [intro]: "(\<And>i. prints H (f i)) \<Longrightarrow> prints H (for_each xs f)"
  by (induction xs) auto

lemma prints_if_do [intro]: "prints H c \<Longrightarrow> prints H (if_do b c)"
  by (auto simp: if_do_def)

lemma prints_gets [intro]: "(\<And>a. prints H (k a)) \<Longrightarrow> prints H (bnd (gets f) k)"
  by (simp add: prints_def m_simps)

lemma prints_consputb [intro]: "prints H (consputb b)"
  by (auto simp: prints_def m_simps)

lemma prints_int32 [intro]: "prints H (printint (scast (y :: u32)) 10 True)"
  using printint_int32 by (auto simp: prints_def)

lemma prints_printf:
  assumes "prints (\<lambda>_. True) (printf_loop (bytes fmt) ap :: (unit, 'a hart_scheme) m)"
  shows "prints no_pr (printf fmt ap :: (unit, 'a hart_scheme) m)"
  unfolding prints_def
proof (intro allI impI)
  fix s :: "'a hart_scheme" assume h: "no_pr (held s)"
  obtain out where "printf_loop (bytes fmt) ap s = Ok () (s\<lparr>tty := tty s @ out\<rparr>)"
    using printsD [OF assms TrueI] by blast
  moreover obtain out' where "printf_loop (bytes fmt) ap (s\<lparr>held := L_pr # held s\<rparr>) =
      Ok () (s\<lparr>held := L_pr # held s, tty := tty s @ out'\<rparr>)"
    using printsD [OF assms TrueI, of "s\<lparr>held := L_pr # held s\<rparr>"] by auto
  ultimately show "\<exists>out. printf fmt ap s = Ok () (s\<lparr>tty := tty s @ out\<rparr>)"
    using h by (cases "pr_locking s") (auto simp: printf_def m_simps)
qed

lemma printf_loop_Nil [simp]: "printf_loop [] ap = ret ()"
  by (rule ext) (simp add: printf_loop.simps)

lemma printf_loop_char:
  "c \<noteq> ch ''%'' \<Longrightarrow> printf_loop (c # fmt) ap = bnd (consputb c) (\<lambda>_. printf_loop fmt ap)"
  by (rule ext) (subst printf_loop.simps, simp)

lemma printf_loop_d:
  "printf_loop (37 # 100 # fmt) (Slot w # ap) =
     bnd (printint (scast (ucast w :: u32)) 10 True) (\<lambda>_. printf_loop fmt ap)"
  by (rule ext) (subst printf_loop.simps,
    simp add: ch_def bytes_def at_def printf_conv_def va_int_def Let_def bnd_assoc)

lemma printf_loop_s:
  "printf_loop (37 # 115 # fmt) (Str x # ap) =
     bnd (for_each (case x of None \<Rightarrow> bytes ''(null)'' | Some bs \<Rightarrow> bs) consputb) (\<lambda>_. printf_loop fmt ap)"
  by (rule ext) (subst printf_loop.simps,
    simp add: ch_def bytes_def at_def printf_conv_def va_str_def Let_def bnd_assoc)

lemma plain_char:
  assumes "c \<noteq> CHR ''%''"
  shows "(of_nat (of_char c) :: u8) \<noteq> ch ''%''"
proof
  assume "(of_nat (of_char c) :: u8) = ch ''%''"
  then have "unat (of_nat (of_char c) :: u8) = 37" by (simp add: ch_def bytes_def)
  moreover have "of_char c < (256 :: nat)" by simp
  ultimately have "of_char c = (of_char (CHR ''%'') :: nat)" by (simp add: unat_of_nat)
  then show False using assms by (simp only: of_char_eq_iff)
qed

lemma prints_plain:
  assumes "\<forall>c\<in>set fmt. c \<noteq> CHR ''%''"
  shows "prints no_pr (printf fmt [] :: (unit, 'a hart_scheme) m)"
proof (rule prints_printf)
  show "prints (\<lambda>_. True) (printf_loop (bytes fmt) [] :: (unit, 'a hart_scheme) m)"
    using assms
  proof (induction fmt)
    case Nil
    then show ?case by (simp add: bytes_def prints_ret)
  next
    case (Cons c fmt)
    then show ?case by (simp add: bytes_def printf_loop_char plain_char prints_bnd prints_consputb)
  qed
qed

end
