(* ===== verification/ConsoleLine.thy ===== *)
theory ConsoleLine
  imports Demo Ring PrintNum
begin

text \<open>
  The line discipline of \<^verbatim>\<open>kernel/console.c\<close>. The input buffer holds the characters readers may take
  (between \<^verbatim>\<open>cons.r\<close> and \<^verbatim>\<open>cons.w\<close>) and the line being typed (between \<^verbatim>\<open>cons.w\<close> and \<^verbatim>\<open>cons.e\<close>). \<open>edit\<close> says
  what a keystroke does to these two lists; \<^verbatim>\<open>consoleintr\<close> implements it on the ring buffer.
\<close>

section \<open>procdump\<close>

lemma prints_procdump: "prints no_pr procdump"
proof -
  have "prints no_pr (printf nl [])"
    by (rule prints_printf) (auto simp: nl_def bytes_def printf_loop_char ch_def)
  moreover have "prints no_pr (printf ''%d %s %s'' [Slot x, Str a, Str b])" for x a b
    by (rule prints_printf, simp add: bytes_def printf_loop_char printf_loop_d printf_loop_s ch_def)
      (intro prints_bnd prints_int32 prints_consputb prints_for_each)
  ultimately show ?thesis unfolding procdump_def by (intro prints_block prints_for_each prints_gets prints_if_do prints_nil)
qed

section \<open>The input buffer\<close>

definition cons_input :: "'a con_st_scheme \<Rightarrow> u8 list" where
  "cons_input s = ring_list INPUT_BUF_SIZE (cons_buf s) (cons_r s) (cons_w s)"

definition cons_line :: "'a con_st_scheme \<Rightarrow> u8 list" where
  "cons_line s = ring_list INPUT_BUF_SIZE (cons_buf s) (cons_w s) (cons_e s)"

definition cons_ok :: "'a con_st_scheme \<Rightarrow> bool" where
  "cons_ok s \<longleftrightarrow> unat (cons_w s - cons_r s) \<le> unat (cons_e s - cons_r s) \<and>
     unat (cons_e s - cons_r s) \<le> INPUT_BUF_SIZE \<and> 10 \<notin> set (cons_line s)"

text \<open>A keystroke: the characters ready for readers, and the line so far.\<close>

definition edit :: "u8 \<Rightarrow> u8 list \<times> u8 list \<Rightarrow> u8 list \<times> u8 list" where
  "edit c il = (let (inp, ln) = il in
     if c = Ctrl ''P'' then (inp, ln)
     else if c = Ctrl ''U'' then (inp, [])
     else if c = Ctrl ''H'' \<or> c = 0x7F then (inp, butlast ln)
     else if c = 0 \<or> length inp + length ln = INPUT_BUF_SIZE then (inp, ln)
     else let ln' = ln @ [if c = 13 then 10 else c] in
       if last ln' = 10 \<or> last ln' = Ctrl ''D'' \<or> length inp + length ln' = INPUT_BUF_SIZE
       then (inp @ ln', []) else (inp, ln'))"

lemma cons_all:
  assumes "cons_ok s"
  shows "ring_list INPUT_BUF_SIZE (cons_buf s) (cons_r s) (cons_e s) = cons_input s @ cons_line s"
    and "unat (cons_e s - cons_r s) = length (cons_input s) + length (cons_line s)"
proof -
  show all: "ring_list INPUT_BUF_SIZE (cons_buf s) (cons_r s) (cons_e s) = cons_input s @ cons_line s"
    using assms ring_list_append [of "cons_w s" "cons_r s" "cons_e s"]
    by (simp add: cons_ok_def cons_input_def cons_line_def)
  show "unat (cons_e s - cons_r s) = length (cons_input s) + length (cons_line s)"
    using arg_cong [OF all, of length] by simp
qed

lemma input_dvd: "INPUT_BUF_SIZE dvd 2 ^ LENGTH(32)" "INPUT_BUF_SIZE \<le> 2 ^ LENGTH(32) - 1"
  by (simp_all add: INPUT_BUF_SIZE_def)

text \<open>Moving the edit index back over a line without newlines.\<close>

lemma kill_line_apply:
  assumes "10 \<notin> set (ring_list INPUT_BUF_SIZE (cons_buf s) w e)" and "cons_e s = e"
  shows "\<exists>out. kill_line e w s = Ok () (s\<lparr>cons_e := w, tty := tty s @ out\<rparr>)"
  using assms
proof (induction "unat (e - w)" arbitrary: e s)
  case 0
  then have "e = w" by (simp add: unat_eq_zero)
  moreover have "s\<lparr>cons_e := cons_e s, tty := tty s @ []\<rparr> = s" by simp
  ultimately show ?case using 0(3)
    by (intro exI [of _ "[]"], subst kill_line.simps) (simp add: m_simps)
next
  case (Suc k)
  let ?s = "s\<lparr>cons_e := e - 1, tty := tty s @ echo BACKSPACE\<rparr>"
  have ne: "e \<noteq> w" using Suc.hyps(2) by auto
  have "ring_list INPUT_BUF_SIZE (cons_buf s) w e \<noteq> []" using Suc.hyps(2) by (simp flip: length_0_conv)
  then have "cons_buf s (unat (e - 1) mod INPUT_BUF_SIZE) \<noteq> 10"
    using ring_list_last [OF ne, of INPUT_BUF_SIZE "cons_buf s"] Suc.prems(1) by (metis last_in_set)
  then have step: "kill_line e w s = kill_line (e - 1) w ?s"
    using ne by (subst kill_line.simps) (simp add: m_simps)
  have "k = unat (e - 1 - w)" using Suc.hyps(2) unat_dec [of "e - w"] ne by (simp add: algebra_simps)
  moreover have "10 \<notin> set (ring_list INPUT_BUF_SIZE (cons_buf ?s) w (e - 1))"
    using Suc.prems(1) by (simp add: ring_list_unput [OF ne]) (metis in_set_butlastD)
  ultimately obtain out where "kill_line (e - 1) w ?s = Ok () (?s\<lparr>cons_e := w, tty := tty ?s @ out\<rparr>)"
    using Suc.hyps(1) [of "e - 1" ?s] by auto
  then show ?case using step by auto
qed

lemma typed_char:
  fixes c :: u8 and s :: "'a con_st_scheme"
  assumes ok: "cons_ok s" and room: "unat (cons_e s - cons_r s) < INPUT_BUF_SIZE"
  defines "t \<equiv> s\<lparr>cons_buf := (cons_buf s)(unat (cons_e s) mod INPUT_BUF_SIZE := c), cons_e := cons_e s + 1\<rparr>"
  shows "cons_input t = cons_input s" and "cons_line t = cons_line s @ [c]"
    and "unat (cons_e t - cons_r t) = Suc (unat (cons_e s - cons_r s))"
    and "unat (cons_w t - cons_r t) \<le> unat (cons_e t - cons_r t)"
proof -
  have len: "unat (cons_e s - cons_r s) = length (cons_input s) + length (cons_line s)"
    using cons_all(2) [OF ok] .
  then have room': "unat (cons_e s - cons_w s) < INPUT_BUF_SIZE" using room by (simp add: cons_line_def)
  show line: "cons_line t = cons_line s @ [c]"
    using ring_list_put [OF input_dvd(1) room' input_dvd(2)] by (simp add: cons_line_def t_def)
  show e: "unat (cons_e t - cons_r t) = Suc (unat (cons_e s - cons_r s))"
    using unat_inc [OF room input_dvd(2)] by (simp add: t_def algebra_simps)
  show le: "unat (cons_w t - cons_r t) \<le> unat (cons_e t - cons_r t)"
    using e ok by (simp add: t_def cons_ok_def)
  have "ring_list INPUT_BUF_SIZE (cons_buf t) (cons_r t) (cons_e t) = cons_input s @ cons_line s @ [c]"
    using ring_list_put [OF input_dvd(1) room input_dvd(2), of "cons_buf s" c] cons_all(1) [OF ok] by (simp add: t_def)
  moreover have "ring_list INPUT_BUF_SIZE (cons_buf t) (cons_r t) (cons_e t) = cons_input t @ cons_line t"
    using ring_list_append [OF le] by (simp add: cons_input_def cons_line_def)
  ultimately show "cons_input t = cons_input s" using line by simp
qed

text \<open>The effect of one keystroke on a machine with no locks held.\<close>

definition edited :: "u8 \<Rightarrow> 'a con_st_scheme \<Rightarrow> 'a con_st_scheme \<Rightarrow> bool" where
  "edited c s t \<longleftrightarrow> cons_ok t \<and> (cons_input t, cons_line t) = edit c (cons_input s, cons_line s) \<and> held t = [] \<and>
     cons_r t = cons_r s \<and> (cons_input t \<noteq> cons_input s \<longrightarrow>
       procs t = woken (curproc s) (Some Ch_cons) {..<NPROC} (procs s))"

lemma Ctrl_vals: "Ctrl ''P'' = 16" "Ctrl ''U'' = 21" "Ctrl ''H'' = 8" "Ctrl ''D'' = 4"
  by (simp_all add: Ctrl_def ch_def bytes_def)

lemma cons_frame [simp]:
  "cons_input (s\<lparr>tty := v\<rparr>) = cons_input s" "cons_line (s\<lparr>tty := v\<rparr>) = cons_line s" "cons_ok (s\<lparr>tty := v\<rparr>) = cons_ok s"
  "cons_input (s\<lparr>held := h\<rparr>) = cons_input s" "cons_line (s\<lparr>held := h\<rparr>) = cons_line s" "cons_ok (s\<lparr>held := h\<rparr>) = cons_ok s"
  "cons_input (s\<lparr>procs := ps\<rparr>) = cons_input s" "cons_line (s\<lparr>procs := ps\<rparr>) = cons_line s"
  "cons_ok (s\<lparr>procs := ps\<rparr>) = cons_ok s"
  by (simp_all add: cons_input_def cons_line_def cons_ok_def)

lemma consoleintr_command:
  assumes "held s = []" and "cons_ok s" and "c = 16 \<or> c = 21 \<or> c = 8 \<or> c = 0x7F"
  shows "\<exists>t. consoleintr c s = Ok () t \<and> edited c s t"
proof -
  let ?s = "s\<lparr>held := [L_cons]\<rparr>"
  have h: "held s = []" by (rule assms(1))
  show ?thesis
  proof (cases "c = 16")
    case True
    obtain out where "procdump ?s = Ok () (?s\<lparr>tty := tty s @ out\<rparr>)"
      using printsD [OF prints_procdump, of ?s] by auto
    then show ?thesis
      using True assms by (simp add: consoleintr_def m_simps Ctrl_vals edited_def edit_def)
  next
    case notP: False
    have w: "cons_line (s\<lparr>cons_e := cons_w s\<rparr>) = []" "cons_input (s\<lparr>cons_e := v\<rparr>) = cons_input s" for v
      by (simp_all add: cons_line_def cons_input_def)
    show ?thesis
    proof (cases "c = 21")
      case True
      obtain out where "kill_line (cons_e s) (cons_w s) ?s = Ok () (?s\<lparr>cons_e := cons_w s, tty := tty s @ out\<rparr>)"
        using kill_line_apply [of ?s "cons_w s" "cons_e s"] assms(2) by (auto simp: cons_ok_def cons_line_def)
      moreover have "cons_ok (s\<lparr>cons_e := cons_w s\<rparr>)"
        using assms(2) w by (simp add: cons_ok_def)
      ultimately show ?thesis
        using True assms(1) w by (simp add: consoleintr_def m_simps Ctrl_vals edited_def edit_def)
    next
      case False
      then have c: "c = 8 \<or> c = 0x7F" using notP assms(3) by blast
      show ?thesis
      proof (cases "cons_e s = cons_w s")
        case True
        then have "cons_line s = []" by (simp add: cons_line_def)
        moreover have "s\<lparr>held := []\<rparr> = s" unfolding h [symmetric] by simp
        ultimately show ?thesis
          using c True assms(1,2) by (auto simp: consoleintr_def m_simps Ctrl_vals edited_def edit_def)
      next
        case ne: False
        have l: "cons_line (s\<lparr>cons_e := cons_e s - 1\<rparr>) = butlast (cons_line s)"
          by (simp add: cons_line_def ring_list_unput [OF ne])
        have "unat (cons_e s - cons_w s) \<noteq> 0" using ne by (simp add: unat_eq_zero)
        then obtain k where n: "length (cons_line s) = Suc k"
          by (metis cons_line_def length_ring_list not0_implies_Suc)
        then have "unat (cons_e s - cons_r s) \<noteq> 0" using cons_all(2) [OF assms(2)] by simp
        then have "unat (cons_e s - 1 - cons_r s) = unat (cons_e s - cons_r s) - 1"
          using unat_dec [of "cons_e s - cons_r s"] by (simp add: algebra_simps unat_eq_zero)
        then have "cons_ok (s\<lparr>cons_e := cons_e s - 1\<rparr>)"
          using assms(2) l n cons_all(2) [OF assms(2)]
          by (auto simp: cons_ok_def cons_input_def dest: in_set_butlastD)
        then show ?thesis
          using c ne assms(1) l w
          by (auto simp: consoleintr_def m_simps Ctrl_vals edited_def edit_def)
      qed
    qed
  qed
qed

lemma consoleintr_char:
  assumes "held s = []" and "cons_ok s" and "c \<notin> {16, 21, 8, 0x7F}"
  shows "\<exists>t. consoleintr c s = Ok () t \<and> edited c s t"
proof -
  have c: "c \<noteq> 16" "c \<noteq> 21" "c \<noteq> 8" "c \<noteq> 0x7F" using assms(3) by auto
  have sz: "INPUT_BUF_SIZE = 128" by (simp add: INPUT_BUF_SIZE_def)
  have len: "unat (cons_e s - cons_r s) = length (cons_input s) + length (cons_line s)"
    using cons_all(2) [OF assms(2)] .
  have room: "cons_e s - cons_r s < of_nat INPUT_BUF_SIZE \<longleftrightarrow> unat (cons_e s - cons_r s) < INPUT_BUF_SIZE"
    by (simp add: word_less_nat_alt sz)
  have h: "s\<lparr>held := []\<rparr> = s" unfolding assms(1) [symmetric] by simp
  show ?thesis
  proof (cases "c = 0 \<or> \<not> unat (cons_e s - cons_r s) < INPUT_BUF_SIZE")
    case True
    then have "length (cons_input s) + length (cons_line s) = INPUT_BUF_SIZE" if "c \<noteq> 0"
      using that assms(2) len by (simp add: cons_ok_def)
    then show ?thesis
      using True c assms(1,2) h room
      by (auto simp: consoleintr_def m_simps Ctrl_vals edited_def edit_def)
  next
    case False
    define d where "d = (if c = 13 then 10 else c)"
    define t where "t = s\<lparr>cons_buf := (cons_buf s)(unat (cons_e s) mod INPUT_BUF_SIZE := d), cons_e := cons_e s + 1\<rparr>"
    have rm: "unat (cons_e s - cons_r s) < INPUT_BUF_SIZE" and nz: "c \<noteq> 0" using False by auto
    note T = typed_char [OF assms(2) rm, of d, folded t_def]
    have full: "cons_e t - cons_r t = of_nat INPUT_BUF_SIZE \<longleftrightarrow> length (cons_input s) + Suc (length (cons_line s)) = INPUT_BUF_SIZE"
      using T(3) len by (simp add: word_unat_eq_iff sz)
    define q where "q \<longleftrightarrow> d = 10 \<or> d = Ctrl ''D'' \<or> cons_e t - cons_r t = of_nat INPUT_BUF_SIZE"
    let ?t = "t\<lparr>tty := tty s @ [d]\<rparr>"
    have run: "consoleintr c s = Ok () (if q then ?t\<lparr>cons_w := cons_e t,
        procs := woken (curproc s) (Some Ch_cons) {..<NPROC} (procs s)\<rparr> else ?t)"
      using c nz rm room assms(1) h
      by (auto simp: consoleintr_def m_simps Ctrl_vals Let_def d_def [symmetric] q_def t_def wakeup_blocked_def)
    have new: "cons_input (t\<lparr>cons_w := cons_e t\<rparr>) = cons_input s @ cons_line s @ [d]"
      "cons_line (t\<lparr>cons_w := cons_e t\<rparr>) = []"
      using ring_list_append [OF T(4), of INPUT_BUF_SIZE "cons_buf t"] T(1,2)
      by (simp_all add: cons_input_def cons_line_def)
    have ed: "edit c (cons_input s, cons_line s) =
        (if q then (cons_input s @ cons_line s @ [d], []) else (cons_input s, cons_line s @ [d]))"
      using c nz rm len unfolding q_def full by (simp add: edit_def Ctrl_vals Let_def d_def [symmetric])
    have bound: "unat (cons_e t - cons_r t) \<le> INPUT_BUF_SIZE" using T(3) rm by simp
    have old: "held t = []" "cons_r t = cons_r s" by (simp_all add: t_def assms(1))
    show ?thesis
    proof (cases q)
      case True
      have "cons_ok (t\<lparr>cons_w := cons_e t\<rparr>)" using bound new(2) by (simp add: cons_ok_def)
      then have "cons_ok (?t\<lparr>cons_w := cons_e t, procs := ps\<rparr>)" for ps by (simp add: cons_ok_def cons_line_def)
      moreover have "cons_input (?t\<lparr>cons_w := cons_e t, procs := ps\<rparr>) = cons_input (t\<lparr>cons_w := cons_e t\<rparr>)"
        "cons_line (?t\<lparr>cons_w := cons_e t, procs := ps\<rparr>) = []" for ps
        by (simp_all add: cons_input_def cons_line_def)
      ultimately show ?thesis using run True ed new old by (simp add: edited_def)
    next
      case nq: False
      then have "d \<noteq> 10" by (simp add: q_def)
      then have "cons_ok t" using assms(2) bound T(2,4) by (simp add: cons_ok_def)
      then show ?thesis using run nq ed T(1,2) old by (simp add: edited_def)
    qed
  qed
qed

section \<open>Property\<close>

text \<open>
  C13: \<^verbatim>\<open>consoleintr\<close> handles any sequence of keystrokes without panicking, keeps the indices of the input
  buffer in order and at most \<^verbatim>\<open>INPUT_BUF_SIZE\<close> apart, also across the 32-bit wrap, and leaves readers
  exactly the edited lines: erase and kill only affect the line being typed, which reaches the
  readers when it is ended by newline or end-of-file or the buffer is full.
\<close>

theorem console_line_editing:
  assumes "held s = []" and "cons_ok s"
  shows "\<exists>t. for_each cs consoleintr s = Ok () t \<and> cons_ok t \<and> held t = [] \<and>
    (cons_input t, cons_line t) = fold edit cs (cons_input s, cons_line s)"
  using assms
proof (induction cs arbitrary: s)
  case Nil
  then show ?case by (simp add: m_simps)
next
  case (Cons c cs)
  obtain t where t: "consoleintr c s = Ok () t" "edited c s t"
    using consoleintr_command [OF Cons.prems] consoleintr_char [OF Cons.prems] by blast
  moreover obtain u where "for_each cs consoleintr t = Ok () u" "cons_ok u" "held u = []"
    "(cons_input u, cons_line u) = fold edit cs (cons_input t, cons_line t)"
    using Cons.IH [of t] t(2) by (auto simp: edited_def)
  ultimately show ?case by (auto simp: bnd_def edited_def)
qed

theorem console_line_editing_witness:
  "\<exists>t. for_each [104, 105, 8, 111, 13, 120] consoleintr fs_demo = Ok () t \<and>
    cons_input t = [104, 111, 10] \<and> cons_line t = [120]"
proof -
  have z: "cons_input fs_demo = []" "cons_line fs_demo = []" "cons_ok fs_demo"
    by (simp_all add: cons_input_def cons_line_def cons_ok_def)
  have "fold edit [104, 105, 8, 111, 13, 120] ([], []) = ([104, 111, 10], [120])"
    by (simp add: edit_def Ctrl_vals INPUT_BUF_SIZE_def)
  then show ?thesis
    using console_line_editing [OF fs_demo_fields(1) z(3), of "[104, 105, 8, 111, 13, 120]"] z by auto
qed

end
