(* ===== verification/VirtioXfer.thy ===== *)
theory VirtioXfer
  imports Virtio Demo
begin

text \<open>
  A block transfer from end to end. The block cache uses \<^verbatim>\<open>virtio_disk_rw\<close> as one step that copies
  between a buffer and the disk; here the driver's own steps are put together with the device, the
  interrupt and the scheduler, and shown to amount to that step. The device is a parameter,
  \<open>serve\<close>; \<open>virtio_device\<close> is what the virtio specification promises about it.
\<close>

section \<open>Descriptors\<close>

definition with_free :: "(nat \<Rightarrow> bool) \<Rightarrow> 'a virtio_st_scheme \<Rightarrow> 'a virtio_st_scheme" where
  "with_free f s = s\<lparr>vd_free := f\<rparr>"

lemma alloc_desc_scan:
  "for_first is (\<lambda>i.
     bnd (gets (\<lambda>s. vd_free s i)) (\<lambda>f.
     if f then bnd (set_free i False) (\<lambda>_. ret (Some i)) else ret None)) s =
   (case find (vd_free s) is of
      None \<Rightarrow> Ok None s
    | Some i \<Rightarrow> Ok (Some i) (s\<lparr>vd_free := (vd_free s)(i := False)\<rparr>))"
  by (induction "is") (simp_all add: m_simps set_free_def split: option.split)

lemma with_free_simps [simp]:
  "vd_free (with_free f s) = f" "with_free g (with_free f s) = with_free g s" "with_free (vd_free s) s = s"
  by (simp_all add: with_free_def)

abbreviation free_set :: "(nat \<Rightarrow> bool) \<Rightarrow> nat set" where
  "free_set f \<equiv> {i. i < NUM \<and> f i}"

lemma alloc_desc_ok:
  assumes "0 < card (free_set (vd_free s))"
  obtains j where "j < NUM" and "vd_free s j" and "alloc_desc s = Ok (Some j) (with_free ((vd_free s)(j := False)) s)"
    and "card (free_set (vd_free s)) = Suc (card (free_set ((vd_free s)(j := False))))"
proof (cases "find (vd_free s) [0..<NUM]")
  case None
  then show ?thesis using assms by (auto simp: find_None_iff card_gt_0_iff)
next
  case (Some j)
  then have j: "j < NUM" "vd_free s j" by (auto simp: find_Some_iff)
  have "free_set (vd_free s) = insert j (free_set ((vd_free s)(j := False)))"
    "j \<notin> free_set ((vd_free s)(j := False))" using j by auto
  then have "card (free_set (vd_free s)) = Suc (card (free_set ((vd_free s)(j := False))))"
    using card_insert_disjoint [of "free_set ((vd_free s)(j := False))" j] by simp
  moreover have "alloc_desc s = Ok (Some j) (with_free ((vd_free s)(j := False)) s)"
    using Some unfolding alloc_desc_def alloc_desc_scan by (simp add: with_free_def)
  ultimately show ?thesis using j that by blast
qed

text \<open>Three free descriptors can be had together.\<close>

lemma alloc3_desc_ok:
  assumes "3 \<le> card (free_set (vd_free s))"
  obtains i0 i1 i2 where "i0 < NUM" and "i1 < NUM" and "i2 < NUM" and "i1 \<noteq> i0" and "i2 \<noteq> i0" and "i2 \<noteq> i1"
    and "vd_free s i0" and "vd_free s i1" and "vd_free s i2"
    and "alloc3_desc s = Ok (Some (i0, i1, i2)) (with_free ((vd_free s)(i0 := False, i1 := False, i2 := False)) s)"
proof -
  let ?f = "vd_free s"
  from assms have "0 < card (free_set ?f)" by linarith
  then obtain i0 where 0: "i0 < NUM" "?f i0" "alloc_desc s = Ok (Some i0) (with_free (?f(i0 := False)) s)"
    "card (free_set ?f) = Suc (card (free_set (?f(i0 := False))))" by (rule alloc_desc_ok)
  define f1 where "f1 = ?f(i0 := False)"
  have "0 < card (free_set (vd_free (with_free f1 s)))" using 0(4) assms by (simp add: f1_def)
  then obtain i1 where 1: "i1 < NUM" "f1 i1" "alloc_desc (with_free f1 s) = Ok (Some i1) (with_free (f1(i1 := False)) s)"
    "card (free_set f1) = Suc (card (free_set (f1(i1 := False))))"
    using alloc_desc_ok [of "with_free f1 s"] by (metis with_free_simps(1,2))
  define f2 where "f2 = f1(i1 := False)"
  have "0 < card (free_set (vd_free (with_free f2 s)))" using 0(4) 1(4) assms by (simp add: f1_def f2_def)
  then obtain i2 where 2: "i2 < NUM" "f2 i2" "alloc_desc (with_free f2 s) = Ok (Some i2) (with_free (f2(i2 := False)) s)"
    using alloc_desc_ok [of "with_free f2 s"] by (metis with_free_simps(1,2))
  have d: "i1 \<noteq> i0" "?f i1" using 1(2) by (simp_all add: f1_def split: if_splits)
  have "f1 i2" "i2 \<noteq> i1" using 2(2) by (simp_all add: f2_def split: if_splits)
  then have e: "i2 \<noteq> i0" "i2 \<noteq> i1" "?f i2" by (simp_all add: f1_def split: if_splits)
  have "alloc3_desc s = Ok (Some (i0, i1, i2)) (with_free (f2(i2 := False)) s)"
    using 0(3) 1(3) 2(3) by (simp add: alloc3_desc_def bnd_def ret_def f1_def [symmetric] f2_def [symmetric])
  then show ?thesis using that [of i0 i1 i2] 0(1,2) 1(1) 2(1) d e by (simp add: f1_def f2_def)
qed

section \<open>A request\<close>

text \<open>The three descriptors of a request, as the driver formats them.\<close>

definition head_desc :: "nat \<Rightarrow> nat \<Rightarrow> virtq_desc" where
  "head_desc i0 i1 = \<lparr>d_addr = A_ops i0, d_len = 16, d_flags = VRING_DESC_F_NEXT, d_next = of_nat i1\<rparr>"

definition data_desc :: "nat \<Rightarrow> bool \<Rightarrow> nat \<Rightarrow> virtq_desc" where
  "data_desc b write i2 = \<lparr>d_addr = A_data b, d_len = of_nat BSIZE,
     d_flags = (if write then 0 else VRING_DESC_F_WRITE) OR VRING_DESC_F_NEXT, d_next = of_nat i2\<rparr>"

definition status_desc :: "nat \<Rightarrow> virtq_desc" where
  "status_desc i0 = \<lparr>d_addr = A_status i0, d_len = 1, d_flags = VRING_DESC_F_WRITE, d_next = 0\<rparr>"

definition request :: "bool \<Rightarrow> u64 \<Rightarrow> virtio_blk_req" where
  "request write sector = \<lparr>rq_type = (if write then VIRTIO_BLK_T_OUT else VIRTIO_BLK_T_IN),
     rq_reserved = 0, rq_sector = sector\<rparr>"

definition posted :: "nat \<Rightarrow> bool \<Rightarrow> u64 \<Rightarrow> nat \<Rightarrow> nat \<Rightarrow> nat \<Rightarrow> 'a virtio_st_scheme \<Rightarrow> 'a virtio_st_scheme" where
  "posted b write sector i0 i1 i2 s = s\<lparr>
     vd_ops := (vd_ops s)(i0 := request write sector),
     vd_desc := (vd_desc s)(i0 := head_desc i0 i1, i1 := data_desc b write i2, i2 := status_desc i0),
     vd_info_status := (vd_info_status s)(i0 := 0xFF),
     bufs := (bufs s)(b := (bufs s b)\<lparr>b_disk := True\<rparr>),
     vd_info_b := (vd_info_b s)(i0 := Some b),
     vd_avail_ring := (vd_avail_ring s)(unat (vd_avail_idx s) mod NUM := of_nat i0),
     vd_avail_idx := vd_avail_idx s + 1,
     vd_mmio_w := vd_mmio_w s @ [(0x050, 0)]\<rparr>"

lemma format_request_apply:
  "format_request b write sector (i0, i1, i2) s = Ok () (posted b write sector i0 i1 i2 s)"
  by (simp add: format_request_def upd_desc_def upd_buf_def mmio_write_def m_simps posted_def
      head_desc_def data_desc_def status_desc_def request_def)

lemma posted_fields [simp]:
  "held (posted b write sector i0 i1 i2 s) = held s" "curproc (posted b write sector i0 i1 i2 s) = curproc s"
  "procs (posted b write sector i0 i1 i2 s) = procs s" "vd_free (posted b write sector i0 i1 i2 s) = vd_free s"
  "disk (posted b write sector i0 i1 i2 s) = disk s" "dtrace (posted b write sector i0 i1 i2 s) = dtrace s"
  "bufs (posted b write sector i0 i1 i2 s) = (bufs s)(b := (bufs s b)\<lparr>b_disk := True\<rparr>)"
  "vd_used_idx (posted b write sector i0 i1 i2 s) = vd_used_idx s"
  "vd_dev_used_idx (posted b write sector i0 i1 i2 s) = vd_dev_used_idx s"
  "vd_info_b (posted b write sector i0 i1 i2 s) i0 = Some b"
  by (simp_all add: posted_def)

text \<open>
  What the device does with the chain most recently made available: it reads the request through
  the head descriptor, moves the data of one block, stores status 0 and puts the chain on the used
  ring. A block is two sectors.
\<close>

definition chain_head :: "'a virtio_st_scheme \<Rightarrow> nat" where
  "chain_head s = unat (vd_avail_ring s (unat (vd_avail_idx s - 1) mod NUM))"

definition used_up :: "nat \<Rightarrow> 'a virtio_st_scheme \<Rightarrow> 'a virtio_st_scheme" where
  "used_up h s = s\<lparr>vd_used_ring := (vd_used_ring s)(unat (vd_dev_used_idx s) mod NUM := of_nat h),
     vd_dev_used_idx := vd_dev_used_idx s + 1\<rparr>"

definition moved :: "bool \<Rightarrow> nat \<Rightarrow> u32 \<Rightarrow> 'a virtio_st_scheme \<Rightarrow> 'a virtio_st_scheme" where
  "moved write b x s =
     (if write then s\<lparr>disk := (disk s)(x := b_data (bufs s b)), dtrace := (x, b_data (bufs s b)) # dtrace s\<rparr>
      else s\<lparr>bufs := (bufs s)(b := (bufs s b)\<lparr>b_data := disk s x\<rparr>)\<rparr>)"

definition virtio_device :: "('a virtio_st_scheme \<Rightarrow> 'a virtio_st_scheme) \<Rightarrow> bool" where
  "virtio_device serve \<longleftrightarrow> (\<forall>s h i1 i2 j k b x write.
     h = chain_head s \<longrightarrow> d_addr (vd_desc s h) = A_ops j \<longrightarrow> vd_ops s j = request write (2 * ucast (x :: u32)) \<longrightarrow>
     d_flags (vd_desc s h) = VRING_DESC_F_NEXT \<longrightarrow> i1 = unat (d_next (vd_desc s h)) \<longrightarrow>
     d_addr (vd_desc s i1) = A_data b \<longrightarrow> d_len (vd_desc s i1) = of_nat BSIZE \<longrightarrow>
     d_flags (vd_desc s i1) = (if write then 0 else VRING_DESC_F_WRITE) OR VRING_DESC_F_NEXT \<longrightarrow>
     i2 = unat (d_next (vd_desc s i1)) \<longrightarrow>
     d_addr (vd_desc s i2) = A_status k \<longrightarrow> d_flags (vd_desc s i2) = VRING_DESC_F_WRITE \<longrightarrow>
     serve s = used_up h (moved write b x (s\<lparr>vd_info_status := (vd_info_status s)(k := 0)\<rparr>)))"

text \<open>On the chain of a posted request the device finds what the driver meant.\<close>

lemma serve_posted:
  assumes dev: "virtio_device serve" and i: "i0 < NUM" "i1 < NUM" "i2 < NUM" "i1 \<noteq> i0" "i2 \<noteq> i0" "i2 \<noteq> i1"
    and t: "vd_ops t i0 = request write (2 * ucast (x :: u32))" "chain_head t = i0"
      "vd_desc t i0 = head_desc i0 i1" "vd_desc t i1 = data_desc b write i2" "vd_desc t i2 = status_desc i0"
  shows "serve t = used_up i0 (moved write b x (t\<lparr>vd_info_status := (vd_info_status t)(i0 := 0)\<rparr>))"
proof -
  have u: "unat (of_nat k :: u16) = k" if "k < NUM" for k
    using that by (simp add: NUM_def unat_of_nat)
  show ?thesis
    using dev [unfolded virtio_device_def, THEN spec, of t, THEN spec, of i0, THEN spec, of i1, THEN spec, of i2,
        THEN spec, of i0, THEN spec, of i0, THEN spec, of b, THEN spec, of x, THEN spec, of "write"] i t
    by (simp add: head_desc_def data_desc_def status_desc_def u)
qed

section \<open>Completion\<close>

definition completed :: "nat \<Rightarrow> u16 \<Rightarrow> 'a virtio_st_scheme \<Rightarrow> 'a virtio_st_scheme" where
  "completed b u s = s\<lparr>bufs := (bufs s)(b := (bufs s b)\<lparr>b_disk := False\<rparr>),
     procs := woken (curproc s) (Some (Ch_buf b)) {..<NPROC} (procs s), vd_used_idx := u\<rparr>"

lemma used_loop_one:
  assumes "unat (vd_used_ring s (unat u mod NUM)) = i0" and "i0 < NUM" and "vd_info_status s i0 = 0"
    and "vd_info_b s i0 = Some b" and "\<not> wakeup_blocked s"
  shows "used_loop u (u + 1) s = Ok () (completed b (u + 1) s)"
proof -
  have "used_loop (u + 1) (u + 1) t = Ok () t" for t :: "'a virtio_st_scheme"
    by (simp add: used_loop.simps m_simps)
  then show ?thesis
    using assms
    by (subst used_loop.simps) (simp add: m_simps upd_buf_def wakeup_blocked_def completed_def)
qed

definition zero_desc :: virtq_desc where
  "zero_desc = \<lparr>d_addr = A_zero, d_len = 0, d_flags = 0, d_next = 0\<rparr>"

definition freed :: "nat \<Rightarrow> 'a virtio_st_scheme \<Rightarrow> 'a virtio_st_scheme" where
  "freed i s = s\<lparr>vd_desc := (vd_desc s)(i := zero_desc), vd_free := (vd_free s)(i := True),
     procs := woken (curproc s) (Some Ch_free) {..<NPROC} (procs s)\<rparr>"

lemma freed_fields [simp]:
  "held (freed i s) = held s" "curproc (freed i s) = curproc s" "vd_desc (freed i s) = (vd_desc s)(i := zero_desc)"
  "vd_free (freed i s) = (vd_free s)(i := True)" "bufs (freed i s) = bufs s" "disk (freed i s) = disk s"
  "dtrace (freed i s) = dtrace s" "vd_used_idx (freed i s) = vd_used_idx s"
  "vd_dev_used_idx (freed i s) = vd_dev_used_idx s" "wakeup_blocked (freed i s) = wakeup_blocked s"
  "curproc s = Some p \<Longrightarrow> procs (freed i s) p = procs s p"
  by (simp_all add: freed_def wakeup_blocked_def woken_def wakes_def)

lemma virtq_desc_all [simp]:
  "(d :: virtq_desc)\<lparr>d_addr := A_zero, d_len := 0, d_flags := 0, d_next := 0\<rparr> = zero_desc"
  by (cases d) (simp add: zero_desc_def)

lemma free_desc_apply:
  assumes "i < NUM" and "\<not> vd_free s i" and "\<not> wakeup_blocked s"
  shows "free_desc i s = Ok () (freed i s)"
  using assms
  by (simp add: free_desc_def upd_desc_def set_free_def m_simps freed_def wakeup_blocked_def)

lemma free_chain_apply:
  assumes i: "i0 < NUM" "i1 < NUM" "i2 < NUM" "i1 \<noteq> i0" "i2 \<noteq> i0" "i2 \<noteq> i1"
    and nf: "\<not> vd_free s i0" "\<not> vd_free s i1" "\<not> vd_free s i2" and nb: "\<not> wakeup_blocked s"
    and d: "vd_desc s i0 = head_desc i0 i1" "vd_desc s i1 = data_desc b dir i2" "vd_desc s i2 = status_desc i0"
  shows "free_chain i0 s = Ok () (freed i2 (freed i1 (freed i0 s)))"
proof -
  have u: "unat (of_nat k :: u16) = k" if "k < NUM" for k
    using that by (simp add: NUM_def unat_of_nat)
  have go: "free_chain j t = (if d_flags (vd_desc t j) AND VRING_DESC_F_NEXT \<noteq> 0
      then free_chain (unat (d_next (vd_desc t j))) (freed j t) else Ok () (freed j t))"
    if "j < NUM" "\<not> vd_free t j" "\<not> wakeup_blocked t" for j and t :: "'a virtio_st_scheme"
    using free_desc_apply [OF that] by (subst free_chain.simps) (simp add: m_simps)
  have "free_chain i2 (freed i1 (freed i0 s)) = Ok () (freed i2 (freed i1 (freed i0 s)))"
    using i nf nb d by (subst go) (auto simp: status_desc_def VRING_DESC_F_NEXT_def VRING_DESC_F_WRITE_def)
  moreover have "free_chain i1 (freed i0 s) = free_chain i2 (freed i1 (freed i0 s))"
    using i nf nb d
    by (subst go) (auto simp: data_desc_def VRING_DESC_F_NEXT_def VRING_DESC_F_WRITE_def u)
  moreover have "free_chain i0 s = free_chain i1 (freed i0 s)"
    using i nf nb d by (subst go) (auto simp: head_desc_def VRING_DESC_F_NEXT_def u)
  ultimately show ?thesis by simp
qed

section \<open>The whole transfer\<close>

text \<open>
  The thread of process \<open>p\<close> posts the request and sleeps; the scheduler takes over, the device serves
  the request and interrupts, the scheduler picks \<open>p\<close> again and \<^verbatim>\<open>virtio_disk_rw\<close> ends.
\<close>

definition virtio_transfer ::
  "('a virtio_st_scheme \<Rightarrow> 'a virtio_st_scheme) \<Rightarrow> nat \<Rightarrow> nat \<Rightarrow> bool \<Rightarrow> (unit, 'a virtio_st_scheme) m" where
  "virtio_transfer serve p b write =
     bnd (virtio_disk_start b write) (\<lambda>i0 s.
     case virtio_disk_finish b i0 s of
       Swtch s1 \<Rightarrow> block [
         scheduler_resume p,
         modify serve,
         virtio_disk_intr,
         ignore (scheduler_pick p),
         sleep_resume p L_vdisk,
         virtio_disk_finish b i0] s1
     | r \<Rightarrow> r)"

definition vd_ready :: "nat \<Rightarrow> 'a virtio_st_scheme \<Rightarrow> bool" where
  "vd_ready p s \<longleftrightarrow> held s = [] \<and> curproc s = Some p \<and> p < NPROC \<and> p_state (procs s p) = RUNNING \<and>
     vd_used_idx s = vd_dev_used_idx s \<and> 3 \<le> card (free_set (vd_free s))"

text \<open>First the part up to the sleep, then the device and its interrupt, then the rest.\<close>

definition waiting :: "nat \<Rightarrow> nat \<Rightarrow> bool \<Rightarrow> nat \<Rightarrow> nat \<Rightarrow> nat \<Rightarrow> 'a virtio_st_scheme \<Rightarrow> 'a virtio_st_scheme" where
  "waiting p b write i0 i1 i2 s = (asleep p (Ch_buf b) (posted b write (2 * ucast (b_blockno (bufs s b))) i0 i1 i2
     (with_free ((vd_free s)(i0 := False, i1 := False, i2 := False)) s)))\<lparr>curproc := None, held := []\<rparr>"

lemma sector_of_block:
  assumes "unat x < 2 ^ 31"
  shows "ucast (x * of_nat (BSIZE div 512) :: u32) = (2 * ucast x :: u64)"
proof -
  have "unat (ucast x :: u64) = unat x" by (simp add: unsigned_ucast_eq take_bit_nat_eq_self u32_lt order_less_trans [OF u32_lt])
  then show ?thesis
    using assms by (simp add: word_unat_eq_iff unat_word_ariths unsigned_ucast_eq BSIZE_def take_bit_eq_mod mod_simps)
qed

lemma transfer_start:
  assumes r: "vd_ready p s" and x: "unat (b_blockno (bufs s b)) < 2 ^ 31"
  obtains i0 i1 i2 s1 where "i0 < NUM" and "i1 < NUM" and "i2 < NUM" and "i1 \<noteq> i0" and "i2 \<noteq> i0" and "i2 \<noteq> i1"
    and "vd_free s i0" and "vd_free s i1" and "vd_free s i2"
    and "virtio_transfer serve p b write s = block [
         modify serve, virtio_disk_intr, ignore (scheduler_pick p), sleep_resume p L_vdisk,
         virtio_disk_finish b i0] (waiting p b write i0 i1 i2 s)"
proof -
  have R: "held s = []" "curproc s = Some p" "p < NPROC" "3 \<le> card (free_set (vd_free s))"
    using r by (auto simp: vd_ready_def)
  let ?s = "s\<lparr>held := [L_vdisk]\<rparr>"
  obtain i0 i1 i2 where i: "i0 < NUM" "i1 < NUM" "i2 < NUM" "i1 \<noteq> i0" "i2 \<noteq> i0" "i2 \<noteq> i1"
    "vd_free ?s i0" "vd_free ?s i1" "vd_free ?s i2"
    "alloc3_desc ?s = Ok (Some (i0, i1, i2)) (with_free ((vd_free ?s)(i0 := False, i1 := False, i2 := False)) ?s)"
    by (rule alloc3_desc_ok [of ?s]) (use R(4) in auto)
  define s1 where "s1 = posted b write (2 * ucast (b_blockno (bufs s b))) i0 i1 i2
     (with_free ((vd_free s)(i0 := False, i1 := False, i2 := False)) ?s)"
  have st: "virtio_disk_start b write s = Ok i0 s1"
    using i(10) R(1) sector_of_block [OF x]
    by (simp add: virtio_disk_start_def get_buf_def m_simps format_request_apply s1_def)
  have f: "held s1 = [L_vdisk]" "curproc s1 = Some p" "b_disk (bufs s1 b)"
    using R(2) by (simp_all add: s1_def with_free_def)
  have fin: "virtio_disk_finish b i0 s1 = Swtch (asleep p (Ch_buf b) s1)"
    using f by (simp add: virtio_disk_finish_def get_buf_def m_simps sleep_apply)
  have "scheduler_resume p (asleep p (Ch_buf b) s1) = Ok () (waiting p b write i0 i1 i2 s)"
    by (simp add: scheduler_resume_def m_simps asleep_def waiting_def s1_def posted_def with_free_def)
  then have "virtio_transfer serve p b write s = block [
         modify serve, virtio_disk_intr, ignore (scheduler_pick p), sleep_resume p L_vdisk,
         virtio_disk_finish b i0] (waiting p b write i0 i1 i2 s)"
    using st fin by (simp add: virtio_transfer_def bnd_def)
  then show ?thesis using that i by auto
qed

definition served :: "nat \<Rightarrow> nat \<Rightarrow> bool \<Rightarrow> nat \<Rightarrow> nat \<Rightarrow> nat \<Rightarrow> 'a virtio_st_scheme \<Rightarrow> 'a virtio_st_scheme \<Rightarrow> bool" where
  "served p b write i0 i1 i2 s t \<longleftrightarrow> held t = [] \<and> curproc t = None \<and>
     p_state (procs t p) = RUNNABLE \<and>
     vd_free t = (vd_free s)(i0 := False, i1 := False, i2 := False) \<and>
     vd_desc t i0 = head_desc i0 i1 \<and> vd_desc t i1 = data_desc b write i2 \<and> vd_desc t i2 = status_desc i0 \<and>
     vd_used_idx t = vd_dev_used_idx t \<and> vd_dev_used_idx t = vd_dev_used_idx s + 1 \<and>
     (\<exists>t0. virtio_disk_rw b write s = Ok () t0 \<and> disk t = disk t0 \<and> dtrace t = dtrace t0 \<and>
        bufs t = (bufs t0)(b := (bufs t0 b)\<lparr>b_disk := False\<rparr>))"

lemma transfer_served:
  assumes r: "vd_ready p s" and dev: "virtio_device serve"
    and i: "i0 < NUM" "i1 < NUM" "i2 < NUM" "i1 \<noteq> i0" "i2 \<noteq> i0" "i2 \<noteq> i1"
  obtains t where "block [modify serve, virtio_disk_intr] (waiting p b write i0 i1 i2 s) = Ok () t"
    and "served p b write i0 i1 i2 s t"
proof -
  define x u w where "x = b_blockno (bufs s b)" and "u = vd_dev_used_idx s" and "w = waiting p b write i0 i1 i2 s"
  have R: "p < NPROC" "vd_used_idx s = u" using r by (auto simp: vd_ready_def u_def)
  have n16: "unat (of_nat i0 :: u16) = i0" "unat (of_nat i0 :: u32) = i0"
    using i(1) by (simp_all add: NUM_def unat_of_nat)
  have W: "vd_ops w i0 = request write (2 * ucast x)" "vd_desc w i0 = head_desc i0 i1"
    "vd_desc w i1 = data_desc b write i2" "vd_desc w i2 = status_desc i0" "vd_info_b w i0 = Some b"
    "vd_used_idx w = u" "vd_dev_used_idx w = u" "held w = []" "curproc w = None" "disk w = disk s" "dtrace w = dtrace s"
    "vd_free w = (vd_free s)(i0 := False, i1 := False, i2 := False)"
    "bufs w = (bufs s)(b := (bufs s b)\<lparr>b_disk := True\<rparr>)"
    "p_state (procs w p) = SLEEPING" "p_chan (procs w p) = Some (Ch_buf b)"
    using i R(2) by (simp_all add: w_def waiting_def asleep_def posted_def with_free_def x_def u_def)
  have "chain_head w = i0"
    using n16(1) by (simp add: chain_head_def w_def waiting_def asleep_def posted_def with_free_def)
  then have sv: "serve w = used_up i0 (moved write b x (w\<lparr>vd_info_status := (vd_info_status w)(i0 := 0)\<rparr>))"
    using serve_posted [OF dev i W(1) _ W(2-4)] by simp
  define v where "v = (serve w)\<lparr>held := [L_vdisk], vd_mmio_w := vd_mmio_w (serve w) @ [(0x064, vd_mmio (serve w) 0x060 AND 3)]\<rparr>"
  have V: "unat (vd_used_ring v (unat u mod NUM)) = i0" "vd_info_status v i0 = 0" "vd_info_b v i0 = Some b"
    "vd_used_idx v = u" "vd_dev_used_idx v = u + 1" "\<not> wakeup_blocked v" "held v = [L_vdisk]" "curproc v = None"
    "vd_desc v = vd_desc w" "vd_free v = vd_free w" "procs v = procs w"
    using W n16(2) by (simp_all add: v_def sv used_up_def moved_def wakeup_blocked_def)
  define t where "t = (completed b (u + 1) v)\<lparr>held := []\<rparr>"
  have run: "block [modify serve, virtio_disk_intr] w = Ok () t"
  proof -
    have "used_loop u (u + 1) v = Ok () (completed b (u + 1) v)"
      using used_loop_one [OF V(1) i(1) V(2,3,6)] .
    moreover have "held (serve w) = []" using W(8) by (simp add: sv used_up_def moved_def)
    ultimately show ?thesis
      using V(4,5) by (simp add: virtio_disk_intr_def mmio_read_def mmio_write_def m_simps v_def [symmetric])
        (simp add: v_def t_def completed_def)
  qed
  have rw: "\<exists>t0. virtio_disk_rw b write s = Ok () t0 \<and> disk t = disk t0 \<and> dtrace t = dtrace t0 \<and>
        bufs t = (bufs t0)(b := (bufs t0 b)\<lparr>b_disk := False\<rparr>)"
    by (cases "write") (auto simp: virtio_disk_rw_def get_buf_def set_data_def upd_buf_def m_simps
        t_def completed_def v_def sv used_up_def moved_def W x_def)
  have "p_state (procs t p) = RUNNABLE"
    using W(14,15) V(8,11) R(1) by (simp add: t_def completed_def woken_def wakes_def)
  then have "served p b write i0 i1 i2 s t"
    using rw W V by (simp add: served_def) (simp add: t_def completed_def V W u_def)
  then show ?thesis using that run by (simp add: w_def)
qed

lemma transfer_finish:
  assumes r: "vd_ready p s" and d: "served p b write i0 i1 i2 s t"
    and i: "i0 < NUM" "i1 < NUM" "i2 < NUM" "i1 \<noteq> i0" "i2 \<noteq> i0" "i2 \<noteq> i1"
    and fr: "vd_free s i0" "vd_free s i1" "vd_free s i2"
  obtains u where "block [ignore (scheduler_pick p), sleep_resume p L_vdisk, virtio_disk_finish b i0] t = Ok () u"
    and "vd_ready p u" and "vd_free u = vd_free s" and "bufs u = bufs t" and "disk u = disk t" and "dtrace u = dtrace t"
proof -
  have R: "p < NPROC" "3 \<le> card (free_set (vd_free s))" using r by (auto simp: vd_ready_def)
  have T: "held t = []" "curproc t = None" "p_state (procs t p) = RUNNABLE"
    "vd_free t = (vd_free s)(i0 := False, i1 := False, i2 := False)" "vd_desc t i0 = head_desc i0 i1"
    "vd_desc t i1 = data_desc b write i2" "vd_desc t i2 = status_desc i0" "vd_used_idx t = vd_dev_used_idx t"
    "\<not> b_disk (bufs t b)"
    using d by (auto simp: served_def)
  define w where "w = t\<lparr>curproc := Some p, procs := (procs t)(p := (procs t p)\<lparr>p_state := RUNNING, p_chan := None\<rparr>),
     held := [L_vdisk], vd_info_b := (vd_info_b t)(i0 := None)\<rparr>"
  have W: "held w = [L_vdisk]" "curproc w = Some p" "vd_free w = (vd_free s)(i0 := False, i1 := False, i2 := False)"
    "vd_desc w = vd_desc t" "\<not> wakeup_blocked w" "procs w p = (procs t p)\<lparr>p_state := RUNNING, p_chan := None\<rparr>"
    "bufs w = bufs t" "disk w = disk t" "dtrace w = dtrace t" "vd_used_idx w = vd_used_idx t"
    "vd_dev_used_idx w = vd_dev_used_idx t"
    using T by (simp_all add: w_def wakeup_blocked_def)
  have ch: "free_chain i0 w = Ok () (freed i2 (freed i1 (freed i0 w)))"
    by (rule free_chain_apply [OF i, where b = b and dir = "write"]) (use W T i in simp_all)
  define u where "u = (freed i2 (freed i1 (freed i0 w)))\<lparr>held := []\<rparr>"
  have "virtio_disk_finish b i0 (t\<lparr>curproc := Some p,
     procs := (procs t)(p := (procs t p)\<lparr>p_state := RUNNING, p_chan := None\<rparr>), held := [L_vdisk]\<rparr>) = Ok () u"
    using T(9) ch W(1) by (simp add: virtio_disk_finish_def get_buf_def m_simps w_def [symmetric] u_def)
  then have run: "block [ignore (scheduler_pick p), sleep_resume p L_vdisk, virtio_disk_finish b i0] t = Ok () u"
    using T(1-3) by (simp add: ignore_def scheduler_pick_def sleep_resume_def upd_proc_def m_simps)
  have fu: "vd_free u = vd_free s" using fr by (simp add: u_def W(3) fun_eq_iff)
  have "procs u p = procs w p" using W(2) by (simp add: u_def)
  then have "vd_ready p u" using R W T(8) fu by (simp add: vd_ready_def) (simp add: u_def W T(8))
  then show ?thesis using that [OF run] fu W by (simp add: u_def)
qed

section \<open>Property\<close>

text \<open>
  C7: A transfer between a buffer and the disk, taken through the driver's own steps (descriptors,
  available ring, sleep, interrupt, used ring, wakeup, freeing the chain), ends, has exactly the
  effect on buffers and disk that the block cache relies on, and gives all descriptors back.
\<close>

theorem virtio_transfer_refines:
  assumes "vd_ready p s" and "virtio_device serve" and "unat (b_blockno (bufs s b)) < 2 ^ 31"
    and "\<not> b_disk (bufs s b)"
  shows "\<exists>t t0. virtio_transfer serve p b write s = Ok () t \<and> virtio_disk_rw b write s = Ok () t0 \<and>
    bufs t = bufs t0 \<and> disk t = disk t0 \<and> dtrace t = dtrace t0 \<and> vd_ready p t \<and> vd_free t = vd_free s"
proof -
  obtain i0 i1 i2 where i: "i0 < NUM" "i1 < NUM" "i2 < NUM" "i1 \<noteq> i0" "i2 \<noteq> i0" "i2 \<noteq> i1"
    and fr: "vd_free s i0" "vd_free s i1" "vd_free s i2"
    and run: "virtio_transfer serve p b write s = block ([modify serve, virtio_disk_intr] @
         [ignore (scheduler_pick p), sleep_resume p L_vdisk, virtio_disk_finish b i0]) (waiting p b write i0 i1 i2 s)"
    using transfer_start [OF assms(1,3), of serve "write"] by auto
  obtain t where t: "block [modify serve, virtio_disk_intr] (waiting p b write i0 i1 i2 s) = Ok () t"
    "served p b write i0 i1 i2 s t" using transfer_served [OF assms(1,2) i] .
  obtain u where u: "block [ignore (scheduler_pick p), sleep_resume p L_vdisk, virtio_disk_finish b i0] t = Ok () u"
    "vd_ready p u" "vd_free u = vd_free s" "bufs u = bufs t" "disk u = disk t" "dtrace u = dtrace t"
    using transfer_finish [OF assms(1) t(2) i fr] .
  obtain t0 where t0: "virtio_disk_rw b write s = Ok () t0" "disk t = disk t0" "dtrace t = dtrace t0"
    "bufs t = (bufs t0)(b := (bufs t0 b)\<lparr>b_disk := False\<rparr>)"
    using t(2) by (auto simp: served_def)
  have "(bufs t0)(b := (bufs t0 b)\<lparr>b_disk := False\<rparr>) = bufs t0"
    using t0(1) assms(4)
    by (cases "write") (auto simp: virtio_disk_rw_def get_buf_def set_data_def upd_buf_def m_simps fun_eq_iff)
  moreover have "virtio_transfer serve p b write s = Ok () u"
    unfolding run block_append using t(1) u(1) by (simp only: bnd_def outcome.case)
  ultimately show ?thesis using u t0 by auto
qed

text \<open>A device that serves whatever chain it finds.\<close>

definition serve_chain :: "virtio_st \<Rightarrow> virtio_st" where
  "serve_chain s =
     (let h = chain_head s; i1 = unat (d_next (vd_desc s h)); i2 = unat (d_next (vd_desc s i1)) in
      case (d_addr (vd_desc s h), d_addr (vd_desc s i1), d_addr (vd_desc s i2)) of
        (A_ops j, A_data b, A_status k) \<Rightarrow>
          used_up h (moved (rq_type (vd_ops s j) = VIRTIO_BLK_T_OUT) b (ucast (rq_sector (vd_ops s j) div 2))
            (s\<lparr>vd_info_status := (vd_info_status s)(k := 0)\<rparr>))
      | _ \<Rightarrow> s)"

lemma serve_chain_device: "virtio_device serve_chain"
proof -
  have sec: "ucast (2 * ucast x div 2 :: u64) = x" for x :: u32
  proof -
    have "unat (ucast x :: u64) = unat x"
      by (simp add: unsigned_ucast_eq take_bit_nat_eq_self order_less_trans [OF u32_lt])
    moreover have "2 * unat x < 2 ^ 64" using u32_lt [of x] by simp
    ultimately have "unat (2 * ucast x div 2 :: u64) = unat x" by (simp add: unat_div unat_word_ariths)
    then show ?thesis by (simp add: word_unat_eq_iff unsigned_ucast_eq take_bit_nat_eq_self u32_lt)
  qed
  then show ?thesis
    by (auto simp: virtio_device_def serve_chain_def Let_def request_def VIRTIO_BLK_T_OUT_def VIRTIO_BLK_T_IN_def)
qed

definition vd_demo :: virtio_st where
  "vd_demo = pipe_st.extend pipe_demo \<lparr>
     ftable = (\<lambda>_. \<lparr>f_type = FD_NONE, f_ref = 0, f_readable = False, f_writable = False, f_pipe = 0, f_ip = 0,
       f_off = 0, f_major = 0\<rparr>),
     vd_free = (\<lambda>_. True), vd_desc = (\<lambda>_. zero_desc), vd_ops = (\<lambda>_. request False 0), vd_info_b = (\<lambda>_. None),
     vd_info_status = (\<lambda>_. 0), vd_avail_ring = (\<lambda>_. 0), vd_avail_idx = 0, vd_used_ring = (\<lambda>_. 0),
     vd_dev_used_idx = 0, vd_used_idx = 0, vd_mmio = (\<lambda>_. 0), vd_mmio_w = []\<rparr>"

lemma vd_demo_fields [simp]:
  "held vd_demo = []" "curproc vd_demo = Some 0" "procs vd_demo = procs fs_demo" "bufs vd_demo = bufs fs_demo"
  "disk vd_demo = disk fs_demo" "vd_free vd_demo = (\<lambda>_. True)" "vd_used_idx vd_demo = 0" "vd_dev_used_idx vd_demo = 0"
  using pipe_demo_fields by (simp_all add: vd_demo_def pipe_st.defs) (simp_all add: pipe_demo_def fs_st.defs)

theorem virtio_transfer_refines_witness:
  "\<exists>t t0. virtio_transfer serve_chain 0 3 True vd_demo = Ok () t \<and> virtio_disk_rw 3 True vd_demo = Ok () t0 \<and>
    disk t = disk t0"
proof -
  have "{i. i < NUM} = {..<NUM}" by auto
  then have "vd_ready 0 vd_demo"
    by (simp add: vd_ready_def NPROC_def NUM_def) (simp add: fs_demo_def bio_st.defs proc_zero_def)
  moreover have "b_blockno (bufs vd_demo 3) = 0" "\<not> b_disk (bufs vd_demo 3)"
    by simp_all
  ultimately show ?thesis
    using virtio_transfer_refines [of 0 vd_demo serve_chain 3 True] serve_chain_device by auto
qed

end
