(* ===== verification/FsAlloc.thy ===== *)
theory FsAlloc
  imports Demo PrintNum
begin

text \<open>
  Block allocation of \<^verbatim>\<open>kernel/fs.c\<close> as an operation on the blocks' content inside a transaction: \<^verbatim>\<open>balloc\<close>
  takes the lowest block whose bit in the bitmap is clear, \<^verbatim>\<open>bfree\<close> clears a bit that is set.
\<close>

section \<open>Inside a transaction\<close>

text \<open>What a file-system routine leaves alone when it only changes blocks.\<close>

definition fs_frame :: "'a fs_st_scheme \<Rightarrow> 'a fs_st_scheme \<Rightarrow> bool" where
  "fs_frame s t \<longleftrightarrow> itable t = itable s \<and> fs_sb t = fs_sb s \<and> klocal t = klocal s \<and> ram t = ram s \<and>
     curproc t = curproc s \<and> held t = held s \<and> log_start t = log_start s \<and> log_dev t = log_dev s \<and>
     (\<forall>i. slocks t (SL_inode i) = slocks s (SL_inode i)) \<and> (\<forall>p. p_pid (procs t p) = p_pid (procs s p)) \<and>
     (\<forall>p. p_pagetable (procs t p) = p_pagetable (procs s p))"

lemma fs_frame_refl [simp]: "fs_frame s s"
  by (simp add: fs_frame_def)

lemma fs_frame_trans: "fs_frame s t \<Longrightarrow> fs_frame t u \<Longrightarrow> fs_frame s u"
  by (simp add: fs_frame_def)

lemma fs_frame_rest:
  fixes s t :: "'a fs_st_scheme"
  assumes "cache_rest t = (cache_rest s)\<lparr>lh := v\<rparr>"
  shows "fs_frame s t"
proof -
  note A = arg_cong [OF assms]
  have "procs (cache_rest t) p = procs (cache_rest s) p" for p using A [of procs] by simp
  then have "(procs t p)\<lparr>p_state := UNUSED\<rparr> = (procs s p)\<lparr>p_state := UNUSED\<rparr>" for p by (simp add: cache_rest_def)
  from arg_cong [OF this, of p_pid] arg_cong [OF this, of p_pagetable]
  have "p_pid (procs t p) = p_pid (procs s p)" "p_pagetable (procs t p) = p_pagetable (procs s p)" for p by simp_all
  moreover have "slocks (cache_rest t) (SL_inode i) = slocks (cache_rest s) (SL_inode i)" for i
    using A [of slocks] by simp
  then have "slocks t (SL_inode i) = slocks s (SL_inode i)" for i by (simp add: cache_rest_def)
  ultimately show ?thesis
    using A [of itable] A [of fs_sb] A [of klocal] A [of ram] A [of curproc] A [of held] A [of log_start] A [of log_dev]
    by (simp add: fs_frame_def cache_rest_def)
qed

lemma fs_frame_same: "cache_rest t = cache_rest (s :: 'a fs_st_scheme) \<Longrightarrow> fs_frame s t"
  using fs_frame_rest [where t = t and s = s and v = "lh s"] cache_lh(3) [where s = s and v = "lh s"] by simp

text \<open>A step of a transaction: at most \<open>n\<close> more blocks in the log.\<close>

definition fs_step :: "u32 \<Rightarrow> nat \<Rightarrow> 'a fs_st_scheme \<Rightarrow> 'a fs_st_scheme \<Rightarrow> bool" where
  "fs_step d n s t \<longleftrightarrow> in_trans d t \<and> fs_frame s t \<and> length (lh t) \<le> length (lh s) + n \<and> disk t = disk s"

lemma fs_step_trans: "fs_step d m s t \<Longrightarrow> fs_step d n t u \<Longrightarrow> fs_step d (m + n) s u"
  by (auto simp: fs_step_def intro: fs_frame_trans)

lemma open_block:
  fixes s :: "'a fs_st_scheme"
  assumes "in_trans d s" and "length (lh s) < LOGSIZE"
  obtains b t where "bread d x s = Ok b t" and "trans_open d b x t" and "b_data (bufs t b) = content d s x"
    and "content d t = content d s" and "disk t = disk s" and "fs_frame s t" and "lh t = lh s"
    and "x \<in> set (lh t) \<or> b_data (bufs t b) = disk t x"
  using trans_bread [OF assms, of x] fs_frame_same log_rest_same(1) by metis

lemma close_block:
  fixes s :: "'a fs_st_scheme"
  assumes "trans_open d b x s" and "x \<in> set (lh s) \<or> b_data (bufs s b) = disk s x"
  obtains t where "brelse b s = Ok () t" and "fs_step d 0 s t" and "content d t = content d s"
  using trans_brelse [OF assms] fs_frame_same log_rest_same(1)
  by (metis (no_types, lifting) fs_step_def le_refl add_0_right)

lemma store_block:
  fixes s :: "'a fs_st_scheme"
  assumes "trans_open d b x s" and "Suc (length (lh s)) < LOGSIZE"
  obtains t where "block [mod_data b f, log_write b, brelse b] s = Ok () t" and "fs_step d 1 s t"
    and "content d t = (content d s)(x := f (b_data (bufs s b)))"
proof -
  obtain t where t: "block [set_data b (f (b_data (bufs s b))), log_write b, brelse b] s = Ok () t" "in_trans d t"
    "content d t = (content d s)(x := f (b_data (bufs s b)))" "disk t = disk s"
    "cache_rest t = (cache_rest s)\<lparr>lh := logged (lh s) x\<rparr>"
    using trans_update [OF assms] by blast
  have "block [mod_data b f, log_write b, brelse b] s = Ok () t"
    using t(1) by (simp add: mod_data_def get_buf_def m_simps bnd_assoc)
  moreover have "fs_step d 1 s t"
    using t log_rest_fields(1) [OF t(5)] logged_length [of "lh s" x] fs_frame_rest [OF t(5)] by (simp add: fs_step_def)
  ultimately show ?thesis using that t(3) by blast
qed

text \<open>Read a block, change it, log it and release it.\<close>

lemma update_block_fs:
  fixes s :: "'a fs_st_scheme"
  assumes "in_trans d s" and "Suc (length (lh s)) < LOGSIZE"
  obtains t where "bnd (bread d x) (\<lambda>b. block [mod_data b f, log_write b, brelse b]) s = Ok () t" and "fs_step d 1 s t"
    and "content d t = (content d s)(x := f (content d s x))"
proof -
  obtain b s1 where 1: "bread d x s = Ok b s1" "trans_open d b x s1" "b_data (bufs s1 b) = content d s x"
    "content d s1 = content d s" "disk s1 = disk s" "fs_frame s s1" "lh s1 = lh s"
    using open_block [of d s x] assms by (metis Suc_lessD)
  obtain t where t: "block [mod_data b f, log_write b, brelse b] s1 = Ok () t" "fs_step d 1 s1 t"
    "content d t = (content d s1)(x := f (b_data (bufs s1 b)))"
    using store_block [OF 1(2)] assms(2) 1(7) by metis
  have "fs_step d 1 s t" using t(2) 1 by (auto simp: fs_step_def intro: fs_frame_trans)
  moreover have "bnd (bread d x) (\<lambda>b. block [mod_data b f, log_write b, brelse b]) s = Ok () t"
    using 1(1) t(1) by (simp add: bnd_run del: block.simps)
  ultimately show ?thesis using that t(3) 1(3,4) by metis
qed

section \<open>The bitmap\<close>

definition zero_blk :: "blk \<Rightarrow> blk" where
  "zero_blk d = wrb d 0 (replicate BSIZE 0)"

definition bit_on :: "nat \<Rightarrow> blk \<Rightarrow> blk" where
  "bit_on i d = d(i div 8 := d (i div 8) OR bitmask i)"

definition bit_off :: "nat \<Rightarrow> blk \<Rightarrow> blk" where
  "bit_off i d = d(i div 8 := d (i div 8) AND NOT (bitmask i))"

text \<open>Whether block \<open>n\<close> is marked as used, and the allocator's choice.\<close>

definition blk_used :: "superblock \<Rightarrow> (u32 \<Rightarrow> blk) \<Rightarrow> nat \<Rightarrow> bool" where
  "blk_used sb C n \<longleftrightarrow> C (BBLOCK (of_nat n) sb) (n mod BPB div 8) AND bitmask (n mod BPB) \<noteq> 0"

definition lowest_free :: "superblock \<Rightarrow> (u32 \<Rightarrow> blk) \<Rightarrow> nat option" where
  "lowest_free sb C = find (\<lambda>n. \<not> blk_used sb C n) [0..<unat (sb_size sb)]"

lemma upt_split: "a \<le> m \<Longrightarrow> m \<le> c \<Longrightarrow> [a..<c] = [a..<m] @ [m..<c]"
  using upt_add_eq_append [of a m "c - m"] by simp

lemma find_append:
  "find p (xs @ ys) = (case find p xs of None \<Rightarrow> find p ys | Some x \<Rightarrow> Some x)"
  by (induction xs) simp_all

lemma find_upt_first: "k < N \<Longrightarrow> p k \<Longrightarrow> \<forall>j<k. \<not> p j \<Longrightarrow> find p [0..<N] = Some k"
  unfolding find_Some_iff by (intro exI [of _ k]) simp

lemma find_shift: "find p [b..<b + k] = map_option ((+) b) (find (\<lambda>i. p (b + i)) [0..<k])"
proof -
  have "[b..<b + k] = map ((+) b) [0..<k]" by (rule nth_equalityI) simp_all
  moreover have "find p (map f xs) = map_option f (find (\<lambda>x. p (f x)) xs)" for f :: "nat \<Rightarrow> nat" and xs
    by (induction xs) simp_all
  ultimately show ?thesis by simp
qed

lemma BBLOCK_same:
  assumes "b mod BPB = 0" and "i < BPB" and "b + i < 2 ^ 32"
  shows "BBLOCK (of_nat (b + i)) sb = BBLOCK (of_nat b) sb"
proof -
  have e: "(b + i) div BPB = b div BPB" using assms(1,2) by (metis add_cancel_right_right div_less div_plus_div_distrib_dvd_left mod_0_imp_dvd)
  have "unat (of_nat n div of_nat BPB :: u32) = n div BPB" if "n < 2 ^ 32" for n
    using that by (simp add: unat_div unat_of_nat BPB_def BSIZE_def)
  then have "(of_nat (b + i) div of_nat BPB :: u32) = of_nat b div of_nat BPB"
    using e assms(3) by (simp add: word_unat_eq_iff del: of_nat_add)
  then show ?thesis by (simp add: BBLOCK_def)
qed

lemma free_bit_find:
  assumes "b mod BPB = 0" and "b < sz" and "sz < 2 ^ 32"
  shows "map_option ((+) b) (free_bit (C (BBLOCK (of_nat b) sb)) b sz) =
    find (\<lambda>n. \<not> blk_used sb C n) [b..<min (b + BPB) sz]"
proof -
  define k where "k = min BPB (sz - b)"
  have k: "min (b + BPB) sz = b + k" using assms(2) by (auto simp: k_def)
  have p: "(\<not> blk_used sb C (b + i)) = (C (BBLOCK (of_nat b) sb) (i div 8) AND bitmask i = 0)" if "i < k" for i
  proof -
    have "i < BPB" "b + i < 2 ^ 32" using that assms by (auto simp: k_def)
    moreover have "(b + i) mod BPB = i" using assms(1) \<open>i < BPB\<close> mod_add_left_eq [of b BPB i] by simp
    ultimately show ?thesis using BBLOCK_same [OF assms(1), of i sb] by (simp add: blk_used_def)
  qed
  then have "find (\<lambda>i. \<not> blk_used sb C (b + i)) [0..<k] = find (\<lambda>i. C (BBLOCK (of_nat b) sb) (i div 8) AND bitmask i = 0) [0..<k]"
    by (intro find_cong refl) simp
  then show ?thesis unfolding k find_shift free_bit_def k_def [symmetric] by simp
qed

section \<open>balloc\<close>

lemma bzero_ok:
  fixes s :: "'a fs_st_scheme"
  assumes "in_trans d s" and "Suc (length (lh s)) < LOGSIZE"
  obtains t where "bzero d x s = Ok () t" and "fs_step d 1 s t" and "content d t = (content d s)(x := zero_blk (content d s x))"
proof -
  have z: "zero_blk = (\<lambda>d. wrb d 0 (replicate BSIZE 0))" by (rule ext) (simp add: zero_blk_def)
  obtain t where "bnd (bread d x) (\<lambda>b. block [mod_data b zero_blk, log_write b, brelse b]) s = Ok () t"
    "fs_step d 1 s t" "content d t = (content d s)(x := zero_blk (content d s x))"
    by (rule update_block_fs [OF assms])
  then show ?thesis using that unfolding bzero_def z by blast
qed

definition allocated :: "superblock \<Rightarrow> nat \<Rightarrow> (u32 \<Rightarrow> blk) \<Rightarrow> (u32 \<Rightarrow> blk)" where
  "allocated sb n C = (let C' = C(BBLOCK (of_nat n) sb := bit_on (n mod BPB) (C (BBLOCK (of_nat n) sb)))
     in C'(of_nat n := zero_blk (C' (of_nat n))))"

lemma balloc_loop_ok:
  fixes s :: "'a fs_st_scheme"
  assumes "in_trans d s" and "length (lh s) + 2 < LOGSIZE" and "L_pr \<notin> set (held s)" and "b mod BPB = 0"
    and "b \<le> unat (sb_size (fs_sb s)) + BPB"
  shows "case find (\<lambda>n. \<not> blk_used (fs_sb s) (content d s) n) [b..<unat (sb_size (fs_sb s))] of
      None \<Rightarrow> \<exists>t. balloc_loop d b s = Ok 0 t \<and> fs_step d 0 s t \<and> content d t = content d s
    | Some n \<Rightarrow> \<exists>t. balloc_loop d b s = Ok (of_nat n) t \<and> fs_step d 2 s t \<and>
        content d t = allocated (fs_sb s) n (content d s)"
  using assms
proof (induction "unat (sb_size (fs_sb s)) + BPB - b" arbitrary: b s rule: less_induct)
  case less
  let ?sb = "fs_sb s" and ?C = "content d s"
  let ?sz = "unat (sb_size ?sb)"
  show ?case
  proof (cases "b < ?sz")
    case False
    obtain out where "printf (''balloc: out of blocks'' @ nl) [] s = Ok () (s\<lparr>tty := tty s @ out\<rparr>)"
      using printsD [OF prints_plain less.prems(3), of "''balloc: out of blocks'' @ nl"] by (auto simp: nl_def)
    then have "balloc_loop d b s = Ok 0 (s\<lparr>tty := tty s @ out\<rparr>)"
      using False by (subst balloc_loop.simps) (simp add: m_simps)
    moreover have "fs_step d 0 s (s\<lparr>tty := tty s @ out\<rparr>)" "content d (s\<lparr>tty := tty s @ out\<rparr>) = content d s"
      using less.prems(1)
      by (simp_all add: fs_step_def fs_frame_def in_trans_def bcache_inv_def locks_free_def open_locked_def content_def
          fun_eq_iff split: option.split)
    ultimately show ?thesis using False by auto
  next
    case True
    obtain bp s1 where 1: "bread d (BBLOCK (of_nat b) ?sb) s = Ok bp s1" "trans_open d bp (BBLOCK (of_nat b) ?sb) s1"
      "b_data (bufs s1 bp) = ?C (BBLOCK (of_nat b) ?sb)" "content d s1 = ?C" "disk s1 = disk s" "fs_frame s s1" "lh s1 = lh s"
      "BBLOCK (of_nat b) ?sb \<in> set (lh s1) \<or> b_data (bufs s1 bp) = disk s1 (BBLOCK (of_nat b) ?sb)"
      using open_block [OF less.prems(1), of "BBLOCK (of_nat b) ?sb"] less.prems(2) by (metis add_lessD1)
    have fb: "map_option ((+) b) (free_bit (?C (BBLOCK (of_nat b) ?sb)) b ?sz) =
        find (\<lambda>n. \<not> blk_used ?sb ?C n) [b..<min (b + BPB) ?sz]"
      using free_bit_find [OF less.prems(4) True] u32_lt [of "sb_size ?sb"] by simp
    show ?thesis
    proof (cases "free_bit (?C (BBLOCK (of_nat b) ?sb)) b ?sz")
      case (Some bi)
      define n where "n = b + bi"
      have found: "find (\<lambda>n. \<not> blk_used ?sb ?C n) [b..<min (b + BPB) ?sz] = Some n"
        using fb Some by (simp add: n_def)
      then have "n \<in> set [b..<min (b + BPB) ?sz]" by (metis find_Some_iff nth_mem)
      then have n: "bi < BPB" "n < ?sz" by (auto simp: n_def)
      have "[b..<?sz] = [b..<min (b + BPB) ?sz] @ [min (b + BPB) ?sz..<?sz]"
        using True by (intro upt_split) simp_all
      then have F: "find (\<lambda>n. \<not> blk_used ?sb ?C n) [b..<?sz] = Some n" using found by (simp add: find_append)
      have BB: "BBLOCK (of_nat n) ?sb = BBLOCK (of_nat b) ?sb" "n mod BPB = bi"
        using BBLOCK_same [OF less.prems(4) n(1)] n(2) u32_lt [of "sb_size ?sb"] mod_add_left_eq [of b BPB bi]
          less.prems(4) n(1) by (simp_all add: n_def)
      obtain s2 where 2: "block [mod_data bp (bit_on bi), log_write bp, brelse bp] s1 = Ok () s2" "fs_step d 1 s1 s2"
        "content d s2 = ?C(BBLOCK (of_nat b) ?sb := bit_on bi (?C (BBLOCK (of_nat b) ?sb)))"
        using store_block [OF 1(2), of "bit_on bi"] less.prems(2) 1(3,4,7) by auto
      have "in_trans d s2" "Suc (length (lh s2)) < LOGSIZE" using 2(2) 1(7) less.prems(2) by (auto simp: fs_step_def)
      then obtain s3 where 3: "bzero d (of_nat n) s2 = Ok () s3" "fs_step d 1 s2 s3"
        "content d s3 = (content d s2)(of_nat n := zero_blk (content d s2 (of_nat n)))" by (rule bzero_ok)
      have "block ([mod_data bp (bit_on bi), log_write bp, brelse bp] @ [bzero d (of_nat n)]) s1 = Ok () s3"
        unfolding block_append using 2(1) 3(1) by (simp only: bnd_run block.simps ret_bnd) (simp add: bnd_run ret_def)
      then have "balloc_loop d b s = Ok (of_nat n) s3"
        using True 1(1,3) Some
        by (subst balloc_loop.simps)
          (simp add: m_simps bnd_run get_buf_def bit_on_def [abs_def] n_def del: block.simps)
      moreover have "fs_step d 2 s s3"
        using 2(2) 3(2) 1(5-7) by (auto simp: fs_step_def intro: fs_frame_trans)
      moreover have "content d s3 = allocated ?sb n ?C" using 3(3) 2(3) BB by (simp add: allocated_def)
      ultimately show ?thesis using F by auto
    next
      case None
      then have "find (\<lambda>n. \<not> blk_used ?sb ?C n) [b..<min (b + BPB) ?sz] = None" using fb by simp
      moreover have "[b..<?sz] = [b..<min (b + BPB) ?sz] @ [min (b + BPB) ?sz..<?sz]"
        using True by (intro upt_split) simp_all
      moreover have "[min (b + BPB) ?sz..<?sz] = [b + BPB..<?sz]" by (auto simp: min_def)
      ultimately have F: "find (\<lambda>n. \<not> blk_used ?sb ?C n) [b..<?sz] = find (\<lambda>n. \<not> blk_used ?sb ?C n) [b + BPB..<?sz]"
        by (simp add: find_append)
      obtain s2 where 2: "brelse bp s1 = Ok () s2" "fs_step d 0 s1 s2" "content d s2 = ?C"
        using close_block [OF 1(2,8)] 1(4) by metis
      have st: "fs_step d 0 s s2" using 2(2) 1(5-7) by (auto simp: fs_step_def intro: fs_frame_trans)
      then have sb: "fs_sb s2 = ?sb" "in_trans d s2" "length (lh s2) \<le> length (lh s)" "held s2 = held s"
        by (auto simp: fs_step_def fs_frame_def)
      have run: "balloc_loop d b s = balloc_loop d (b + BPB) s2"
        using True 1(1,3) None 2(1) by (subst balloc_loop.simps) (simp add: m_simps bnd_run get_buf_def)
      have "?sz + BPB - (b + BPB) < ?sz + BPB - b" "(b + BPB) mod BPB = 0" "b + BPB \<le> ?sz + BPB"
        using True less.prems(4) by (simp_all add: BPB_def BSIZE_def)
      then have "case find (\<lambda>n. \<not> blk_used ?sb ?C n) [b + BPB..<?sz] of
          None \<Rightarrow> \<exists>t. balloc_loop d (b + BPB) s2 = Ok 0 t \<and> fs_step d 0 s2 t \<and> content d t = ?C
        | Some n \<Rightarrow> \<exists>t. balloc_loop d (b + BPB) s2 = Ok (of_nat n) t \<and> fs_step d 2 s2 t \<and>
            content d t = allocated ?sb n ?C"
        using less.hyps [of s2 "b + BPB"] sb 2(3) less.prems(2,3) by (simp split: option.splits)
      then show ?thesis
        unfolding F run using fs_step_trans [OF st] by (auto split: option.splits)
    qed
  qed
qed

section \<open>bfree\<close>

lemma block_Cons_panic_if: "block (panic_if b e # cs) s = (if b then Panic e else block cs s)"
  by (simp add: m_simps)

lemma bfree_ok:
  fixes s :: "'a fs_st_scheme"
  assumes "in_trans d s" and "Suc (length (lh s)) < LOGSIZE"
  shows "if blk_used (fs_sb s) (content d s) (unat x)
    then \<exists>t. bfree d x s = Ok () t \<and> fs_step d 1 s t \<and> content d t =
      (content d s)(BBLOCK x (fs_sb s) := bit_off (unat x mod BPB) (content d s (BBLOCK x (fs_sb s))))
    else bfree d x s = Panic ''freeing free block''"
proof -
  let ?bb = "BBLOCK x (fs_sb s)" and ?bi = "unat x mod BPB"
  obtain b s1 where 1: "bread d ?bb s = Ok b s1" "trans_open d b ?bb s1" "b_data (bufs s1 b) = content d s ?bb"
    "content d s1 = content d s" "disk s1 = disk s" "fs_frame s s1" "lh s1 = lh s"
    using open_block [of d s ?bb] assms by (metis Suc_lessD)
  obtain t where t: "block [mod_data b (bit_off ?bi), log_write b, brelse b] s1 = Ok () t" "fs_step d 1 s1 t"
    "content d t = (content d s1)(?bb := bit_off ?bi (b_data (bufs s1 b)))"
    using store_block [OF 1(2), of "bit_off ?bi"] assms(2) 1(7) by metis
  have bo: "(\<lambda>d. d(?bi div 8 := d (?bi div 8) AND NOT (bitmask ?bi))) = bit_off ?bi"
    by (simp add: bit_off_def [abs_def])
  have used: "blk_used (fs_sb s) (content d s) (unat x) \<longleftrightarrow> b_data (bufs s1 b) (?bi div 8) AND bitmask ?bi \<noteq> 0"
    by (simp add: blk_used_def 1(3))
  let ?free = "b_data (bufs s1 b) (?bi div 8) AND bitmask ?bi = 0"
  have run: "bfree d x s = (if ?free then Panic ''freeing free block''
      else block [mod_data b (bit_off ?bi), log_write b, brelse b] s1)"
    using 1(1) by (simp add: bfree_def Let_def bo bnd_gets bnd_run bnd_get_buf block_Cons_panic_if del: block.simps)
  have "fs_step d 1 s t" using t(2) 1 by (auto simp: fs_step_def intro: fs_frame_trans)
  then show ?thesis
    unfolding run used using t(1,3) 1(3,4) by (cases ?free) (simp_all del: block.simps)
qed

section \<open>What the bitmap says\<close>

lemma bit_on_off_same: "d (i div 8) AND bitmask i = 0 \<Longrightarrow> bit_off i (bit_on i d) = d"
proof -
  assume "d (i div 8) AND bitmask i = 0"
  then have "(d (i div 8) OR bitmask i) AND NOT (bitmask i) = d (i div 8)"
    by (auto simp: bit_eq_iff bit_simps)
  then show ?thesis by (simp add: bit_on_def bit_off_def)
qed

lemma bitmask_other:
  assumes "i div 8 = j div 8" and "i \<noteq> j"
  shows "bitmask i AND bitmask j = 0"
proof -
  have "i mod 8 \<noteq> j mod 8" using assms by (metis div_mult_mod_eq)
  then show ?thesis by (intro bit_word_eqI) (auto simp: bitmask_def bit_simps)
qed

lemma bitmask_nz: "bitmask i \<noteq> 0"
proof -
  have "bit (bitmask i) (i mod 8)" by (simp add: bitmask_def bit_simps)
  then show ?thesis by auto
qed

lemma bit_on_test: "bit_on i d (j div 8) AND bitmask j \<noteq> 0 \<longleftrightarrow> i = j \<or> d (j div 8) AND bitmask j \<noteq> 0"
proof (cases "i div 8 = j div 8")
  case True
  have "(d (j div 8) OR bitmask i) AND bitmask j = (d (j div 8) AND bitmask j) OR (bitmask i AND bitmask j)"
    by (rule bit.conj_disj_distrib2)
  moreover have "(d (j div 8) OR bitmask j) AND bitmask j = bitmask j"
    by (simp add: bit_eq_iff bit_simps)
  ultimately show ?thesis
    using True bitmask_other [OF True] bitmask_nz by (cases "i = j") (auto simp: bit_on_def)
qed (auto simp: bit_on_def)

lemma unat_div_BPB: "n < 2 ^ 32 \<Longrightarrow> unat (of_nat n div of_nat BPB :: u32) = n div BPB"
  by (simp add: unat_div unat_of_nat BPB_def BSIZE_def)

lemma BBLOCK_inj:
  assumes "BBLOCK (of_nat m) sb = BBLOCK (of_nat n) sb" and "m mod BPB = n mod BPB" and "m < 2 ^ 32" and "n < 2 ^ 32"
  shows "m = n"
proof -
  have "(of_nat m div of_nat BPB :: u32) = of_nat n div of_nat BPB" using assms(1) by (simp add: BBLOCK_def)
  then have "m div BPB = n div BPB" using unat_div_BPB assms(3,4) by metis
  then show ?thesis using assms(2) by (metis div_mult_mod_eq)
qed

text \<open>Allocating a block that holds no part of the bitmap marks that block only.\<close>

lemma blk_used_allocated:
  assumes "of_nat n \<noteq> BBLOCK (of_nat m) sb" and "m < 2 ^ 32" and "n < 2 ^ 32"
  shows "blk_used sb (allocated sb n C) m \<longleftrightarrow> m = n \<or> blk_used sb C m"
proof (cases "BBLOCK (of_nat m) sb = BBLOCK (of_nat n) sb")
  case True
  have "n mod BPB = m mod BPB \<longleftrightarrow> m = n" using BBLOCK_inj [OF True] assms by auto
  then show ?thesis
    using True assms(1) bit_on_test [of "n mod BPB" "C (BBLOCK (of_nat n) sb)" "m mod BPB"]
    by (simp add: blk_used_def allocated_def Let_def)
next
  case False
  then show ?thesis using assms(1) by (auto simp: blk_used_def allocated_def Let_def)
qed

lemma lowest_freeD:
  assumes "lowest_free sb C = Some n"
  shows "n < unat (sb_size sb)" and "\<not> blk_used sb C n" and "n < 2 ^ 32" and "unat (of_nat n :: u32) = n"
proof -
  show n: "n < unat (sb_size sb)" "\<not> blk_used sb C n" using assms by (auto simp: lowest_free_def find_Some_iff)
  then show "n < 2 ^ 32" using u32_lt [of "sb_size sb"] by simp
  then show "unat (of_nat n :: u32) = n" by (simp add: unat_of_nat)
qed

section \<open>Properties\<close>

text \<open>
  C8: Inside a transaction with room in the log \<^verbatim>\<open>balloc\<close> returns the lowest block number whose bit in the
  bitmap is clear; it sets that bit, zeroes the block and changes no other content. When every block
  is in use it returns 0 and the content of all blocks stays.
\<close>

theorem balloc_lowest_free:
  fixes s :: "'a fs_st_scheme"
  assumes "in_trans d s" and "length (lh s) + 2 < LOGSIZE" and "L_pr \<notin> set (held s)"
  shows "case lowest_free (fs_sb s) (content d s) of
      None \<Rightarrow> \<exists>t. balloc d s = Ok 0 t \<and> fs_step d 0 s t \<and> content d t = content d s
    | Some n \<Rightarrow> \<exists>t. balloc d s = Ok (of_nat n) t \<and> fs_step d 2 s t \<and>
        content d t = allocated (fs_sb s) n (content d s)"
  using balloc_loop_ok [OF assms, of 0] unfolding balloc_def lowest_free_def by simp

text \<open>With the initialised cache every block reads as it is on the disk, whatever the disk holds.\<close>

lemma demo_cache:
  fixes s :: "'a bio_st_scheme"
  assumes "bufs s = bufs bio_demo" and "slocks s = slocks bio_demo" and "held s = []" and "curproc s = Some p"
  shows "bcache_inv 1 {} {} s" and "content 1 s = disk s"
proof -
  have no: "\<not> caches (bufs s) 1 x c" if "c < NBUF" for x c using bio_demo_inv(4) that by (simp add: assms(1))
  have "bufs_ok 1 {} {} (bufs s) (disk s)"
    using bio_demo_inv(1) no unfolding bcache_inv_def assms(1) bufs_ok_def by (auto simp: pinned_def caches_def)
  then show "bcache_inv 1 {} {} s"
    using assms(2-4) bio_demo_inv(1) by (simp add: bcache_inv_def locks_free_def open_locked_def)
  show "content 1 s = disk s"
    using no by (intro ext) (subst content_disk, auto)
qed

definition bitmap_demo :: fs_st where
  "bitmap_demo = fs_demo\<lparr>outstanding := 1,
     disk := (disk fs_demo)(45 := (\<lambda>i. if i < 5 then 0xff else if i = 5 then 0x3f else 0))\<rparr>"

lemma bitmap_demo_fields:
  "bufs bitmap_demo = bufs bio_demo" "slocks bitmap_demo = slocks bio_demo" "curproc bitmap_demo = Some 0" "lh bitmap_demo = []" "held bitmap_demo = []" "sb_size (fs_sb bitmap_demo) = 2000"
  "sb_bmapstart (fs_sb bitmap_demo) = 45"
  "disk bitmap_demo 45 = (\<lambda>i. if i < 5 then 0xff else if i = 5 then 0x3f else 0)"
  by (simp_all add: bitmap_demo_def fs_demo_def bio_st.defs)
    (simp_all add: bio_demo_def cache_start_fields bio_zero_def)

lemma bitmap_demo_trans: "in_trans 1 bitmap_demo" "content 1 bitmap_demo = disk bitmap_demo"
proof -
  have "outstanding bitmap_demo = 1" "log_size bitmap_demo = 30"
    by (simp_all add: bitmap_demo_def fs_demo_def bio_st.defs)
  then show "in_trans 1 bitmap_demo" "content 1 bitmap_demo = disk bitmap_demo"
    using demo_cache [of bitmap_demo 0] by (simp_all add: in_trans_def bitmap_demo_fields LOGSIZE_def MAXOPBLOCKS_def)
qed

lemma bitmap_demo_BBLOCK: "m < 2000 \<Longrightarrow> BBLOCK (of_nat m) (fs_sb bitmap_demo) = 45"
proof -
  assume "m < 2000"
  then have "unat (of_nat m div 8192 :: u32) = 0" using unat_div_BPB [of m] by (simp add: BPB_def BSIZE_def)
  then show ?thesis by (simp add: bitmap_demo_fields BBLOCK_def BPB_def BSIZE_def unat_eq_0)
qed

lemma bitmap_demo_free: "lowest_free (fs_sb bitmap_demo) (disk bitmap_demo) = Some 46"
proof -
  have u: "blk_used (fs_sb bitmap_demo) (disk bitmap_demo) m \<longleftrightarrow>
      (if m div 8 < 5 then 0xff else if m div 8 = 5 then 0x3f else 0) AND bitmask m \<noteq> 0" if "m < 2000" for m
    using that by (simp add: blk_used_def bitmap_demo_BBLOCK bitmap_demo_fields BPB_def BSIZE_def)
  have "list_all (\<lambda>m. (if m div 8 < 5 then 0xff else if m div 8 = 5 then 0x3f else (0 :: u8)) AND bitmask m \<noteq> 0) [0..<46]"
    by code_simp
  then have "\<forall>m<46. blk_used (fs_sb bitmap_demo) (disk bitmap_demo) m"
    unfolding list_all_iff set_upt by (simp add: u)
  moreover have "\<not> blk_used (fs_sb bitmap_demo) (disk bitmap_demo) 46" by (simp add: u bitmask_def)
  ultimately show ?thesis unfolding lowest_free_def by (intro find_upt_first) (simp_all add: bitmap_demo_fields)
qed

theorem balloc_lowest_free_witness:
  "\<exists>t. balloc 1 bitmap_demo = Ok 46 t \<and> content 1 t = allocated (fs_sb bitmap_demo) 46 (disk bitmap_demo)"
  using balloc_lowest_free [OF bitmap_demo_trans(1)] bitmap_demo_free
  by (auto simp: bitmap_demo_fields bitmap_demo_trans LOGSIZE_def MAXOPBLOCKS_def)

text \<open>
  C9: \<^verbatim>\<open>bfree\<close> undoes \<^verbatim>\<open>balloc\<close>: allocating marks exactly one more block as used, and freeing that block
  gives back the bitmap as it was, so that the only content that has changed is the block's own.
\<close>

theorem balloc_bfree_roundtrip:
  fixes s :: "'a fs_st_scheme"
  assumes "in_trans d s" and "length (lh s) + 3 < LOGSIZE" and "L_pr \<notin> set (held s)"
    and free: "lowest_free (fs_sb s) (content d s) = Some n"
    and data: "\<forall>m < unat (sb_size (fs_sb s)). of_nat n \<noteq> BBLOCK (of_nat m) (fs_sb s)"
  shows "\<exists>t u. balloc d s = Ok (of_nat n) t \<and>
    (\<forall>m < unat (sb_size (fs_sb s)). blk_used (fs_sb s) (content d t) m \<longleftrightarrow> m = n \<or> blk_used (fs_sb s) (content d s) m) \<and>
    bfree d (of_nat n) t = Ok () u \<and> fs_step d 3 s u \<and>
    content d u = (content d s)(of_nat n := zero_blk (content d s (of_nat n)))"
proof -
  let ?sb = "fs_sb s" and ?C = "content d s"
  note n = lowest_freeD [OF free]
  obtain t where t: "balloc d s = Ok (of_nat n) t" "fs_step d 2 s t" "content d t = allocated ?sb n ?C"
    using balloc_loop_ok [OF assms(1) _ assms(3), of 0] assms(2) free by (auto simp: balloc_def lowest_free_def)
  have sb: "fs_sb t = ?sb" and t': "in_trans d t" "Suc (length (lh t)) < LOGSIZE"
    using t(2) assms(2) by (auto simp: fs_step_def fs_frame_def)
  have used: "blk_used ?sb (content d t) m \<longleftrightarrow> m = n \<or> blk_used ?sb ?C m" if "m < unat (sb_size ?sb)" for m
    unfolding t(3) using that data n(3) u32_lt [of "sb_size ?sb"] by (intro blk_used_allocated) auto
  then have "blk_used (fs_sb t) (content d t) (unat (of_nat n :: u32))" using n by (simp add: sb)
  then obtain u where u: "bfree d (of_nat n) t = Ok () u" "fs_step d 1 t u" "content d u =
      (content d t)(BBLOCK (of_nat n) ?sb := bit_off (n mod BPB) (content d t (BBLOCK (of_nat n) ?sb)))"
    using bfree_ok [OF t', of "of_nat n"] n(4) by (auto simp: sb)
  have "?C (BBLOCK (of_nat n) ?sb) (n mod BPB div 8) AND bitmask (n mod BPB) = 0" using n(2) by (simp add: blk_used_def)
  from bit_on_off_same [where d = "?C (BBLOCK (of_nat n) ?sb)", OF this] have "content d u = ?C(of_nat n := zero_blk (?C (of_nat n)))"
    using data n(1) by (auto simp: u(3) t(3) allocated_def Let_def fun_eq_iff)
  then show ?thesis using t(1) used u fs_step_trans [OF t(2) u(2)] by (auto simp: numeral_eq_Suc)
qed

theorem balloc_bfree_roundtrip_witness:
  "\<exists>t u. balloc 1 bitmap_demo = Ok 46 t \<and> bfree 1 46 t = Ok () u \<and>
    content 1 u = (disk bitmap_demo)(46 := zero_blk (disk bitmap_demo 46))"
proof -
  have "of_nat 46 \<noteq> BBLOCK (of_nat m) (fs_sb bitmap_demo)" if "m < unat (sb_size (fs_sb bitmap_demo))" for m
    using that bitmap_demo_BBLOCK [of m] by (simp add: bitmap_demo_fields)
  then show ?thesis
    using balloc_bfree_roundtrip [OF bitmap_demo_trans(1), of 46] bitmap_demo_free
    by (auto simp: bitmap_demo_fields bitmap_demo_trans LOGSIZE_def MAXOPBLOCKS_def)
qed

text \<open>
  C10: \<^verbatim>\<open>bfree\<close> of a block whose bit is clear panics, whatever else the state holds; of a used block it
  returns, clears that bit and changes no other content.
\<close>

theorem bfree_double_free:
  fixes s :: "'a fs_st_scheme"
  assumes "in_trans d s" and "Suc (length (lh s)) < LOGSIZE"
  shows "if blk_used (fs_sb s) (content d s) (unat x)
    then \<exists>t. bfree d x s = Ok () t \<and> fs_step d 1 s t \<and> content d t =
      (content d s)(BBLOCK x (fs_sb s) := bit_off (unat x mod BPB) (content d s (BBLOCK x (fs_sb s))))
    else bfree d x s = Panic ''freeing free block''"
  by (rule bfree_ok [OF assms])

theorem bfree_double_free_witness: "bfree 1 46 bitmap_demo = Panic ''freeing free block''"
  using bfree_double_free [OF bitmap_demo_trans(1), of 46] lowest_freeD(2) [OF bitmap_demo_free]
  by (simp add: bitmap_demo_fields bitmap_demo_trans LOGSIZE_def MAXOPBLOCKS_def)

end
