(* ===== verification/User.thy ===== *)
theory User
  imports CString
begin

text \<open>
  A user process and its library \<^verbatim>\<open>user/ulib.c\<close>. A process sees the kernel only through the results of
  its system calls, so it is modelled as a function of these: the state holds the results the
  kernel is going to give, those of \<^verbatim>\<open>read\<close> for each descriptor (\<open>reads\<close>) and those of all other calls
  (\<open>answers\<close>), and records the calls made (\<open>calls\<close>). A run ends when the process exits, replaces
  itself by \<^verbatim>\<open>exec\<close>, or makes a call that has no result yet; all three are \<open>Swtch\<close>, and \<open>exited\<close> tells
  the first from the others. Both sides of a \<^verbatim>\<open>fork\<close> are covered, as runs whose answers have 0 or a
  process id at that point.
\<close>

section \<open>System calls\<close>

text \<open>The stubs of \<^verbatim>\<open>user/usys.pl\<close>, with the bytes a pointer argument refers to.\<close>

datatype scall =
    C_fork | C_exit int | C_wait | C_pipe | C_read int nat | C_write int "u8 list" | C_close int | C_kill int
  | C_exec "u8 list" "u8 list list" | C_open "u8 list" int | C_mknod "u8 list" int int | C_unlink "u8 list"
  | C_fstat int | C_link "u8 list" "u8 list" | C_mkdir "u8 list" | C_chdir "u8 list" | C_dup int | C_getpid
  | C_sbrk int | C_sleep int | C_uptime

text \<open>What the kernel returns, and the bytes it stored through a pointer argument.\<close>

record answer =
  a_ret :: int
  a_data :: "u8 list"

record uproc =
  reads :: "int \<Rightarrow> answer list"
  answers :: "answer list"
  calls :: "scall list"
  exited :: "int option"

definition u_syscall :: "scall \<Rightarrow> (answer, 'a uproc_scheme) m" where
  "u_syscall c s =
     (let s' = s\<lparr>calls := calls s @ [c]\<rparr> in
      case answers s of [] \<Rightarrow> Swtch s' | a # as \<Rightarrow> Ok a (s'\<lparr>answers := as\<rparr>))"

definition u_call :: "scall \<Rightarrow> (int, 'a uproc_scheme) m" where
  "u_call c = bnd (u_syscall c) (\<lambda>a. ret (a_ret a))"

definition u_fork :: "(int, 'a uproc_scheme) m" where
  "u_fork = u_call C_fork"

definition u_exit :: "int \<Rightarrow> ('r, 'a uproc_scheme) m" where
  "u_exit n s = Swtch (s\<lparr>calls := calls s @ [C_exit n], exited := Some n\<rparr>)"

text \<open>\<^verbatim>\<open>exec\<close> comes back only when it failed; a result of 0 means that the process is another program now.\<close>

definition u_exec :: "u8 list \<Rightarrow> u8 list list \<Rightarrow> (int, 'a uproc_scheme) m" where
  "u_exec path argv = bnd (u_call (C_exec path argv)) (\<lambda>r. if r < 0 then ret r else Swtch)"

definition u_wait :: "(int \<times> u8 list, 'a uproc_scheme) m" where
  "u_wait = bnd (u_syscall C_wait) (\<lambda>a. ret (a_ret a, a_data a))"

definition u_pipe :: "(int \<times> u8 list, 'a uproc_scheme) m" where
  "u_pipe = bnd (u_syscall C_pipe) (\<lambda>a. ret (a_ret a, a_data a))"

definition u_read :: "int \<Rightarrow> nat \<Rightarrow> (int \<times> u8 list, 'a uproc_scheme) m" where
  "u_read fd n s =
     (let s' = s\<lparr>calls := calls s @ [C_read fd n]\<rparr> in
      case reads s fd of
        [] \<Rightarrow> Swtch s'
      | a # as \<Rightarrow> Ok (a_ret a, a_data a) (s'\<lparr>reads := (reads s)(fd := as)\<rparr>))"

definition u_fstat :: "int \<Rightarrow> (int \<times> u8 list, 'a uproc_scheme) m" where
  "u_fstat fd = bnd (u_syscall (C_fstat fd)) (\<lambda>a. ret (a_ret a, a_data a))"

definition u_write :: "int \<Rightarrow> u8 list \<Rightarrow> (int, 'a uproc_scheme) m" where
  "u_write fd bs = u_call (C_write fd bs)"

definition u_close :: "int \<Rightarrow> (int, 'a uproc_scheme) m" where
  "u_close fd = u_call (C_close fd)"

definition u_kill :: "int \<Rightarrow> (int, 'a uproc_scheme) m" where
  "u_kill pid = u_call (C_kill pid)"

definition u_open :: "u8 list \<Rightarrow> int \<Rightarrow> (int, 'a uproc_scheme) m" where
  "u_open path mode = u_call (C_open path mode)"

definition u_mknod :: "u8 list \<Rightarrow> int \<Rightarrow> int \<Rightarrow> (int, 'a uproc_scheme) m" where
  "u_mknod path major minor = u_call (C_mknod path major minor)"

definition u_unlink :: "u8 list \<Rightarrow> (int, 'a uproc_scheme) m" where
  "u_unlink path = u_call (C_unlink path)"

definition u_link :: "u8 list \<Rightarrow> u8 list \<Rightarrow> (int, 'a uproc_scheme) m" where
  "u_link old new = u_call (C_link old new)"

definition u_mkdir :: "u8 list \<Rightarrow> (int, 'a uproc_scheme) m" where
  "u_mkdir path = u_call (C_mkdir path)"

definition u_chdir :: "u8 list \<Rightarrow> (int, 'a uproc_scheme) m" where
  "u_chdir path = u_call (C_chdir path)"

definition u_dup :: "int \<Rightarrow> (int, 'a uproc_scheme) m" where
  "u_dup fd = u_call (C_dup fd)"

definition u_getpid :: "(int, 'a uproc_scheme) m" where
  "u_getpid = u_call C_getpid"

definition u_sbrk :: "int \<Rightarrow> (int, 'a uproc_scheme) m" where
  "u_sbrk n = u_call (C_sbrk n)"

definition u_sleep :: "int \<Rightarrow> (int, 'a uproc_scheme) m" where
  "u_sleep n = u_call (C_sleep n)"

definition u_uptime :: "(int, 'a uproc_scheme) m" where
  "u_uptime = u_call C_uptime"

text \<open>An \<^verbatim>\<open>int\<close> the kernel stored at an offset of the object passed to it; reading it unset is undefined.\<close>

definition int_at :: "u8 list \<Rightarrow> nat \<Rightarrow> (int, 's) m" where
  "int_at bs off = (if off + 4 \<le> length bs then ret (sint (le_word (take 4 (drop off bs)) :: u32)) else undef)"

section \<open>ulib.c\<close>

partial_function (option) strcpy_loop :: "mem \<Rightarrow> u64 \<Rightarrow> u64 \<Rightarrow> mem option" where
  "strcpy_loop m s t =
     (let m' = m(s := m t) in if m' s \<noteq> 0 then strcpy_loop m' (s + 1) (t + 1) else Some m')"

definition strcpy :: "mem \<Rightarrow> u64 \<Rightarrow> u64 \<Rightarrow> (u64 \<times> mem) option" where
  "strcpy m s t = map_option (Pair s) (strcpy_loop m s t)"

partial_function (option) strcmp :: "(nat \<Rightarrow> u8) \<Rightarrow> (nat \<Rightarrow> u8) \<Rightarrow> int option" where
  "strcmp p q =
     (if p 0 \<noteq> 0 \<and> p 0 = q 0 then strcmp (\<lambda>i. p (Suc i)) (\<lambda>i. q (Suc i))
      else Some (uint (p 0) - uint (q 0)))"

text \<open>\<^verbatim>\<open>strchr\<close> gives the offset of the first \<open>c\<close>; the terminating NUL is not searched.\<close>

partial_function (option) strchr_from :: "(nat \<Rightarrow> u8) \<Rightarrow> u8 \<Rightarrow> nat \<Rightarrow> nat option option" where
  "strchr_from s c i =
     (if s i = 0 then Some None else if s i = c then Some (Some i) else strchr_from s c (Suc i))"

definition strchr_ptr :: "(nat \<Rightarrow> u8) \<Rightarrow> u8 \<Rightarrow> nat option option" where
  "strchr_ptr s c = strchr_from s c 0"

text \<open>\<^verbatim>\<open>n = n*10 + *s++ - '0'\<close> in an \<^verbatim>\<open>int\<close>.\<close>

partial_function (option) atoi_loop :: "(nat \<Rightarrow> u8) \<Rightarrow> u32 \<Rightarrow> u32 option" where
  "atoi_loop s n =
     (if 48 \<le> s 0 \<and> s 0 \<le> 57 then atoi_loop (\<lambda>i. s (Suc i)) (n * 10 + ucast (s 0) - 48) else Some n)"

definition atoi :: "(nat \<Rightarrow> u8) \<Rightarrow> int option" where
  "atoi s = map_option sint (atoi_loop s 0)"

text \<open>This \<^verbatim>\<open>memmove\<close> chooses the direction by the order of the pointers alone.\<close>

definition u_memmove :: "mem \<Rightarrow> u64 \<Rightarrow> u64 \<Rightarrow> nat \<Rightarrow> mem" where
  "u_memmove m dst src n =
     (if src > dst then copy_fwd m dst src n else copy_bwd m (dst + of_nat n) (src + of_nat n) n)"

definition u_memcpy :: "mem \<Rightarrow> u64 \<Rightarrow> u64 \<Rightarrow> nat \<Rightarrow> mem" where
  "u_memcpy m dst src n = u_memmove m dst src n"

text \<open>These three have the loops of their namesakes in \<^verbatim>\<open>kernel/string.c\<close>; \<^verbatim>\<open>char\<close> is unsigned on RISC-V.\<close>

definition u_strlen :: "(nat \<Rightarrow> u8) \<Rightarrow> nat option" where
  "u_strlen s = strlen_from s 0"

definition u_memset :: "mem \<Rightarrow> u64 \<Rightarrow> u32 \<Rightarrow> nat \<Rightarrow> mem" where
  "u_memset m dst c n = memset_loop m dst (ucast c) 0 n"

primrec u_memcmp :: "(nat \<Rightarrow> u8) \<Rightarrow> (nat \<Rightarrow> u8) \<Rightarrow> nat \<Rightarrow> int" where
  "u_memcmp s1 s2 0 = 0"
| "u_memcmp s1 s2 (Suc n) =
     (if s1 0 \<noteq> s2 0 then uint (s1 0) - uint (s2 0)
      else u_memcmp (\<lambda>i. s1 (Suc i)) (\<lambda>i. s2 (Suc i)) n)"

text \<open>\<^verbatim>\<open>gets\<close>: the characters stored before the final NUL.\<close>

fun gets_loop :: "nat \<Rightarrow> u8 list \<Rightarrow> (u8 list, 'a uproc_scheme) m" where
  "gets_loop 0 acc = ret acc"
| "gets_loop (Suc k) acc =
     bnd (u_read 0 1) (\<lambda>(cc, bs).
     if cc < 1 then ret acc
     else if bs = [] then undef
     else if hd bs = 10 \<or> hd bs = 13 then ret (acc @ [hd bs])
     else gets_loop k (acc @ [hd bs]))"

definition u_gets :: "nat \<Rightarrow> (u8 list, 'a uproc_scheme) m" where
  "u_gets maxlen = gets_loop (maxlen - 1) []"

definition u_stat :: "u8 list \<Rightarrow> (int \<times> u8 list, 'a uproc_scheme) m" where
  "u_stat n =
     bnd (u_open n 0) (\<lambda>fd.
     if fd < 0 then ret (-1, [])
     else
       bnd (u_fstat fd) (\<lambda>r.
       bnd (u_close fd) (\<lambda>_.
       ret r)))"

text \<open>\<^verbatim>\<open>start\<close> runs \<^verbatim>\<open>main\<close> and exits if it returns.\<close>

definition u_start :: "('r, 'a uproc_scheme) m \<Rightarrow> (unit, 'a uproc_scheme) m" where
  "u_start main = bnd main (\<lambda>_. u_exit 0)"

section \<open>Results run out\<close>

text \<open>Every call takes a result; a routine made of calls never gives results back.\<close>

definition fewer :: "'a uproc_scheme \<Rightarrow> 'a uproc_scheme \<Rightarrow> bool" where
  "fewer t s \<longleftrightarrow> length (answers t) \<le> length (answers s) \<and> (\<forall>fd. length (reads t fd) \<le> length (reads s fd))"

lemma fewer_refl [simp]: "fewer s s"
  by (simp add: fewer_def)

lemma fewer_trans: "fewer u t \<Longrightarrow> fewer t s \<Longrightarrow> fewer u s"
  by (meson fewer_def le_trans)

definition shrinks :: "('r, 'a uproc_scheme) m \<Rightarrow> bool" where
  "shrinks c \<longleftrightarrow> (\<forall>s r t. c s = Ok r t \<longrightarrow> fewer t s)"

named_theorems shrinks_intros \<open>routines that give no results back\<close>

lemma shrinksD:
  assumes "shrinks c" and "c s = Ok r t"
  shows "length (answers t) \<le> length (answers s)" and "length (reads t fd) \<le> length (reads s fd)"
  using assms by (auto simp: shrinks_def fewer_def)

lemma u_syscall_less: "u_syscall c s = Ok a t \<Longrightarrow> length (answers t) < length (answers s)"
  by (auto simp: u_syscall_def Let_def split: list.splits)

lemma u_call_less: "u_call c s = Ok a t \<Longrightarrow> length (answers t) < length (answers s)"
  by (auto simp: u_call_def bnd_def ret_def dest: u_syscall_less split: outcome.splits)

lemma u_read_less: "u_read fd n s = Ok a t \<Longrightarrow> length (reads t fd) < length (reads s fd)"
  by (auto simp: u_read_def Let_def split: list.splits)

lemma u_wait_less: "u_wait s = Ok a t \<Longrightarrow> length (answers t) < length (answers s)"
  by (auto simp: u_wait_def bnd_def ret_def dest: u_syscall_less split: outcome.splits)

lemma shrinks_ret [shrinks_intros]: "shrinks (ret a)"
  by (simp add: shrinks_def ret_def)

lemma shrinks_undef [shrinks_intros]: "shrinks undef"
  by (simp add: shrinks_def undef_def panic_def)

lemma shrinks_exit [shrinks_intros]: "shrinks (u_exit n)"
  by (simp add: shrinks_def u_exit_def)

lemma shrinks_u_syscall [shrinks_intros]: "shrinks (u_syscall c)"
  by (auto simp: shrinks_def fewer_def u_syscall_def Let_def split: list.splits)

lemma shrinks_bnd [shrinks_intros]: "shrinks c \<Longrightarrow> (\<And>a. shrinks (k a)) \<Longrightarrow> shrinks (bnd c k)"
  unfolding shrinks_def bnd_def by (fastforce split: outcome.splits intro: fewer_trans)

lemma shrinks_if [shrinks_intros]: "shrinks c \<Longrightarrow> shrinks d \<Longrightarrow> shrinks (if b then c else d)"
  by simp

lemma shrinks_if_do [shrinks_intros]: "shrinks c \<Longrightarrow> shrinks (if_do b c)"
  by (simp add: if_do_def shrinks_ret)

lemma shrinks_ignore [shrinks_intros]: "shrinks c \<Longrightarrow> shrinks (ignore c)"
  by (simp add: ignore_def shrinks_intros)

lemma shrinks_block [shrinks_intros]: "(\<And>c. c \<in> set cs \<Longrightarrow> shrinks c) \<Longrightarrow> shrinks (block cs)"
  by (induction cs) (simp_all add: shrinks_intros)

lemma shrinks_for_each [shrinks_intros]: "(\<And>i. shrinks (f i)) \<Longrightarrow> shrinks (for_each is f)"
  by (induction "is") (simp_all add: shrinks_intros)

lemma shrinks_call [shrinks_intros]: "shrinks (u_call c)"
  by (simp add: u_call_def shrinks_intros)

lemma shrinks_calls [shrinks_intros]:
  "shrinks u_fork" "shrinks (u_write fd bs)" "shrinks (u_close fd)" "shrinks (u_open path mode)" "shrinks (u_dup fd)"
  "shrinks (u_kill pid)" "shrinks (u_sleep n)" "shrinks (u_sbrk k)" "shrinks (u_unlink path)" "shrinks (u_link path path2)"
  "shrinks (u_mkdir path)" "shrinks (u_chdir path)" "shrinks u_getpid" "shrinks (u_mknod path mj mn)"
  by (simp_all add: u_fork_def u_write_def u_close_def u_open_def u_dup_def u_kill_def u_sleep_def u_sbrk_def
      u_unlink_def u_link_def u_mkdir_def u_chdir_def u_getpid_def u_mknod_def shrinks_call)

lemma shrinks_data [shrinks_intros]:
  "shrinks (u_read fd n)" "shrinks u_wait" "shrinks u_pipe" "shrinks (u_fstat fd)"
  by (simp_all add: u_wait_def u_pipe_def u_fstat_def shrinks_intros)
    (auto simp: shrinks_def fewer_def u_read_def Let_def split: list.splits)

lemma shrinks_Swtch [shrinks_intros]: "shrinks Swtch"
  by (simp add: shrinks_def)

lemma shrinks_case_prod [shrinks_intros]: "(\<And>a b. shrinks (f a b)) \<Longrightarrow> shrinks (case p of (a, b) \<Rightarrow> f a b)"
  by (cases p) simp

lemma shrinks_gets_loop [shrinks_intros]: "shrinks (gets_loop k acc)"
proof (induction k arbitrary: acc)
  case (Suc k)
  then show ?case unfolding gets_loop.simps by (intro shrinks_intros)
qed (simp add: shrinks_intros)

lemma shrinks_lib [shrinks_intros]: "shrinks (u_exec path argv)" "shrinks (u_gets n)" "shrinks (u_stat path)"
  unfolding u_exec_def u_gets_def u_stat_def by (intro shrinks_intros)+

end
