(* ===== verification/UPrintf.thy ===== *)
theory UPrintf
  imports User Printf
begin

text \<open>
  \<^verbatim>\<open>user/printf.c\<close>: formatted output of user programs, one \<^verbatim>\<open>write\<close> of one byte per character. Numbers are
  printed from an \<^verbatim>\<open>int\<close>, so the long conversions use the low 32 bits of their argument.
\<close>

section \<open>Numbers\<close>

definition u_digits :: "u8 list" where
  "u_digits = bytes ''0123456789ABCDEF''"

definition u_putc :: "int \<Rightarrow> u8 \<Rightarrow> (unit, 'a uproc_scheme) m" where
  "u_putc fd c = ignore (u_write fd [c])"

text \<open>The \<^verbatim>\<open>do\<close> loop of \<^verbatim>\<open>printint\<close>: the digits, least significant first.\<close>

function u_digits_rev :: "u32 \<Rightarrow> u32 \<Rightarrow> u8 list" where
  "u_digits_rev x base = u_digits ! unat (x mod base) #
     (if base < 2 \<or> x div base = 0 then [] else u_digits_rev (x div base) base)"
  by auto
termination
proof (relation "measure (\<lambda>(x, base). unat x)", goal_cases)
  case (2 x base)
  then have "x \<noteq> 0" "1 < unat base" by (auto simp: not_less word_le_nat_alt)
  then have "unat x div unat base < unat x" by (intro div_less_dividend) (auto simp: unat_gt_0)
  then show ?case by (simp add: unat_div)
qed simp

declare u_digits_rev.simps [simp del]

definition u_printint_buf :: "u32 \<Rightarrow> u32 \<Rightarrow> bool \<Rightarrow> u8 list" where
  "u_printint_buf xx base sign =
     (let neg = (sign \<and> sint xx < 0); x = (if neg then - xx else xx) in
      u_digits_rev x base @ (if neg then bytes ''-'' else []))"

definition u_printint :: "int \<Rightarrow> u32 \<Rightarrow> u32 \<Rightarrow> bool \<Rightarrow> (unit, 'a uproc_scheme) m" where
  "u_printint fd xx base sign =
     (let buf = u_printint_buf xx base sign in
      if length buf > 16 then undef else for_each (rev buf) (u_putc fd))"

primrec u_printptr_loop :: "int \<Rightarrow> nat \<Rightarrow> u64 \<Rightarrow> (unit, 'a uproc_scheme) m" where
  "u_printptr_loop fd 0 x = ret ()"
| "u_printptr_loop fd (Suc n) x = block [
     u_putc fd (u_digits ! unat (drop_bit 60 x)),
     u_printptr_loop fd n (push_bit 4 x)]"

definition u_printptr :: "int \<Rightarrow> u64 \<Rightarrow> (unit, 'a uproc_scheme) m" where
  "u_printptr fd x = block [
     for_each (bytes ''0x'') (u_putc fd),
     u_printptr_loop fd 16 x]"

section \<open>vprintf\<close>

text \<open>
  One conversion, \<open>c0\<close>, \<open>c1\<close>, \<open>c2\<close> being the characters after the percent sign: how many of them were used
  and the arguments left.
\<close>

definition vprintf_conv :: "int \<Rightarrow> u8 \<Rightarrow> u8 \<Rightarrow> u8 \<Rightarrow> parg list \<Rightarrow> (nat \<times> parg list, 'a uproc_scheme) m" where
  "vprintf_conv fd c0 c1 c2 ap =
     (let num = (\<lambda>n base sign. va_uint64 ap (\<lambda>x ap'. bnd (u_printint fd (ucast x) base sign) (\<lambda>_. ret (n, ap')))) in
      if c0 = ch ''d'' then num 1 10 True
      else if c0 = ch ''l'' \<and> c1 = ch ''d'' then num 2 10 True
      else if c0 = ch ''l'' \<and> c1 = ch ''l'' \<and> c2 = ch ''d'' then num 3 10 True
      else if c0 = ch ''u'' then num 1 10 False
      else if c0 = ch ''l'' \<and> c1 = ch ''u'' then num 2 10 False
      else if c0 = ch ''l'' \<and> c1 = ch ''l'' \<and> c2 = ch ''u'' then num 3 10 False
      else if c0 = ch ''x'' then num 1 16 False
      else if c0 = ch ''l'' \<and> c1 = ch ''x'' then num 2 16 False
      else if c0 = ch ''l'' \<and> c1 = ch ''l'' \<and> c2 = ch ''x'' then num 3 16 False
      else if c0 = ch ''p'' then va_uint64 ap (\<lambda>x ap'. bnd (u_printptr fd x) (\<lambda>_. ret (1, ap')))
      else if c0 = ch ''s'' then va_str ap (\<lambda>x ap'.
        bnd (for_each (case x of None \<Rightarrow> bytes ''(null)'' | Some bs \<Rightarrow> bs) (u_putc fd)) (\<lambda>_. ret (1, ap')))
      else if c0 = ch ''%'' then bnd (u_putc fd (ch ''%'')) (\<lambda>_. ret (1, ap))
      else bnd (u_putc fd (ch ''%'')) (\<lambda>_. bnd (u_putc fd c0) (\<lambda>_. ret (1, ap))))"

text \<open>A percent sign at the end of the format sets the state and prints nothing.\<close>

function vprintf_loop :: "int \<Rightarrow> u8 list \<Rightarrow> parg list \<Rightarrow> (unit, 'a uproc_scheme) m" where
  "vprintf_loop fd fmt ap s =
     (if fmt = [] then ret ()
      else if hd fmt \<noteq> ch ''%'' then bnd (u_putc fd (hd fmt)) (\<lambda>_. vprintf_loop fd (tl fmt) ap)
      else if tl fmt = [] then ret ()
      else
        bnd (vprintf_conv fd (at fmt 1) (at fmt 2) (at fmt 3) ap) (\<lambda>u.
        vprintf_loop fd (drop (Suc (fst u)) fmt) (snd u))) s"
  by auto
termination by (relation "measure (\<lambda>(fd, fmt, ap, s). length fmt)") auto

declare vprintf_loop.simps [simp del]

definition u_fprintf :: "int \<Rightarrow> string \<Rightarrow> parg list \<Rightarrow> (unit, 'a uproc_scheme) m" where
  "u_fprintf fd fmt ap = vprintf_loop fd (bytes fmt) ap"

definition u_printf :: "string \<Rightarrow> parg list \<Rightarrow> (unit, 'a uproc_scheme) m" where
  "u_printf fmt ap = vprintf_loop 1 (bytes fmt) ap"

abbreviation Pstr :: "u8 list \<Rightarrow> parg" where
  "Pstr bs \<equiv> Str (Some bs)"

abbreviation Pint :: "int \<Rightarrow> parg" where
  "Pint n \<equiv> Slot (word_of_int n)"

lemma shrinks_printing [shrinks_intros]:
  "shrinks (u_putc fd c)" "shrinks (u_printint fd x base b)" "shrinks (u_printptr_loop fd n w)" "shrinks (u_printptr fd w)"
proof -
  show 1: "shrinks (u_putc fd c)" for c unfolding u_putc_def by (intro shrinks_intros)
  show "shrinks (u_printint fd x base b)" unfolding u_printint_def Let_def by (intro shrinks_intros 1)
  show 2: "shrinks (u_printptr_loop fd n w)" for n w
  proof (induction n arbitrary: w)
    case (Suc n)
    then show ?case unfolding u_printptr_loop.simps block.simps by (intro shrinks_intros 1)
  qed (simp add: shrinks_ret)
  show "shrinks (u_printptr fd w)" unfolding u_printptr_def block.simps by (intro shrinks_intros 1 2)
qed

lemma shrinks_va [shrinks_intros]:
  "(\<And>x ap. shrinks (k x ap)) \<Longrightarrow> shrinks (va_uint64 ap k)" "(\<And>x ap. shrinks (j x ap)) \<Longrightarrow> shrinks (va_str ap j)"
  by (auto simp: va_uint64_def va_str_def intro: shrinks_undef split: list.split parg.split)

lemma shrinks_conv [shrinks_intros]: "shrinks (vprintf_conv fd c0 c1 c2 ap)"
  unfolding vprintf_conv_def Let_def by (intro shrinks_intros)

lemma shrinks_vprintf [shrinks_intros]: "shrinks (vprintf_loop fd fmt ap :: (unit, 'a uproc_scheme) m)"
proof (induction "length fmt" arbitrary: fmt ap rule: less_induct)
  case less
  have IH: "shrinks (vprintf_loop fd (drop (Suc k) fmt) ap :: (unit, 'a uproc_scheme) m)" if "fmt \<noteq> []" for k ap
    by (rule less) (use that in \<open>simp add: Suc_le_eq\<close>)
  have "shrinks (if fmt = [] then ret () else if hd fmt \<noteq> ch ''%'' then bnd (u_putc fd (hd fmt)) (\<lambda>_. vprintf_loop fd (tl fmt) ap)
      else if tl fmt = [] then ret ()
      else bnd (vprintf_conv fd (at fmt 1) (at fmt 2) (at fmt 3) ap) (\<lambda>u. vprintf_loop fd (drop (Suc (fst u)) fmt) (snd u)) :: (unit, 'a uproc_scheme) m)"
    using IH IH [of 0] by (auto intro!: shrinks_intros simp: drop_Suc)
  moreover have "(vprintf_loop fd fmt ap :: (unit, 'a uproc_scheme) m) = (if fmt = [] then ret () else if hd fmt \<noteq> ch ''%'' then bnd (u_putc fd (hd fmt)) (\<lambda>_. vprintf_loop fd (tl fmt) ap)
      else if tl fmt = [] then ret ()
      else bnd (vprintf_conv fd (at fmt 1) (at fmt 2) (at fmt 3) ap) (\<lambda>u. vprintf_loop fd (drop (Suc (fst u)) fmt) (snd u)))"
    by (intro ext) (rule vprintf_loop.simps)
  ultimately show ?case by simp
qed

lemma shrinks_printf [shrinks_intros]: "shrinks (u_fprintf fd fmt ap)" "shrinks (u_printf fmt ap)"
  by (simp_all add: u_fprintf_def u_printf_def shrinks_vprintf)

section \<open>Output is writes\<close>

text \<open>
  \<open>outputs fd c bs\<close>: with results enough for its writes, the routine \<open>c\<close> writes the bytes \<open>bs\<close> to \<open>fd\<close> one at a
  time and returns; it never looks at the results.
\<close>

definition writes :: "int \<Rightarrow> u8 list \<Rightarrow> scall list" where
  "writes fd bs = map (\<lambda>b. C_write fd [b]) bs"

definition after :: "nat \<Rightarrow> scall list \<Rightarrow> 'a uproc_scheme \<Rightarrow> 'a uproc_scheme" where
  "after n cs s = s\<lparr>answers := drop n (answers s), calls := calls s @ cs\<rparr>"

lemma after_simps [simp]:
  "answers (after n cs s) = drop n (answers s)" "calls (after n cs s) = calls s @ cs"
  "exited (after n cs s) = exited s" "reads (after n cs s) = reads s" "after 0 [] s = s"
  "after m ds (after n cs s) = after (n + m) (cs @ ds) s"
  by (simp_all add: after_def add.commute)

definition outputs :: "int \<Rightarrow> (unit, 'a uproc_scheme) m \<Rightarrow> u8 list \<Rightarrow> bool" where
  "outputs fd c bs \<longleftrightarrow> (\<forall>s. length bs \<le> length (answers s) \<longrightarrow> c s = Ok () (after (length bs) (writes fd bs) s))"

lemma outputsD: "outputs fd c bs \<Longrightarrow> length bs \<le> length (answers s) \<Longrightarrow> c s = Ok () (after (length bs) (writes fd bs) s)"
  by (simp add: outputs_def)

lemma writes_simps [simp]:
  "writes fd [] = []" "writes fd (a # bs) = C_write fd [a] # writes fd bs" "writes fd (as @ bs) = writes fd as @ writes fd bs"
  by (simp_all add: writes_def)

lemma u_syscall_after: "answers s \<noteq> [] \<Longrightarrow> u_syscall c s = Ok (hd (answers s)) (after 1 [c] s)"
  by (cases "answers s") (simp_all add: u_syscall_def after_def)

lemma u_call_after: "answers s \<noteq> [] \<Longrightarrow> u_call c s = Ok (a_ret (hd (answers s))) (after 1 [c] s)"
  by (simp add: u_call_def bnd_def ret_def u_syscall_after)

lemma outputs_ret: "outputs fd (ret ()) []"
  by (simp add: outputs_def ret_def)

lemma outputs_putc: "outputs fd (u_putc fd c) [c]"
  by (auto simp: outputs_def u_putc_def ignore_def bnd_def ret_def u_write_def u_call_after Suc_le_eq)

lemma outputs_seq: "outputs fd c as \<Longrightarrow> outputs fd d bs \<Longrightarrow> outputs fd (bnd c (\<lambda>_. d)) (as @ bs)"
  by (simp add: outputs_def bnd_def)

lemma outputs_putc_all: "outputs fd (for_each bs (u_putc fd)) bs"
proof (induction bs)
  case (Cons b bs)
  then show ?case using outputs_seq [OF outputs_putc Cons] by simp
qed (simp add: outputs_ret)

lemma vprintf_Nil: "outputs fd (vprintf_loop fd [] ap) []"
  by (simp add: outputs_def vprintf_loop.simps ret_def)

lemma vprintf_char:
  assumes "c \<noteq> 37" and "outputs fd (vprintf_loop fd fmt ap :: (unit, 'a uproc_scheme) m) bs"
  shows "outputs fd (vprintf_loop fd (c # fmt) ap :: (unit, 'a uproc_scheme) m) (c # bs)"
proof -
  have "(vprintf_loop fd (c # fmt) ap :: (unit, 'a uproc_scheme) m) = bnd (u_putc fd c) (\<lambda>_. vprintf_loop fd fmt ap)"
    using assms(1) by (intro ext) (subst vprintf_loop.simps, simp add: ch_def bytes_def)
  then show ?thesis using outputs_seq [OF outputs_putc assms(2)] by simp
qed

lemma vprintf_str:
  assumes "outputs fd (vprintf_loop fd fmt ap :: (unit, 'a uproc_scheme) m) bs"
  shows "outputs fd (vprintf_loop fd (37 # 115 # fmt) (Pstr xs # ap) :: (unit, 'a uproc_scheme) m) (xs @ bs)"
proof -
  have "(vprintf_loop fd (37 # 115 # fmt) (Pstr xs # ap) :: (unit, 'a uproc_scheme) m) s = bnd (for_each xs (u_putc fd)) (\<lambda>_. vprintf_loop fd fmt ap) s" for s
    by (subst vprintf_loop.simps)
      (simp add: ch_def bytes_def at_def vprintf_conv_def va_str_def bnd_assoc bnd_def ret_def split: outcome.splits)
  then have "(vprintf_loop fd (37 # 115 # fmt) (Pstr xs # ap) :: (unit, 'a uproc_scheme) m) = bnd (for_each xs (u_putc fd)) (\<lambda>_. vprintf_loop fd fmt ap)"
    by (rule ext)
  then show ?thesis using outputs_seq [OF outputs_putc_all assms] by simp
qed

text \<open>Decimal numbers: the text \<^verbatim>\<open>%d\<close> prints, which fits \<^verbatim>\<open>buf\<close>.\<close>

definition dec_text :: "int \<Rightarrow> u8 list" where
  "dec_text n = rev (u_printint_buf (word_of_int n) 10 True)"

lemma u_digits_rev_step:
  "u_digits_rev x 10 = u_digits ! (unat x mod 10) # (if unat x < 10 then [] else u_digits_rev (x div 10) 10)"
proof -
  have "x div 10 = 0 \<longleftrightarrow> unat x < 10" by (simp add: word_unat_eq_iff unat_div div_eq_0_iff)
  then show ?thesis by (subst u_digits_rev.simps) (simp add: unat_mod)
qed

lemma u_digits_rev_length: "unat x < 10 ^ Suc k \<Longrightarrow> length (u_digits_rev x 10) \<le> Suc k"
proof (induction k arbitrary: x)
  case (Suc k)
  have "unat (x div 10) < 10 ^ Suc k" using Suc.prems by (simp add: unat_div div_less_iff_less_mult)
  then show ?case using Suc.IH [of "x div 10"] by (subst u_digits_rev_step) simp
qed (subst u_digits_rev_step, simp)

lemma dec_text_length: "length (u_printint_buf w 10 True) \<le> 16"
proof -
  have "length (u_digits_rev x 10) \<le> Suc 9" for x :: u32
    using u32_lt [of x] by (intro u_digits_rev_length) simp
  from this [of w] this [of "- w"] show ?thesis by (simp add: u_printint_buf_def Let_def bytes_def)
qed

lemma outputs_printint: "outputs fd (u_printint fd (word_of_int n) 10 True) (dec_text n)"
  using outputs_putc_all [of fd "dec_text n"] dec_text_length [of "word_of_int n"]
  by (simp add: u_printint_def dec_text_def Let_def)

lemma vprintf_d:
  assumes "outputs fd (vprintf_loop fd fmt ap :: (unit, 'a uproc_scheme) m) bs"
  shows "outputs fd (vprintf_loop fd (37 # 100 # fmt) (Pint n # ap) :: (unit, 'a uproc_scheme) m) (dec_text n @ bs)"
proof -
  have u: "ucast (word_of_int n :: u64) = (word_of_int n :: u32)"
    by (rule bit_word_eqI) (simp add: bit_simps)
  have "(vprintf_loop fd (37 # 100 # fmt) (Pint n # ap) :: (unit, 'a uproc_scheme) m) =
      bnd (u_printint fd (word_of_int n) 10 True) (\<lambda>_. vprintf_loop fd fmt ap)"
    by (intro ext) (subst vprintf_loop.simps,
      simp add: ch_def bytes_def at_def vprintf_conv_def va_uint64_def u bnd_def ret_def split: outcome.splits)
  then show ?thesis using outputs_seq [OF outputs_printint assms] by simp
qed

section \<open>Input and output of a run\<close>

text \<open>A \<^verbatim>\<open>read\<close> that delivered the bytes \<open>bs\<close>, and all bytes a run has written to a descriptor.\<close>

definition got :: "u8 list \<Rightarrow> answer" where
  "got bs = \<lparr>a_ret = int (length bs), a_data = bs\<rparr>"

definition output_on :: "int \<Rightarrow> scall list \<Rightarrow> u8 list" where
  "output_on fd cs = concat (map (\<lambda>c. case c of C_write d bs \<Rightarrow> if d = fd then bs else [] | _ \<Rightarrow> []) cs)"

lemma output_on_simps [simp]:
  "output_on fd [] = []" "output_on fd (cs @ ds) = output_on fd cs @ output_on fd ds" "output_on fd (C_read d n # cs) = output_on fd cs"
  "output_on fd (C_write d bs # cs) = (if d = fd then bs else []) @ output_on fd cs"
  by (simp_all add: output_on_def)

lemma output_on_map: "output_on fd (map (\<lambda>l. C_write fd (f l)) ls) = concat (map f ls)"
  by (induction ls) simp_all

lemma u_read_some:
  "reads s fd = a # as \<Longrightarrow>
    u_read fd n s = Ok (a_ret a, a_data a) (s\<lparr>calls := calls s @ [C_read fd n], reads := (reads s)(fd := as)\<rparr>)"
  by (simp add: u_read_def Let_def)

lemma output_on_writes [simp]: "output_on fd (writes d bs) = (if d = fd then bs else [])"
  by (induction bs) simp_all

end
