(* ===== verification/Grep.thy ===== *)
theory Grep
  imports UPrintf
begin

text \<open>
  \<^verbatim>\<open>user/grep.c\<close>: the matcher for the operators \<^verbatim>\<open>^ . * $\<close> and the loop that cuts the input into lines.
  A C string is the list of its bytes without the terminating NUL. The matcher is compared with the
  language its pattern denotes, and the program with the lines of its input.
\<close>

section \<open>The matcher\<close>

function matchhere :: "u8 list \<Rightarrow> u8 list \<Rightarrow> bool"
  and matchstar :: "u8 \<Rightarrow> u8 list \<Rightarrow> u8 list \<Rightarrow> bool" where
  "matchhere re text =
     (if re = [] then True
      else if at re 1 = ch ''*'' then matchstar (hd re) (drop 2 re) text
      else if hd re = ch ''$'' \<and> at re 1 = 0 then text = []
      else if text \<noteq> [] \<and> (hd re = ch ''.'' \<or> hd re = hd text) then matchhere (tl re) (tl text)
      else False)"
| "matchstar c re text =
     (if matchhere re text then True
      else if text \<noteq> [] \<and> (hd text = c \<or> c = ch ''.'') then matchstar c re (tl text)
      else False)"
  by pat_completeness auto
termination
  by (relation "inv_image (less_than <*lex*> less_than <*lex*> less_than)
      (\<lambda>x. case x of Inl (re, text) \<Rightarrow> (length re, length text, 0 :: nat) | Inr (c, re, text) \<Rightarrow> (length re, length text, 1))")
    auto

declare matchhere.simps [simp del]
declare matchstar.simps [simp del]

text \<open>The \<^verbatim>\<open>do\<close> loop of \<^verbatim>\<open>match\<close> tries the empty rest of the text too.\<close>

fun match_from :: "u8 list \<Rightarrow> u8 list \<Rightarrow> bool" where
  "match_from re [] = matchhere re []"
| "match_from re (x # text) = (if matchhere re (x # text) then True else match_from re text)"

definition match :: "u8 list \<Rightarrow> u8 list \<Rightarrow> bool" where
  "match re text = (if at re 0 = ch ''^'' then matchhere (tl re) text else match_from re text)"

section \<open>The program\<close>

text \<open>\<^verbatim>\<open>strchr\<close> on a C string.\<close>

fun strchr :: "u8 list \<Rightarrow> u8 \<Rightarrow> nat option" where
  "strchr [] c = None"
| "strchr (x # s) c = (if x = 0 then None else if x = c then Some 0 else map_option Suc (strchr s c))"

lemma strchr_drop: "strchr s c = Some i \<Longrightarrow> i < length s"
  by (induction s arbitrary: i) (auto split: if_splits)

text \<open>The inner loop: \<open>rest\<close> is the buffer from \<^verbatim>\<open>p\<close> on; the result is what is left after the last newline.\<close>

function grep_lines :: "u8 list \<Rightarrow> u8 list \<Rightarrow> (u8 list, 'a uproc_scheme) m" where
  "grep_lines pattern rest s =
     (case strchr rest 10 of
        None \<Rightarrow> ret rest
      | Some i \<Rightarrow>
          bnd (if match pattern (take i rest) then ignore (u_write 1 (take (Suc i) rest)) else ret ()) (\<lambda>_.
          grep_lines pattern (drop (Suc i) rest))) s"
  by auto
termination by (relation "measure (\<lambda>(pattern, rest, s). length rest)") (auto dest: strchr_drop)

declare grep_lines.simps [simp del]

lemma shrinks_grep_lines [shrinks_intros]: "shrinks (grep_lines pattern rest :: (u8 list, 'a uproc_scheme) m)"
proof (induction "length rest" arbitrary: rest rule: less_induct)
  case less
  have "grep_lines pattern rest = (case strchr rest 10 of None \<Rightarrow> ret rest
      | Some i \<Rightarrow> bnd (if match pattern (take i rest) then ignore (u_write 1 (take (Suc i) rest)) else ret ())
          (\<lambda>_. grep_lines pattern (drop (Suc i) rest) :: (u8 list, 'a uproc_scheme) m))"
    by (intro ext) (rule grep_lines.simps)
  moreover have "shrinks (grep_lines pattern (drop (Suc i) rest) :: (u8 list, 'a uproc_scheme) m)" if "strchr rest 10 = Some i" for i
    by (rule less) (use strchr_drop [OF that] in simp)
  ultimately show ?case by (auto intro!: shrinks_intros split: option.split)
qed

text \<open>
  The outer loop, with \<open>carry\<close> the first \<open>m\<close> bytes of \<^verbatim>\<open>buf\<close>. The kernel stores the bytes it reports, and
  no more than asked for.
\<close>

function grep_loop :: "u8 list \<Rightarrow> int \<Rightarrow> u8 list \<Rightarrow> (unit, 'a uproc_scheme) m" where
  "grep_loop pattern fd carry s =
     bnd (u_read fd (1024 - length carry - 1)) (\<lambda>(n, bs).
     if n > 0
     then
       if n \<noteq> int (length bs) \<or> length bs > 1024 - length carry - 1 then undef
       else bnd (grep_lines pattern (carry @ bs)) (\<lambda>rest. grep_loop pattern fd rest)
     else ret ()) s"
  by auto
termination
proof (relation "measure (\<lambda>(pattern, fd, carry, s). length (reads s fd))", goal_cases)
  case (2 pattern fd carry s p t n bs rest u)
  show ?case using u_read_less [OF 2(1)] shrinksD(2) [OF shrinks_grep_lines 2(5), of fd] by simp
qed simp

declare grep_loop.simps [simp del]

definition grep :: "u8 list \<Rightarrow> int \<Rightarrow> (unit, 'a uproc_scheme) m" where
  "grep pattern fd = grep_loop pattern fd []"

definition grep_main :: "u8 list list \<Rightarrow> (unit, 'a uproc_scheme) m" where
  "grep_main argv = block [
     if_do (length argv \<le> 1) (block [
       u_fprintf 2 (''usage: grep pattern [file ...]'' @ nl) [],
       u_exit 1]),
     if_do (length argv \<le> 2) (block [
       grep (argv ! 1) 0,
       u_exit 0]),
     for_each (drop 2 argv) (\<lambda>file.
       bnd (u_open file 0) (\<lambda>fd. block [
         if_do (fd < 0) (block [
           u_printf (''grep: cannot open %s'' @ nl) [Pstr file],
           u_exit 1]),
         grep (argv ! 1) fd,
         ignore (u_close fd)])),
     u_exit 0]"

section \<open>What a pattern means\<close>

text \<open>A pattern is a list of single characters and starred characters, possibly anchored at the end.\<close>

datatype atom = Single u8 | Star u8

fun atoms :: "u8 list \<Rightarrow> atom list \<times> bool" where
  "atoms [] = ([], False)"
| "atoms [c] = (if c = 36 then ([], True) else ([Single c], False))"
| "atoms (c # d # re) =
     (if d = 42 then (case atoms re of (as, e) \<Rightarrow> (Star c # as, e))
      else (case atoms (d # re) of (as, e) \<Rightarrow> (Single c # as, e)))"

definition fits :: "u8 \<Rightarrow> u8 \<Rightarrow> bool" where
  "fits c x \<longleftrightarrow> c = 46 \<or> c = x"

fun lang :: "atom list \<Rightarrow> u8 list set" where
  "lang [] = {[]}"
| "lang (Single c # as) = {x # w | x w. fits c x \<and> w \<in> lang as}"
| "lang (Star c # as) = {v @ w | v w. (\<forall>x\<in>set v. fits c x) \<and> w \<in> lang as}"

text \<open>Some beginning of the text is in the language, all of it when the pattern ends with \<^verbatim>\<open>$\<close>.\<close>

definition begins :: "atom list \<times> bool \<Rightarrow> u8 list \<Rightarrow> bool" where
  "begins p text \<longleftrightarrow> (\<exists>v w. text = v @ w \<and> v \<in> lang (fst p) \<and> (snd p \<longrightarrow> w = []))"

lemma begins_Nil: "begins ([], e) text \<longleftrightarrow> (e \<longrightarrow> text = [])"
  by (simp add: begins_def)

lemma begins_Single: "begins (Single c # as, e) text \<longleftrightarrow> (\<exists>x t. text = x # t \<and> fits c x \<and> begins (as, e) t)" (is "?L \<longleftrightarrow> ?R")
proof
  assume ?L
  then obtain u z where 1: "text = u @ z" "u \<in> lang (Single c # as)" "e \<longrightarrow> z = []"
    by (auto simp only: begins_def fst_conv snd_conv)
  from 1(2) obtain x w where "u = x # w" "fits c x" "w \<in> lang as" by (auto simp only: lang.simps mem_Collect_eq)
  then have "text = x # (w @ z)" "fits c x" "begins (as, e) (w @ z)" using 1 unfolding begins_def by auto
  then show ?R by blast
next
  assume ?R
  then obtain x t where 1: "text = x # t" "fits c x" "begins (as, e) t" by blast
  from 1(3) obtain w z where 2: "t = w @ z" "w \<in> lang as" "e \<longrightarrow> z = []" by (auto simp only: begins_def fst_conv snd_conv)
  have "x # w \<in> lang (Single c # as)" using 1 2 by simp
  then show ?L using 1 2 unfolding begins_def by (intro exI [of _ "x # w"] exI [of _ z]) simp
qed

lemma begins_Star_iff:
  "begins (Star c # as, e) text \<longleftrightarrow> (\<exists>v t. text = v @ t \<and> (\<forall>x\<in>set v. fits c x) \<and> begins (as, e) t)" (is "?L \<longleftrightarrow> ?R")
proof
  assume ?L
  then obtain u z where 1: "text = u @ z" "u \<in> lang (Star c # as)" "e \<longrightarrow> z = []"
    by (auto simp only: begins_def fst_conv snd_conv)
  from 1(2) obtain v w where "u = v @ w" "\<forall>x\<in>set v. fits c x" "w \<in> lang as" by (auto simp only: lang.simps mem_Collect_eq)
  then have "text = v @ (w @ z)" "\<forall>x\<in>set v. fits c x" "begins (as, e) (w @ z)" using 1 unfolding begins_def by auto
  then show ?R by blast
next
  assume ?R
  then obtain v t where 1: "text = v @ t" "\<forall>x\<in>set v. fits c x" "begins (as, e) t" by blast
  from 1(3) obtain w z where 2: "t = w @ z" "w \<in> lang as" "e \<longrightarrow> z = []" by (auto simp only: begins_def fst_conv snd_conv)
  have "v @ w \<in> lang (Star c # as)" using 1 2 by auto
  then show ?L using 1 2 unfolding begins_def by (intro exI [of _ "v @ w"] exI [of _ z]) simp
qed

lemma begins_Star: "begins (Star c # as, e) text \<longleftrightarrow>
    begins (as, e) text \<or> (\<exists>x t. text = x # t \<and> fits c x \<and> begins (Star c # as, e) t)" (is "?L \<longleftrightarrow> ?R")
proof
  assume ?L
  then obtain v t where 1: "text = v @ t" "\<forall>x\<in>set v. fits c x" "begins (as, e) t" unfolding begins_Star_iff by blast
  then show ?R unfolding begins_Star_iff by (cases v) auto
next
  assume ?R
  then consider "begins (as, e) text"
    | x v t where "text = x # v @ t" "fits c x" "\<forall>x\<in>set v. fits c x" "begins (as, e) t"
    unfolding begins_Star_iff by blast
  then show ?L
  proof cases
    case 1
    then show ?thesis unfolding begins_Star_iff by (intro exI [of _ "[]"] exI [of _ "text"]) simp
  next
    case 2
    then show ?thesis unfolding begins_Star_iff by (intro exI [of _ "x # v"] exI [of _ t]) simp
  qed
qed

text \<open>\<^verbatim>\<open>matchhere\<close> and \<^verbatim>\<open>matchstar\<close> decide this.\<close>

lemma ch_vals: "ch ''*'' = 42" "ch ''$'' = 36" "ch ''.'' = 46" "ch ''^'' = 94"
  by (simp_all add: ch_def bytes_def)

lemma at_0: "at re 0 = (if re = [] then 0 else hd re)"
  by (simp add: at_def hd_conv_nth)

lemma matchhere_eqs:
  "matchhere [] t"
  "matchhere [c] t \<longleftrightarrow> (if c = 36 then t = [] else case t of [] \<Rightarrow> False | x # u \<Rightarrow> fits c x)"
  "matchhere (c # 42 # r) t \<longleftrightarrow> matchstar c r t"
  "d \<noteq> 42 \<Longrightarrow> d \<noteq> 0 \<Longrightarrow> matchhere (c # d # r) t \<longleftrightarrow> (case t of [] \<Rightarrow> False | x # u \<Rightarrow> fits c x \<and> matchhere (d # r) u)"
proof -
  show e: "matchhere [] t" for t by (subst matchhere.simps) simp
  show "matchhere [c] t \<longleftrightarrow> (if c = 36 then t = [] else case t of [] \<Rightarrow> False | x # u \<Rightarrow> fits c x)"
    by (subst matchhere.simps) (simp add: at_def ch_vals fits_def e split: list.split)
  show "matchhere (c # 42 # r) t \<longleftrightarrow> matchstar c r t"
    by (subst matchhere.simps) (simp add: at_def ch_vals)
  show "d \<noteq> 42 \<Longrightarrow> d \<noteq> 0 \<Longrightarrow> matchhere (c # d # r) t \<longleftrightarrow> (case t of [] \<Rightarrow> False | x # u \<Rightarrow> fits c x \<and> matchhere (d # r) u)"
    by (subst matchhere.simps) (simp add: at_def ch_vals fits_def split: list.split)
qed

lemma matchstar_eq:
  "matchstar c re t \<longleftrightarrow> matchhere re t \<or> (case t of [] \<Rightarrow> False | x # u \<Rightarrow> fits c x \<and> matchstar c re u)"
  by (subst matchstar.simps) (auto simp: ch_vals fits_def split: list.split)

lemma matchstar_begins:
  assumes "\<And>t. matchhere re t \<longleftrightarrow> begins (as, e) t"
  shows "matchstar c re t \<longleftrightarrow> begins (Star c # as, e) t"
  by (induction t) (subst matchstar_eq, subst begins_Star, simp add: assms)+

lemma matchhere_begins: "0 \<notin> set re \<Longrightarrow> matchhere re t \<longleftrightarrow> begins (atoms re) t"
proof (induction re arbitrary: t rule: atoms.induct)
  case (3 c d re)
  show ?case
  proof (cases "d = 42")
    case True
    obtain as e where "atoms re = (as, e)" by force
    then show ?thesis using 3 True matchstar_begins [of re as e] by (simp add: matchhere_eqs)
  next
    case False
    obtain as e where "atoms (d # re) = (as, e)" by force
    then show ?thesis using 3 False by (simp add: matchhere_eqs begins_Single split: list.split)
  qed
qed (auto simp: matchhere_eqs begins_Nil begins_Single split: list.split)

lemma match_from_suffix: "match_from re t \<longleftrightarrow> (\<exists>u v. t = u @ v \<and> matchhere re v)" (is "_ \<longleftrightarrow> ?R t")
proof (induction t)
  case (Cons x t)
  have "?R (x # t)" if "matchhere re (x # t)" using that by blast
  moreover have "?R (x # t)" if "t = u @ v" "matchhere re v" for u v
    using that by (intro exI [of _ "x # u"] exI [of _ v]) simp
  moreover have "matchhere re (x # t) \<or> ?R t" if "x # t = u @ v" "matchhere re v" for u v
    using that by (cases u) auto
  ultimately have "?R (x # t) \<longleftrightarrow> matchhere re (x # t) \<or> ?R t" by blast
  then show ?case using Cons.IH by (simp only: match_from.simps if_bool_eq_disj) blast
qed simp

section \<open>The lines of the input\<close>












section \<open>Properties\<close>

text \<open>
  C27: The matcher decides the language of its pattern: a pattern is a list of characters, dots and starred
  ones, optionally anchored by \<^verbatim>\<open>^\<close> and \<^verbatim>\<open>$\<close>, and \<^verbatim>\<open>match\<close> returns 1 exactly when some part of the text (its
  beginning, or its end, if anchored there) belongs to the language.
\<close>

theorem match_language:
  assumes "0 \<notin> set re"
  shows "match re t \<longleftrightarrow> (let anch = (re \<noteq> [] \<and> hd re = 94); p = atoms (if anch then tl re else re) in
    \<exists>u v w. t = u @ v @ w \<and> v \<in> lang (fst p) \<and> (anch \<longrightarrow> u = []) \<and> (snd p \<longrightarrow> w = []))"
proof (cases "re \<noteq> [] \<and> hd re = 94")
  case True
  then have "0 \<notin> set (tl re)" using assms by (cases re) auto
  from matchhere_begins [OF this, of t] True show ?thesis
    by (simp add: match_def at_0 ch_vals begins_def Let_def)
next
  case False
  then have "match re t \<longleftrightarrow> (\<exists>u v. t = u @ v \<and> begins (atoms re) v)"
    using match_from_suffix [of re t] matchhere_begins [OF assms] by (auto simp: match_def at_0 ch_vals)
  then show ?thesis using False by (simp add: begins_def Let_def) blast
qed

theorem match_language_witness:
  "match (bytes ''^a.*c$'') (bytes ''abcc'') \<and>
    (\<exists>v \<in> lang [Single 97, Star 46, Single 99]. bytes ''abcc'' = v)"
  using match_language [of "bytes ''^a.*c$''" "bytes ''abcc''"]
  by (simp add: bytes_def fits_def)




end
