(* ===== verification/Tools.thy ===== *)
theory Tools
  imports UPrintf
begin

text \<open>
  The small user programs: \<^verbatim>\<open>cat\<close>, \<^verbatim>\<open>echo\<close>, \<^verbatim>\<open>wc\<close>, \<^verbatim>\<open>kill\<close>, \<^verbatim>\<open>ln\<close>, \<^verbatim>\<open>mkdir\<close>, \<^verbatim>\<open>rm\<close>, \<^verbatim>\<open>sleep\<close>, \<^verbatim>\<open>zombie\<close>, \<^verbatim>\<open>xargs\<close>, \<^verbatim>\<open>init\<close>,
  \<^verbatim>\<open>forktest\<close>, \<^verbatim>\<open>stressfs\<close>, \<^verbatim>\<open>pingpong\<close> and \<^verbatim>\<open>ls\<close>. \<^verbatim>\<open>argv\<close> is the list of the argument strings; a \<^verbatim>\<open>main\<close> ends in
  \<^verbatim>\<open>exit\<close> on every path.
\<close>

section \<open>cat\<close>

function cat_loop :: "int \<Rightarrow> (unit, 'a uproc_scheme) m" where
  "cat_loop fd s =
     bnd (u_read fd 512) (\<lambda>(n, bs).
     if n > 0
     then
       if n \<noteq> int (length bs) then undef
       else
         bnd (u_write 1 bs) (\<lambda>w.
         if w \<noteq> n
         then block [u_fprintf 2 (''cat: write error'' @ nl) [], u_exit 1]
         else cat_loop fd)
     else if_do (n < 0) (block [
       u_fprintf 2 (''cat: read error'' @ nl) [],
       u_exit 1])) s"
  by auto
termination
proof (relation "measure (\<lambda>(fd, s). length (reads s fd))", goal_cases)
  case (2 fd s p t n bs w u)
  show ?case using u_read_less [OF 2(1)] shrinksD(2) [OF shrinks_calls(2) 2(5), of fd] by simp
qed simp

declare cat_loop.simps [simp del]

definition cat :: "int \<Rightarrow> (unit, 'a uproc_scheme) m" where
  "cat fd = cat_loop fd"

definition cat_main :: "u8 list list \<Rightarrow> (unit, 'a uproc_scheme) m" where
  "cat_main argv = block [
     if_do (length argv \<le> 1) (block [cat 0, u_exit 0]),
     for_each (drop 1 argv) (\<lambda>file.
       bnd (u_open file 0) (\<lambda>fd. block [
         if_do (fd < 0) (block [
           u_fprintf 2 (''cat: cannot open %s'' @ nl) [Pstr file],
           u_exit 1]),
         cat fd,
         ignore (u_close fd)])),
     u_exit 0]"

section \<open>echo\<close>

fun echo_loop :: "u8 list list \<Rightarrow> (unit, 'a uproc_scheme) m" where
  "echo_loop [] = ret ()"
| "echo_loop (arg # args) = block [
     ignore (u_write 1 arg),
     if args \<noteq> [] then ignore (u_write 1 (bytes '' '')) else ignore (u_write 1 (bytes nl)),
     echo_loop args]"

definition echo_main :: "u8 list list \<Rightarrow> (unit, 'a uproc_scheme) m" where
  "echo_main argv = block [echo_loop (drop 1 argv), u_exit 0]"

section \<open>wc\<close>

text \<open>The characters \<^verbatim>\<open>strchr\<close> finds in the list of separators; NUL is not among them.\<close>

definition wc_space :: "u8 \<Rightarrow> bool" where
  "wc_space c \<longleftrightarrow> c \<in> set [32, 13, 9, 10, 11]"

record wc_st =
  wc_l :: int
  wc_w :: int
  wc_c :: int
  wc_inword :: bool

text \<open>One character: the counters are \<^verbatim>\<open>int\<close>s.\<close>

definition int32 :: "int \<Rightarrow> int" where
  "int32 n = sint (word_of_int n :: u32)"

definition wc_char :: "u8 \<Rightarrow> wc_st \<Rightarrow> wc_st" where
  "wc_char c k =
     (let k = k\<lparr>wc_c := int32 (wc_c k + 1)\<rparr>;
          k = (if c = 10 then k\<lparr>wc_l := int32 (wc_l k + 1)\<rparr> else k) in
      if wc_space c then k\<lparr>wc_inword := False\<rparr>
      else if \<not> wc_inword k then k\<lparr>wc_w := int32 (wc_w k + 1), wc_inword := True\<rparr>
      else k)"

function wc_loop :: "int \<Rightarrow> wc_st \<Rightarrow> (wc_st, 'a uproc_scheme) m" where
  "wc_loop fd k s =
     bnd (u_read fd 512) (\<lambda>(n, bs).
     if n > 0
     then if n \<noteq> int (length bs) then undef else wc_loop fd (fold wc_char bs k)
     else if n < 0
     then bnd (u_printf (''wc: read error'' @ nl) []) (\<lambda>_. u_exit 1)
     else ret k) s"
  by auto
termination
proof (relation "measure (\<lambda>(fd, k, s). length (reads s fd))", goal_cases)
  case (2 fd k s p t n bs)
  show ?case using u_read_less [OF 2(1)] by simp
qed simp

declare wc_loop.simps [simp del]

definition wc :: "int \<Rightarrow> u8 list \<Rightarrow> (unit, 'a uproc_scheme) m" where
  "wc fd name =
     bnd (wc_loop fd \<lparr>wc_l = 0, wc_w = 0, wc_c = 0, wc_inword = False\<rparr>) (\<lambda>k.
     u_printf (''%d %d %d %s'' @ nl) [Pint (wc_l k), Pint (wc_w k), Pint (wc_c k), Pstr name])"

definition wc_main :: "u8 list list \<Rightarrow> (unit, 'a uproc_scheme) m" where
  "wc_main argv = block [
     if_do (length argv \<le> 1) (block [wc 0 [], u_exit 0]),
     for_each (drop 1 argv) (\<lambda>file.
       bnd (u_open file 0) (\<lambda>fd. block [
         if_do (fd < 0) (block [
           u_printf (''wc: cannot open %s'' @ nl) [Pstr file],
           u_exit 1]),
         wc fd file,
         ignore (u_close fd)])),
     u_exit 0]"

section \<open>kill, ln, mkdir, rm, sleep, zombie, xargs\<close>

text \<open>\<^verbatim>\<open>atoi\<close> of an argument string.\<close>

definition atoi_arg :: "u8 list \<Rightarrow> (int \<Rightarrow> ('r, 's) m) \<Rightarrow> ('r, 's) m" where
  "atoi_arg arg k = (case atoi (ptr arg) of Some n \<Rightarrow> k n | None \<Rightarrow> forever)"

definition kill_main :: "u8 list list \<Rightarrow> (unit, 'a uproc_scheme) m" where
  "kill_main argv = block [
     if_do (length argv < 2) (block [u_fprintf 2 (''usage: kill pid...'' @ nl) [], u_exit 1]),
     for_each (drop 1 argv) (\<lambda>arg. atoi_arg arg (\<lambda>pid. ignore (u_kill pid))),
     u_exit 0]"

definition ln_main :: "u8 list list \<Rightarrow> (unit, 'a uproc_scheme) m" where
  "ln_main argv = block [
     if_do (length argv \<noteq> 3) (block [u_fprintf 2 (''Usage: ln old new'' @ nl) [], u_exit 1]),
     bnd (u_link (argv ! 1) (argv ! 2)) (\<lambda>r.
     if_do (r < 0) (u_fprintf 2 (''link %s %s: failed'' @ nl) [Pstr (argv ! 1), Pstr (argv ! 2)])),
     u_exit 0]"

definition mkdir_main :: "u8 list list \<Rightarrow> (unit, 'a uproc_scheme) m" where
  "mkdir_main argv = block [
     if_do (length argv < 2) (block [u_fprintf 2 (''Usage: mkdir files...'' @ nl) [], u_exit 1]),
     ignore (for_first (drop 1 argv) (\<lambda>arg.
       bnd (u_mkdir arg) (\<lambda>r.
       if r < 0 then bnd (u_fprintf 2 (''mkdir: %s failed to create'' @ nl) [Pstr arg]) (\<lambda>_. ret (Some ()))
       else ret None))),
     u_exit 0]"

definition rm_main :: "u8 list list \<Rightarrow> (unit, 'a uproc_scheme) m" where
  "rm_main argv = block [
     if_do (length argv < 2) (block [u_fprintf 2 (''Usage: rm files...'' @ nl) [], u_exit 1]),
     ignore (for_first (drop 1 argv) (\<lambda>arg.
       bnd (u_unlink arg) (\<lambda>r.
       if r < 0 then bnd (u_fprintf 2 (''rm: %s failed to delete'' @ nl) [Pstr arg]) (\<lambda>_. ret (Some ()))
       else ret None))),
     u_exit 0]"

definition sleep_main :: "u8 list list \<Rightarrow> (unit, 'a uproc_scheme) m" where
  "sleep_main argv = block [
     if_do (length argv \<noteq> 2) (block [u_fprintf 2 (''Usage: sleep TICKS'' @ nl) [], u_exit 1]),
     atoi_arg (argv ! 1) (\<lambda>ticks. ignore (u_sleep ticks)),
     u_exit 0]"

definition zombie_main :: "(unit, 'a uproc_scheme) m" where
  "zombie_main = block [
     bnd u_fork (\<lambda>pid. if_do (pid > 0) (ignore (u_sleep 5))),
     u_exit 0]"

definition xargs_main :: "u8 list list \<Rightarrow> (unit, 'a uproc_scheme) m" where
  "xargs_main argv = u_exit 0"

section \<open>init\<close>

text \<open>The inner loop waits for the shell to end.\<close>

function init_wait :: "int \<Rightarrow> (unit, 'a uproc_scheme) m" where
  "init_wait pid s =
     bnd u_wait (\<lambda>(wpid, _).
     if wpid = pid then ret ()
     else if wpid < 0 then block [u_printf (''init: wait returned an error'' @ nl) [], u_exit 1]
     else init_wait pid) s"
  by auto
termination
proof (relation "measure (\<lambda>(pid, s). length (answers s))", goal_cases)
  case (2 pid s p t wpid st)
  show ?case using u_wait_less [OF 2(1)] by simp
qed simp

declare init_wait.simps [simp del]

definition init_argv :: "u8 list list" where
  "init_argv = [bytes ''sh'']"

lemma init_wait_unfold: "init_wait pid = bnd u_wait (\<lambda>(wpid, _).
     if wpid = pid then ret ()
     else if wpid < 0 then block [u_printf (''init: wait returned an error'' @ nl) [], u_exit 1]
     else init_wait pid)"
  by (rule ext) (rule init_wait.simps)

lemma shrinks_init_wait: "shrinks (init_wait pid)"
proof -
  have "init_wait pid s = Ok r t \<Longrightarrow> fewer t s" for s t :: "'a uproc_scheme" and r
  proof (induction "length (answers s)" arbitrary: s rule: less_induct)
    case less
    from less.prems obtain p u where 1: "u_wait s = Ok p u"
      by (subst (asm) init_wait.simps) (auto simp: bnd_def split: outcome.splits)
    have f: "fewer u s" using 1 shrinks_data(2) unfolding shrinks_def by blast
    have "init_wait pid u = Ok r t \<or> t = u"
      using less.prems 1 by (subst (asm) init_wait.simps)
        (auto simp: bnd_def ret_def u_exit_def split: prod.splits if_splits outcome.splits)
    then show ?case using f fewer_trans less.hyps [OF u_wait_less [OF 1]] by blast
  qed
  then show ?thesis by (simp add: shrinks_def)
qed

function init_loop :: "(unit, 'a uproc_scheme) m" where
  "init_loop s =
     bnd (u_printf (''init: starting sh'' @ nl) []) (\<lambda>_.
     bnd u_fork (\<lambda>pid.
     bnd (if_do (pid < 0) (block [u_printf (''init: fork failed'' @ nl) [], u_exit 1])) (\<lambda>_.
     bnd (if_do (pid = 0) (block [
       ignore (u_exec (bytes ''sh'') init_argv),
       u_printf (''init: exec sh failed'' @ nl) [],
       u_exit 1])) (\<lambda>_.
     bnd (init_wait pid) (\<lambda>_. init_loop))))) s"
  by auto
termination
proof (relation "measure (\<lambda>s. length (answers s))", goal_cases)
  case (2 s a1 t1 pid t2 a3 t3 a4 t4 a5 t5)
  have "shrinks (if_do (pid < 0) (block [u_printf (''init: fork failed'' @ nl) [], u_exit 1]) :: (unit, 'a uproc_scheme) m)"
    "shrinks (if_do (pid = 0) (block [ignore (u_exec (bytes ''sh'') init_argv), u_printf (''init: exec sh failed'' @ nl) [],
       u_exit 1]) :: (unit, 'a uproc_scheme) m)"
    unfolding block.simps by (intro shrinks_intros)+
  from shrinksD(1) [OF this(1) 2(3)] shrinksD(1) [OF this(2) 2(4)] shrinksD(1) [OF shrinks_init_wait 2(5)]
    shrinksD(1) [OF shrinks_printf(2) 2(1)] u_call_less [OF 2(2) [unfolded u_fork_def]]
  show ?case by simp
qed simp

declare init_loop.simps [simp del]

text \<open>\<^verbatim>\<open>CONSOLE\<close> is device 1.\<close>

definition init_main :: "(unit, 'a uproc_scheme) m" where
  "init_main = block [
     bnd (u_open (bytes ''console'') 2) (\<lambda>fd.
     if_do (fd < 0) (block [
       ignore (u_mknod (bytes ''console'') 1 0),
       ignore (u_open (bytes ''console'') 2)])),
     ignore (u_dup 0),
     ignore (u_dup 0),
     init_loop]"

section \<open>forktest\<close>

definition print :: "u8 list \<Rightarrow> (unit, 'a uproc_scheme) m" where
  "print s = ignore (u_write 1 s)"

text \<open>The first loop, with \<open>k\<close> rounds left: how many children there are when it ends.\<close>

primrec forktest_forks :: "nat \<Rightarrow> nat \<Rightarrow> (nat, 'a uproc_scheme) m" where
  "forktest_forks 0 n = ret n"
| "forktest_forks (Suc k) n =
     bnd u_fork (\<lambda>pid.
     if pid < 0 then ret n
     else bnd (if_do (pid = 0) (u_exit 0)) (\<lambda>_. forktest_forks k (Suc n)))"

primrec forktest_waits :: "nat \<Rightarrow> (unit, 'a uproc_scheme) m" where
  "forktest_waits 0 = ret ()"
| "forktest_waits (Suc n) =
     bnd u_wait (\<lambda>(pid, _).
     bnd (if_do (pid < 0) (block [print (bytes (''wait stopped early'' @ nl)), u_exit 1])) (\<lambda>_.
     forktest_waits n))"

definition forktest :: "(unit, 'a uproc_scheme) m" where
  "forktest =
     bnd (print (bytes (''fork test'' @ nl))) (\<lambda>_.
     bnd (forktest_forks 1000 0) (\<lambda>n. block [
       if_do (n = 1000) (block [print (bytes (''fork claimed to work N times!'' @ nl)), u_exit 1]),
       forktest_waits n,
       bnd u_wait (\<lambda>(pid, _).
       if_do (pid \<noteq> -1) (block [print (bytes (''wait got too many'' @ nl)), u_exit 1])),
       print (bytes (''fork test OK'' @ nl))]))"

definition forktest_main :: "(unit, 'a uproc_scheme) m" where
  "forktest_main = block [forktest, u_exit 0]"

section \<open>stressfs\<close>

primrec stressfs_forks :: "nat \<Rightarrow> nat \<Rightarrow> (nat, 'a uproc_scheme) m" where
  "stressfs_forks 0 i = ret i"
| "stressfs_forks (Suc k) i =
     bnd u_fork (\<lambda>pid. if pid > 0 then ret i else stressfs_forks k (Suc i))"

definition stressfs_main :: "(unit, 'a uproc_scheme) m" where
  "stressfs_main =
     bnd (u_printf (''stressfs starting'' @ nl) []) (\<lambda>_.
     bnd (stressfs_forks 4 0) (\<lambda>i.
     let path = bytes ''stressfs'' @ [48 + of_nat i]; data = replicate 512 (97 :: u8) in block [
       u_printf (''write %d'' @ nl) [Pint (int i)],
       bnd (u_open path 0x202) (\<lambda>fd. block [
         for_each [0..<20::nat] (\<lambda>_. ignore (u_write fd data)),
         ignore (u_close fd)]),
       u_printf (''read'' @ nl) [],
       bnd (u_open path 0) (\<lambda>fd. block [
         for_each [0..<20::nat] (\<lambda>_. ignore (u_read fd 512)),
         ignore (u_close fd)]),
       ignore u_wait,
       u_exit 0]))"

section \<open>pingpong\<close>

text \<open>Printing \<^verbatim>\<open>buff\<close> with \<^verbatim>\<open>%s\<close> needs a NUL among the bytes read.\<close>

definition pp_received :: "int \<times> u8 list \<Rightarrow> string \<Rightarrow> (unit, 'a uproc_scheme) m" where
  "pp_received r role =
     (if fst r = 5
      then bnd u_getpid (\<lambda>pid.
        if 0 \<notin> set (snd r) then undef
        else u_fprintf 1 (''%d: received %s'' @ nl) [Pint pid, Pstr (takeWhile (\<lambda>c. c \<noteq> 0) (snd r))])
      else bnd u_getpid (\<lambda>pid.
        u_fprintf 2 (''%d: error reading in '' @ role @ '' process'' @ nl) [Pint pid]))"

definition pp_child :: "u8 list \<Rightarrow> u8 list \<Rightarrow> (unit, 'a uproc_scheme) m" where
  "pp_child pc cp =
     bnd (int_at pc 0) (\<lambda>pc0. bnd (int_at pc 4) (\<lambda>pc1.
     bnd (int_at cp 0) (\<lambda>cp0. bnd (int_at cp 4) (\<lambda>cp1. block [
       ignore (u_close pc1),
       ignore (u_close cp0),
       bnd (u_read pc0 5) (\<lambda>r. pp_received r ''child''),
       ignore (u_close pc0),
       bnd (u_write cp1 (bytes ''pong'' @ [0])) (\<lambda>w.
       if_do (w < 5) (bnd u_getpid (\<lambda>pid.
         u_fprintf 2 (''%d: error writing in child process'' @ nl) [Pint pid]))),
       ignore (u_close cp1)]))))"

definition pp_parent :: "u8 list \<Rightarrow> u8 list \<Rightarrow> (unit, 'a uproc_scheme) m" where
  "pp_parent pc cp =
     bnd (int_at pc 0) (\<lambda>pc0. bnd (int_at pc 4) (\<lambda>pc1.
     bnd (int_at cp 0) (\<lambda>cp0. bnd (int_at cp 4) (\<lambda>cp1. block [
       ignore (u_close pc0),
       ignore (u_close cp1),
       bnd (u_write pc1 (bytes ''ping'' @ [0])) (\<lambda>w.
       if_do (w < 5) (bnd u_getpid (\<lambda>pid.
         u_fprintf 2 (''%d: error writing in parent process'' @ nl) [Pint pid]))),
       ignore (u_close pc1),
       bnd (u_read cp0 5) (\<lambda>r. pp_received r ''parent''),
       ignore (u_close cp0)]))))"

definition pingpong_main :: "(unit, 'a uproc_scheme) m" where
  "pingpong_main =
     (let fail = block [u_fprintf 2 (''Error opening pipe'' @ nl) [], u_exit 1] in
      bnd u_pipe (\<lambda>pc.
      bnd (if_do (fst pc < 0) fail) (\<lambda>_.
      bnd u_pipe (\<lambda>cp.
      bnd (if_do (fst cp < 0) fail) (\<lambda>_.
      bnd u_fork (\<lambda>pid. block [
        if pid = 0 then pp_child (snd pc) (snd cp)
        else if_do (pid > 0) (pp_parent (snd pc) (snd cp)),
        u_exit 0]))))))"

section \<open>ls\<close>

definition u_DIRSIZ :: nat where "u_DIRSIZ = 14"

text \<open>The part of a path after its last slash, blank-padded when it is short.\<close>

definition fmtname :: "u8 list \<Rightarrow> u8 list" where
  "fmtname path =
     (let p = rev (takeWhile (\<lambda>c. c \<noteq> ch ''/'') (rev path)) in
      if length p \<ge> u_DIRSIZ then p else p @ replicate (u_DIRSIZ - length p) 32)"

text \<open>\<^verbatim>\<open>struct stat\<close> as \<^verbatim>\<open>fstat\<close> stored it: \<^verbatim>\<open>ino\<close> at 4, \<^verbatim>\<open>type\<close> at 8, \<^verbatim>\<open>size\<close> at 16.\<close>

definition st_type :: "u8 list \<Rightarrow> int" where
  "st_type st = sint (le_word (take 2 (drop 8 st)) :: u16)"

definition ls_print :: "u8 list \<Rightarrow> u8 list \<Rightarrow> (unit, 'a uproc_scheme) m" where
  "ls_print path st =
     (if length st < 24 then undef
      else u_printf (''%s %d %d %d'' @ nl) [Pstr (fmtname path), Pint (st_type st),
        Slot (ucast (le_word (take 4 (drop 4 st)) :: u32)), Slot (le_word (take 8 (drop 16 st)))])"

text \<open>A directory entry: \<^verbatim>\<open>inum\<close> and the name up to its first NUL, if any.\<close>

definition dirent_inum :: "u8 list \<Rightarrow> u16" where
  "dirent_inum de = le_word (take 2 de)"

definition dirent_name :: "u8 list \<Rightarrow> u8 list" where
  "dirent_name de = takeWhile (\<lambda>c. c \<noteq> 0) (take u_DIRSIZ (drop 2 de))"

function ls_entries :: "int \<Rightarrow> u8 list \<Rightarrow> (unit, 'a uproc_scheme) m" where
  "ls_entries fd path s =
     bnd (u_read fd 16) (\<lambda>(n, de).
     if n = 16
     then
       if length de \<noteq> 16 then undef
       else
         bnd (if dirent_inum de = 0 then ret ()
              else let buf = path @ [ch ''/''] @ dirent_name de in
                bnd (u_stat buf) (\<lambda>r.
                if fst r < 0 then u_printf (''ls: cannot stat %s'' @ nl) [Pstr buf]
                else ls_print buf (snd r))) (\<lambda>_.
         ls_entries fd path)
     else ret ()) s"
  by auto
termination
proof (relation "measure (\<lambda>(fd, path, s). length (reads s fd))", goal_cases)
  case (2 fd path s p t n de a u)
  have "shrinks (if dirent_inum de = 0 then ret ()
      else let buf = path @ [ch ''/''] @ dirent_name de in
        bnd (u_stat buf) (\<lambda>r. if fst r < 0 then u_printf (''ls: cannot stat %s'' @ nl) [Pstr buf]
        else ls_print buf (snd r)) :: (unit, 'a uproc_scheme) m)"
    unfolding Let_def ls_print_def by (intro shrinks_intros)
  from shrinksD(2) [OF this 2(5), of fd] u_read_less [OF 2(1)] show ?case by simp
qed simp

declare ls_entries.simps [simp del]

definition ls :: "u8 list \<Rightarrow> (unit, 'a uproc_scheme) m" where
  "ls path =
     bnd (u_open path 0) (\<lambda>fd.
     if fd < 0 then u_fprintf 2 (''ls: cannot open %s'' @ nl) [Pstr path]
     else
       bnd (u_fstat fd) (\<lambda>(r, st).
       if r < 0 then block [
         u_fprintf 2 (''ls: cannot stat %s'' @ nl) [Pstr path],
         ignore (u_close fd)]
       else if length st < 24 then undef
       else block [
         if st_type st = 3 \<or> st_type st = 2 then ls_print path st
         else if_do (st_type st = 1)
           (if length path + 1 + u_DIRSIZ + 1 > 512 then u_printf (''ls: path too long'' @ nl) []
            else ls_entries fd path),
         ignore (u_close fd)]))"

definition ls_main :: "u8 list list \<Rightarrow> (unit, 'a uproc_scheme) m" where
  "ls_main argv = block [
     if_do (length argv < 2) (block [ls (bytes ''.''), u_exit 0]),
     for_each (drop 1 argv) ls,
     u_exit 0]"

section \<open>wc counts\<close>

text \<open>The number of words: positions where a character that is no separator begins the text or follows one.\<close>

definition words :: "u8 list \<Rightarrow> nat" where
  "words xs = length (filter (\<lambda>i. \<not> wc_space (xs ! i) \<and> (i = 0 \<or> wc_space (xs ! (i - 1)))) [0..<length xs])"

lemma words_Nil [simp]: "words [] = 0"
  by (simp add: words_def)

lemma words_snoc:
  "words (xs @ [c]) = words xs + of_bool (\<not> wc_space c \<and> (xs = [] \<or> wc_space (last xs)))"
proof -
  let ?P = "\<lambda>xs i. \<not> wc_space (xs ! i) \<and> (i = 0 \<or> wc_space (xs ! (i - 1)))"
  have "filter (?P (xs @ [c])) [0..<length xs] = filter (?P xs) [0..<length xs]"
    by (rule filter_cong) (auto simp: nth_append)
  then have "words (xs @ [c]) = words xs + of_bool (?P (xs @ [c]) (length xs))"
    unfolding words_def by simp
  moreover have "?P (xs @ [c]) (length xs) \<longleftrightarrow> \<not> wc_space c \<and> (xs = [] \<or> wc_space (last xs))"
    by (cases "xs = []") (simp_all add: nth_append last_conv_nth)
  ultimately show ?thesis by (simp only:)
qed

lemma words_le: "words xs \<le> length xs"
  unfolding words_def by (rule order_trans [OF length_filter_le]) simp

lemma int32_id: "0 \<le> n \<Longrightarrow> n < 2 ^ 31 \<Longrightarrow> int32 n = n"
  by (simp add: int32_def signed_take_bit_int_eq_self signed_of_int)

definition wc_counts :: "u8 list \<Rightarrow> wc_st" where
  "wc_counts xs = \<lparr>wc_l = int (count_list xs 10), wc_w = int (words xs), wc_c = int (length xs),
     wc_inword = (xs \<noteq> [] \<and> \<not> wc_space (last xs))\<rparr>"

lemma count_list_le: "count_list xs x \<le> length xs"
  by (induction xs) auto

lemma wc_char_counts:
  assumes "length xs < 2 ^ 31 - 1"
  shows "wc_char c (wc_counts xs) = wc_counts (xs @ [c])"
proof -
  have b: "int (length xs) < 2 ^ 31 - 1" "int (words xs) < 2 ^ 31 - 1" "int (count_list xs 10) < 2 ^ 31 - 1"
    using assms words_le [of xs] count_list_le [of xs 10] by simp_all
  have "int32 (1 + int (length xs)) = 1 + int (length xs)" "int32 (1 + int (words xs)) = 1 + int (words xs)"
    "int32 (1 + int (count_list xs 10)) = 1 + int (count_list xs 10)"
    using b by (simp_all add: int32_id)
  moreover have "wc_space 10" by (simp add: wc_space_def)
  ultimately show ?thesis
    by (auto simp: wc_char_def wc_counts_def words_snoc Let_def add.commute)
qed

lemma fold_wc_counts: "length xs + length ys < 2 ^ 31 \<Longrightarrow> fold wc_char ys (wc_counts xs) = wc_counts (xs @ ys)"
proof (induction ys arbitrary: xs)
  case (Cons y ys)
  then show ?case using Cons.IH [of "xs @ [y]"] wc_char_counts [of xs y] by simp
qed simp

lemma wc_loop_ok:
  assumes "reads s fd = map got chunks @ got [] # as" and "\<forall>b\<in>set chunks. b \<noteq> []"
    and "length xs + length (concat chunks) < 2 ^ 31"
  shows "\<exists>t. wc_loop fd (wc_counts xs) s = Ok (wc_counts (xs @ concat chunks)) t \<and> answers t = answers s \<and>
    output_on 1 (calls t) = output_on 1 (calls s)"
  using assms
proof (induction chunks arbitrary: xs s)
  case Nil
  then show ?case by (subst wc_loop.simps) (auto simp: bnd_def u_read_some got_def ret_def)
next
  case (Cons b bs)
  define s1 where "s1 = s\<lparr>calls := calls s @ [C_read fd 512], reads := (reads s)(fd := map got bs @ got [] # as)\<rparr>"
  have "u_read fd 512 s = Ok (int (length b), b) s1"
    using u_read_some [of s fd "got b" "map got bs @ got [] # as"] Cons.prems(1) by (simp add: s1_def got_def)
  then have "wc_loop fd (wc_counts xs) s = wc_loop fd (wc_counts (xs @ b)) s1"
    using Cons.prems(2,3) fold_wc_counts [of xs b] by (subst wc_loop.simps) (simp add: bnd_def)
  moreover have "\<exists>t. wc_loop fd (wc_counts (xs @ b)) s1 = Ok (wc_counts ((xs @ b) @ concat bs)) t \<and> answers t = answers s1 \<and>
      output_on 1 (calls t) = output_on 1 (calls s1)"
    by (rule Cons.IH) (use Cons.prems in \<open>simp_all add: s1_def\<close>)
  ultimately show ?case by (simp add: s1_def)
qed

definition wc_text :: "u8 list \<Rightarrow> u8 list \<Rightarrow> u8 list" where
  "wc_text xs name = dec_text (int (count_list xs 10)) @ [32] @ dec_text (int (words xs)) @ [32] @
     dec_text (int (length xs)) @ [32] @ name @ [10]"

text \<open>
  C30: \<^verbatim>\<open>wc\<close> prints the number of newlines, words and bytes of its input, however the input is cut into
  reads; a word is a longest run of characters that are not separators.
\<close>

theorem wc_prints_counts:
  assumes "reads s fd = map got chunks @ got [] # as" and "\<forall>b\<in>set chunks. b \<noteq> []"
    and "length (concat chunks) < 2 ^ 31" and "length (wc_text (concat chunks) name) \<le> length (answers s)"
  shows "\<exists>t. wc fd name s = Ok () t \<and> output_on 1 (calls t) = output_on 1 (calls s) @ wc_text (concat chunks) name"
proof -
  let ?k = "wc_counts (concat chunks)"
  obtain t where t: "wc_loop fd (wc_counts []) s = Ok ?k t" "answers t = answers s" "output_on 1 (calls t) = output_on 1 (calls s)"
    using wc_loop_ok [OF assms(1,2), of "[]"] assms(3) by auto
  have "outputs 1 (vprintf_loop 1 [37, 100, 32, 37, 100, 32, 37, 100, 32, 37, 115, 10]
      [Pint (wc_l ?k), Pint (wc_w ?k), Pint (wc_c ?k), Pstr name]) (wc_text (concat chunks) name)"
    unfolding wc_text_def wc_counts_def wc_st.simps append_Cons append_Nil
    by (intro vprintf_d vprintf_char vprintf_str vprintf_Nil) simp_all
  from outputsD [OF this, of t] assms(4) t(2)
  have "u_printf (''%d %d %d %s'' @ nl) [Pint (wc_l ?k), Pint (wc_w ?k), Pint (wc_c ?k), Pstr name] t =
      Ok () (after (length (wc_text (concat chunks) name)) (writes 1 (wc_text (concat chunks) name)) t)"
    by (simp add: u_printf_def bytes_def nl_def)
  moreover have "\<lparr>wc_l = 0, wc_w = 0, wc_c = 0, wc_inword = False\<rparr> = wc_counts []" by (simp add: wc_counts_def)
  ultimately show ?thesis using t by (simp add: wc_def bnd_def)
qed

definition wc_demo :: uproc where
  "wc_demo = \<lparr>reads = (\<lambda>_. [got (bytes ''to b''), got (bytes ''e '' @ [10]), got []]), answers = replicate 20 (got []),
     calls = [], exited = None\<rparr>"

lemma dec_text_digit: "0 \<le> n \<Longrightarrow> n < 10 \<Longrightarrow> dec_text n = [u_digits ! nat n]"
proof -
  assume n: "0 \<le> n" "n < 10"
  define w where "w = (word_of_int n :: u32)"
  have "uint w = n" using n by (simp add: w_def uint_word_of_int take_bit_int_eq_self)
  then have u: "unat w = nat n" by (simp add: unat_eq_nat_uint)
  have "sint w = n" using n by (simp add: w_def signed_take_bit_int_eq_self signed_of_int)
  moreover have "nat n < 10" using n by simp
  ultimately show "dec_text n = [u_digits ! nat n]"
    using n u u_digits_rev_step [of w] by (simp add: dec_text_def u_printint_buf_def Let_def w_def [symmetric])
qed

theorem wc_prints_counts_witness:
  "\<exists>t. wc 3 (bytes ''f'') wc_demo = Ok () t \<and> output_on 1 (calls t) = bytes (''1 2 7 f'' @ nl)"
proof -
  have w: "words (bytes ''to be '' @ [10]) = 2"
    by (simp add: words_def bytes_def wc_space_def upt_rec)
  have "wc_text (bytes ''to be '' @ [10]) (bytes ''f'') = bytes (''1 2 7 f'' @ nl)"
    using w by (simp add: wc_text_def dec_text_digit u_digits_def bytes_def nl_def)
  then show ?thesis
    using wc_prints_counts [of wc_demo 3 "[bytes ''to b'', bytes ''e '' @ [10]]" "[]" "bytes ''f''"]
    by (simp add: wc_demo_def bytes_def nl_def)
qed

end
