(* ===== verification/Primes.thy ===== *)
theory Primes
  imports UPrintf
begin

text \<open>
  \<^verbatim>\<open>user/primes.c\<close>: a prime sieve as a chain of processes connected by pipes. One process is one run of
  \<^verbatim>\<open>primes\<close>; the chain is put together by giving each process as input what the one before it wrote to
  its pipe, which is what pipes do.
\<close>

section \<open>The program\<close>





definition int4 :: "int \<Rightarrow> u8 list" where
  "int4 n = le_bytes 4 (word_of_int n :: u32)"


section \<open>One process\<close>

lemma int4_length [simp]: "length (int4 n) = 4"
  by (simp add: int4_def)













lemma output_on_other [simp]:
  "output_on fd (C_close d # cs) = output_on fd cs" "output_on fd (C_pipe # cs) = output_on fd cs"
  "output_on fd (C_fork # cs) = output_on fd cs" "output_on fd (C_wait # cs) = output_on fd cs"
  "output_on fd (C_exit n # cs) = output_on fd cs"
  by (simp_all add: output_on_def)







section \<open>The sieve\<close>





section \<open>The chain of processes\<close>






section \<open>Property\<close>





end
