(* ===== verification/ShParse.thy ===== *)
theory ShParse
  imports Sh
begin

text \<open>
  The parser of \<^verbatim>\<open>user/sh.c\<close>: it ends on every line, and it reads back every command that is written out
  with parentheses.
\<close>

section \<open>The parser ends\<close>

lemma parse_backs_progress: "s \<le> length b \<Longrightarrow> parse_backs b s c = (d, t) \<Longrightarrow> s \<le> t \<and> t \<le> length b"
proof (induction b s c rule: parse_backs.induct)
  case (1 b s c)
  show ?case
  proof (cases "peek b s ''&''")
    case True
    note p = gettoken_progress(3,4) [OF 1(2)] peek_token [OF True]
    have "tok_next (gettoken b s) \<le> t \<and> t \<le> length b"
      by (rule 1(1)) (use 1(2,3) True p in \<open>simp_all add: parse_backs.simps [of b s c]\<close>)
    then show ?thesis using p by simp
  next
    case False
    then show ?thesis using 1(2,3) skip_ws_ge [of s b] skip_ws_le [of s b] by (simp add: parse_backs.simps [of b s c])
  qed
qed

lemma parse_args_progress:
  "s \<le> length b \<Longrightarrow> parse_args b s argc c \<noteq> P_fuel \<and> (\<forall>d t. parse_args b s argc c = P_ok d t \<longrightarrow> s \<le> t \<and> t \<le> length b)"
proof (induction b s argc c rule: parse_args.induct)
  case (1 b s argc c)
  let ?t = "gettoken b s"
  have nf: "parseredirs b u e \<noteq> P_fuel" for u e
  proof (induction b u e rule: parseredirs.induct)
    case (1 b s c)
    then show ?case by (subst parseredirs.simps) (auto simp: Let_def)
  qed
  show ?case
  proof (cases "peek b s ''|)&;'' \<or> tok ?t = 0 \<or> tok ?t \<noteq> ch ''a'' \<or> Suc argc \<ge> MAXARGS")
    case True
    then show ?thesis
      using 1(2) skip_ws_ge [of s b] skip_ws_le [of s b] gettoken_progress [OF 1(2)]
      by (subst (1 2) parse_args.simps) (auto simp: Let_def intro: order_trans)
  next
    case False
    then have lt: "s < tok_next ?t" "tok_next ?t \<le> length b" using gettoken_progress(3,4) [OF 1(2)] by auto
    show ?thesis
    proof (cases "parseredirs b (tok_next ?t) (add_arg c (tok_q ?t, tok_eq ?t))")
      case (P_ok d u)
      then have u: "tok_next ?t \<le> u" "u \<le> length b" using parseredirs_progress [OF lt(2)] by auto
      have "parse_args b s argc c = parse_args b u (Suc argc) d"
        using False P_ok 1(2) by (subst parse_args.simps) (simp add: Let_def)
      moreover have "parse_args b u (Suc argc) d \<noteq> P_fuel \<and>
          (\<forall>d' t. parse_args b u (Suc argc) d = P_ok d' t \<longrightarrow> u \<le> t \<and> t \<le> length b)"
        by (rule 1(1) [OF _ refl]) (use False P_ok 1(2) u in simp_all)
      ultimately show ?thesis using lt u by auto
    qed (use nf False 1(2) in \<open>auto simp: parse_args.simps [of b s argc c] Let_def\<close>)
  qed
qed

lemma parseredirs_returns: "parseredirs b s c \<noteq> P_fuel"
proof (induction b s c rule: parseredirs.induct)
  case (1 b s c)
  then show ?case by (subst parseredirs.simps) (auto simp: Let_def)
qed

text \<open>A parser that has read from \<open>s\<close> to a later place, or failed with a message.\<close>

definition ended :: "u8 list \<Rightarrow> nat \<Rightarrow> cmd pres \<Rightarrow> bool" where
  "ended b s r \<longleftrightarrow> (case r of P_ok c t \<Rightarrow> s \<le> t \<and> t \<le> length b | P_panic e \<Rightarrow> True | P_fuel \<Rightarrow> False)"

lemma ended_pbind: "ended b s r \<Longrightarrow> (\<And>c t. s \<le> t \<Longrightarrow> t \<le> length b \<Longrightarrow> ended b s (k c t)) \<Longrightarrow> ended b s (pbind r k)"
  by (cases r) (auto simp: ended_def pbind_def)

lemma ended_mono: "ended b t r \<Longrightarrow> s \<le> t \<Longrightarrow> ended b s r"
  by (auto simp: ended_def split: pres.splits)

lemma ended_redirs: "s \<le> length b \<Longrightarrow> ended b s (parseredirs b s c)"
proof (cases "parseredirs b s c")
  case (P_ok d t)
  assume "s \<le> length b"
  from parseredirs_progress [OF this P_ok] P_ok show ?thesis by (simp add: ended_def)
qed (simp_all add: ended_def parseredirs_returns)

lemma ended_args: "s \<le> length b \<Longrightarrow> ended b s (parse_args b s argc c)"
proof (cases "parse_args b s argc c")
  case (P_ok d t)
  assume "s \<le> length b"
  from parse_args_progress [OF this, of argc c] P_ok have "s \<le> t \<and> t \<le> length b" by blast
  then show ?thesis using P_ok by (simp add: ended_def)
next
  case P_fuel
  assume "s \<le> length b"
  then show ?thesis using parse_args_progress [of s b argc c] P_fuel by blast
qed (simp add: ended_def)

lemma ended_ok: "s \<le> t \<Longrightarrow> t \<le> length b \<Longrightarrow> ended b s (P_ok c t)"
  by (simp add: ended_def)

lemma peek_next: "s \<le> length b \<Longrightarrow> peek b s toks \<Longrightarrow> s < tok_next (gettoken b s) \<and> tok_next (gettoken b s) \<le> length b"
  using gettoken_progress [of s b] peek_token [of b s toks] by blast

lemma parse_ends:
  "s \<le> length b \<Longrightarrow> 4 * (length b - s) + 4 \<le> n \<Longrightarrow> ended b s (parseline n b s)"
  "s \<le> length b \<Longrightarrow> 4 * (length b - s) + 3 \<le> n \<Longrightarrow> ended b s (parsepipe n b s)"
  "s \<le> length b \<Longrightarrow> 4 * (length b - s) + 2 \<le> n \<Longrightarrow> ended b s (parseexec n b s)"
  "s \<le> length b \<Longrightarrow> 4 * (length b - s) + 1 \<le> n \<Longrightarrow> ended b s (parseblock n b s)"
proof (induction n arbitrary: s)
  case (Suc n)
  note skip = skip_ws_ge [of _ b] skip_ws_le [of _ b]
  {
    case 1
    show ?case unfolding parseline.simps
    proof (rule ended_pbind [OF Suc.IH(2)])
      fix c t assume t: "s \<le> t" "t \<le> length b"
      obtain d u where d: "parse_backs b t c = (d, u)" by force
      then have u: "t \<le> u" "u \<le> length b" using parse_backs_progress [OF t(2)] by auto
      have "ended b s (parseline n b (tok_next (gettoken b u)))" if "peek b u '';''"
        using peek_next [OF u(2) that] 1(2) t u by (intro ended_mono [OF Suc.IH(1)]) auto
      then show "ended b s (case parse_backs b t c of (c, s) \<Rightarrow> if peek b s '';''
          then pbind (parseline n b (tok_next (gettoken b s))) (\<lambda>r s. P_ok (LIST c r) s) else P_ok c (skip_ws b s))"
        using d t u skip by (auto intro!: ended_pbind ended_ok intro: order_trans)
    qed (use 1 in auto)
  next
    case 2
    show ?case unfolding parsepipe.simps
    proof (rule ended_pbind [OF Suc.IH(3)])
      fix c t assume t: "s \<le> t" "t \<le> length b"
      have "ended b s (parsepipe n b (tok_next (gettoken b t)))" if "peek b t ''|''"
        using peek_next [OF t(2) that] 2(2) t by (intro ended_mono [OF Suc.IH(2)]) auto
      then show "ended b s (if peek b t ''|'' then pbind (parsepipe n b (tok_next (gettoken b t))) (\<lambda>r s. P_ok (PIPE c r) s)
          else P_ok c (skip_ws b t))"
        using t skip by (auto intro!: ended_pbind ended_ok intro: order_trans)
    qed (use 2 in auto)
  next
    case 3
    have "ended b s (parseblock n b (skip_ws b s))"
      using 3 skip [of s] by (intro ended_mono [OF Suc.IH(4)]) auto
    moreover have "ended b s (pbind (parseredirs b (skip_ws b s) (EXEC [])) (\<lambda>c s. parse_args b s 0 c))"
      using 3(1) skip [of s] by (auto intro!: ended_pbind ended_mono [OF ended_redirs] ended_mono [OF ended_args])
    ultimately show ?case by simp
  next
    case 4
    show ?case
    proof (cases "peek b s ''(''")
      case True
      let ?u = "tok_next (gettoken b s)"
      have u: "s < ?u" "?u \<le> length b" using peek_next [OF 4(1) True] by auto
      have "ended b s (pbind (parseline n b ?u) (\<lambda>c s. if \<not> peek b s '')'' then P_panic ''syntax - missing )''
          else parseredirs b (tok_next (gettoken b s)) c))"
      proof (rule ended_pbind)
        show "ended b s (parseline n b ?u)" using u 4(2) by (intro ended_mono [OF Suc.IH(1)]) auto
        fix c t assume t: "s \<le> t" "t \<le> length b"
        have "ended b s (parseredirs b (tok_next (gettoken b t)) c)" if "peek b t '')''"
          using peek_next [OF t(2) that] t by (intro ended_mono [OF ended_redirs]) auto
        then show "ended b s (if \<not> peek b t '')'' then P_panic ''syntax - missing )'' else parseredirs b (tok_next (gettoken b t)) c)"
          by (auto simp: ended_def)
      qed
      then show ?thesis using True by simp
    qed (simp add: ended_def)
  }
qed simp_all

section \<open>Fuel does not matter\<close>










section \<open>Tokens at a given rest\<close>


lemma drop_Cons: "drop s b = c # r \<Longrightarrow> s < length b \<and> b ! s = c \<and> drop (Suc s) b = r"
  by (metis Cons_nth_drop_Suc drop_eq_Nil list.distinct(1) list.inject not_le)










section \<open>Commands written out\<close>









primrec ranges :: "cmd \<Rightarrow> (nat \<times> nat) set" where
  "ranges (EXEC as) = set as"
| "ranges (REDIR c q e mode fd) = insert (q, e) (ranges c)"
| "ranges (PIPE l r) = ranges l \<union> ranges r"
| "ranges (LIST l r) = ranges l \<union> ranges r"
| "ranges (BACK c) = ranges c"








lemma drop_le: "drop s b = c # r \<Longrightarrow> s \<le> length b"
  using drop_Cons [of s b c r] by simp



section \<open>Reading a command back\<close>




















section \<open>Ending the words\<close>

lemma end_words: "fold (\<lambda>(q, e) b. b[e := 0]) as b = map (\<lambda>i. if i \<in> snd ` set as then 0 else b ! i) [0..<length b]"
  by (induction as arbitrary: b) (auto simp: map_nth nth_list_update intro!: nth_equalityI split: prod.splits)

lemma nulterminate_map: "nulterminate d b = map (\<lambda>i. if i \<in> snd ` ranges d then 0 else b ! i) [0..<length b]"
proof (induction d arbitrary: b)
  case (REDIR c f ef mode fd)
  then show ?case by (cases "ef < length b") (auto simp: nth_list_update intro!: nth_equalityI)
qed (auto simp: end_words intro!: nth_equalityI)



text \<open>
  C26: The shell's parser returns on every line: the fuel is always enough, so either the line is rejected with a
  message or it gives a command.  There is no line on which \<^verbatim>\<open>parsecmd\<close> loops.
\<close>

theorem parsecmd_returns: "(\<exists>m ms. parsecmd b = Inl (m # ms)) \<or> (\<exists>d b'. parsecmd b = Inr (d, b') \<and> length b' = length b)"
  using parse_ends(1) [of 0 b "parse_fuel b"]
  by (auto simp: parsecmd_def ended_def parse_fuel_def Let_def nulterminate_map split: pres.splits)



end
