(* ===== verification/Spec2Isabelle.thy ===== *)
theory Spec2Isabelle
  imports UserCopy Trap Crash PipeQueue ConsoleLine VirtioXfer FsAlloc Grep Tools Primes ShParse
begin

text \<open>
  A verification development for the xv6 kernel (RISC-V version) and its user programs.

  \<^bold>\<open>The program.\<close> xv6 is a small Unix. Interrupts, exceptions and system calls of a process enter the
  kernel at \<^verbatim>\<open>kernel/trap.c\<close>; \<^verbatim>\<open>syscall.c\<close> fetches the arguments and calls one of the routines of \<^verbatim>\<open>sysproc.c\<close>
  (processes and memory) and \<^verbatim>\<open>sysfile.c\<close> (files). These use the process table and scheduler (\<^verbatim>\<open>proc.c\<close>), page
  tables (\<^verbatim>\<open>vm.c\<close>) over the page allocator (\<^verbatim>\<open>kalloc.c\<close>), and open files (\<^verbatim>\<open>file.c\<close>), which are pipes (\<^verbatim>\<open>pipe.c\<close>),
  devices (\<^verbatim>\<open>console.c\<close> on \<^verbatim>\<open>uart.c\<close>) or inodes (\<^verbatim>\<open>fs.c\<close>). The file system changes blocks only inside transactions of
  the write-ahead log (\<^verbatim>\<open>log.c\<close>), over the buffer cache (\<^verbatim>\<open>bio.c\<close>), over the disk driver (\<^verbatim>\<open>virtio_disk.c\<close>). Spin
  locks and sleep locks protect all of it. The user programs reach the kernel only through system calls.

  \<^bold>\<open>How C is rendered.\<close> Machine integers are words of their width, memory is a map from addresses to bytes, and
  structures of the kernel's tables are records addressed by their index. A routine is a function from the
  state to an outcome (theory \<open>Prelude\<close>): \<open>Ok r s\<close>, it returned; \<open>Panic msg\<close>, it called \<^verbatim>\<open>panic\<close> (an access outside an
  object and an endless loop are panics of their own names, so no theorem about returning runs covers
  them up); or \<open>Swtch s\<close>, it gave up the processor in state \<open>s\<close>. The kernel's state is a chain of records, each
  component extending that of the components below it.

  \<^bold>\<open>Theories and sources.\<close>
  \<^item> \<open>Prelude\<close>, \<open>Bytes\<close>, \<open>Layout\<close>: outcomes and sequencing, little-endian memory, \<^verbatim>\<open>param.h\<close>, \<^verbatim>\<open>memlayout.h\<close>, \<^verbatim>\<open>riscv.h\<close>.
  \<^item> \<open>CString\<close>: \<^verbatim>\<open>string.c\<close>. \<open>Printf\<close>: \<^verbatim>\<open>printf.c\<close>. \<open>Console\<close>: \<^verbatim>\<open>console.c\<close>, \<^verbatim>\<open>uart.c\<close>.
  \<^item> \<open>Spinlock\<close>, \<open>Sleeplock\<close>: \<^verbatim>\<open>spinlock.c\<close> on any number of harts, cut at the atomic memory operations, and \<^verbatim>\<open>sleeplock.c\<close>.
  \<^item> \<open>Kalloc\<close>, \<open>Vm\<close>: \<^verbatim>\<open>kalloc.c\<close>, \<^verbatim>\<open>vm.c\<close>. \<open>Proc\<close>, \<open>Process\<close>: \<^verbatim>\<open>proc.c\<close>.
  \<^item> \<open>Bio\<close>, \<open>Log\<close>, \<open>Fs\<close>, \<open>Pipe\<close>, \<open>File\<close>, \<open>Exec\<close>, \<open>Syscall\<close>: the sources of these names, and \<^verbatim>\<open>sysproc.c\<close>, \<^verbatim>\<open>sysfile.c\<close>.
  \<^item> \<open>Virtio\<close>, \<open>Trap\<close>: \<^verbatim>\<open>virtio_disk.c\<close>; \<^verbatim>\<open>trap.c\<close>, \<^verbatim>\<open>plic.c\<close>, \<^verbatim>\<open>main.c\<close>, \<^verbatim>\<open>start.c\<close>.
  \<^item> \<open>User\<close>, \<open>UPrintf\<close>: the system-call stubs of \<^verbatim>\<open>user/usys.pl\<close>, \<^verbatim>\<open>user/ulib.c\<close> and \<^verbatim>\<open>user/printf.c\<close>; a user process is a function
    of the results of its system calls, and both sides of a \<^verbatim>\<open>fork\<close> are runs of it.
  \<^item> \<open>Grep\<close>, \<open>Primes\<close>, \<open>Sh\<close>, \<open>ShParse\<close>, \<open>Tools\<close>: \<^verbatim>\<open>grep.c\<close>, \<^verbatim>\<open>primes.c\<close>, \<^verbatim>\<open>sh.c\<close>, and the small programs (\<^verbatim>\<open>cat\<close>, \<^verbatim>\<open>echo\<close>, \<^verbatim>\<open>wc\<close>, \<^verbatim>\<open>ls\<close>, \<^verbatim>\<open>init\<close> and others).
  \<^bold>\<open>What is shown.\<close>
  \<^item> \<open>Spinlock\<close>: mutual exclusion, interrupts off while a lock is held, nesting of \<^verbatim>\<open>push_off\<close>, and that the lock words
    implement the list of held locks the other components see.
  \<^item> \<open>Kalloc\<close>, \<open>PageTable\<close>, \<open>UserCopy\<close>: no page is lost or handed out twice; \<^verbatim>\<open>mappages\<close> maps exactly what it was asked to;
    \<^verbatim>\<open>copyout\<close> and \<^verbatim>\<open>copyin\<close> are inverse and stay in their range.
  \<^item> \<open>BufCache\<close>: the buffer list is a ring, a block is cached at most once, \<^verbatim>\<open>bread\<close> sees the block's content, replacement
    is least recently used.
  \<^item> \<open>Crash\<close>: a transaction is atomic at every point the machine may stop, recovery may itself be interrupted, and the
    reservation of \<^verbatim>\<open>begin_op\<close> is too generous for the log that \<^verbatim>\<open>mkfs\<close> makes.
  \<^item> \<open>FsAlloc\<close>: \<^verbatim>\<open>balloc\<close> and \<^verbatim>\<open>bfree\<close> on the bitmap. \<open>VirtioXfer\<close>: the descriptor rings implement a block transfer.
  \<^item> \<open>PipeQueue\<close>, \<open>ConsoleLine\<close>: pipes are byte queues although their counters wrap; the console is a line editor.
  \<^item> \<open>CString\<close>, \<open>PrintNum\<close>: \<^verbatim>\<open>memmove\<close>, \<^verbatim>\<open>safestrcpy\<close>, and number formatting with the size of its buffer.
  \<^item> \<open>Grep\<close>, \<open>Primes\<close>, \<open>ShParse\<close>, \<open>Tools\<close>: the matcher decides its pattern's language, grep prints the matching lines, the
    process chain prints the primes, the shell's parser terminates and inverts printing, \<^verbatim>\<open>wc\<close> counts.
  \<^bold>\<open>Interfaces.\<close> \<open>page_allocator\<close> (\<open>Kalloc\<close>), \<open>block_cache\<close> (\<open>BufCache\<close>, used by \<open>Crash\<close> and \<open>FsAlloc\<close>), \<open>ring_queue\<close> (\<open>Ring\<close>,
  used by \<open>PipeQueue\<close>) and \<open>invariant_system\<close> (\<open>Prelude\<close>, used by \<open>Spinlock\<close>) are locales, interpreted on the model's
  own routines.

  \<^bold>\<open>Bounds and fuel.\<close> Loops over a list through pointers (free list, buffer list, descriptor chains) and string
  loops without a bound are partial functions or count a structural bound of the source (\<^verbatim>\<open>NBUF\<close>, \<^verbatim>\<open>NUM\<close>,
  \<^verbatim>\<open>NPROC\<close>, the page count); running past it is the outcome \<open>forever\<close>, which the theorems about returning exclude.
  The shell's parser takes \<open>parse_fuel b = 4 * length b + 4\<close>, proved to be enough for every line. A loop of a user program
  over its input ends because each turn uses up one of the system-call results its state holds.
  \<^bold>\<open>Devices and memory order.\<close> The disk, the UART and the interrupt controller are parameters or fields of the state
  that the environment fills in. Apart from the spin locks, whose steps interleave, a kernel routine runs on one
  hart without interleaving; where the code sleeps, the outcome \<open>Swtch\<close> ends the run, and other processes are
  other runs from the state left behind.

  \<^bold>\<open>Not modelled.\<close>
  \<^item> The assembly files (\<^verbatim>\<open>entry.S\<close>, \<^verbatim>\<open>kernelvec.S\<close>, \<^verbatim>\<open>swtch.S\<close>, \<^verbatim>\<open>trampoline.S\<close>, \<^verbatim>\<open>initcode.S\<close>): they need a semantics of the
    instruction set. Their effect where C code relies on it is the outcome \<open>Swtch\<close> and the trap frame.
  \<^item> \<^verbatim>\<open>defs.h\<close>, \<^verbatim>\<open>user.h\<close>: prototypes.
\<close>

end
